(* ===== verification/Prelude.thy ===== *)
theory Prelude
  imports Complex_Main "HOL-Library.Word" "HOL-Library.Char_ord" "HOL-Library.List_Lexorder"
    "HOL-Library.Multiset"
begin

text \<open>
  The part of Go and of its standard library that the engine uses, in the shape every
  component theory shares it:
  \<^item> \<open>'a result\<close> is a Go return pair \<open>(value, error)\<close>; the error is its message;
  \<^item> \<open>('w, 'a) io\<close> is a call that goes through the RPC provider: the provider's state is
    an abstract world \<open>'w\<close> that every call may change, so two reads of the same contract may
    answer differently;
  \<^item> a \<open>*big.Int\<close> that may be \<open>nil\<close> is an \<open>int option\<close>; \<open>uint64\<close> is a
    \<open>64 word\<close>, a Go \<open>int\<close> that only counts configured or in-memory items is an \<open>int\<close>;
  \<^item> strings are byte strings (\<open>char list\<close>); case folding is the ASCII one, as every folded
    string of the code is a hexadecimal address, a flag or a provider message;
  \<^item> \<open>sort_slice\<close> is \<open>sort.SliceStable\<close> with an arbitrary comparison.
\<close>

section \<open>Types\<close>

type_synonym u64 = "64 word"
type_synonym u32 = "32 word"
type_synonym byte = "8 word"
type_synonym bytes = "byte list"
type_synonym bigint = "int option"
type_synonym 'a result = "string + 'a"
type_synonym ('w, 'a) io = "'w \<Rightarrow> 'a result \<times> 'w"

named_theorems go_simps \<open>unfolding rules for the Go standard library functions\<close>
named_theorems io_simps \<open>rules for world-passing calls\<close>

section \<open>World-passing calls\<close>

definition ret :: "'a \<Rightarrow> ('w, 'a) io" where
  "ret a w = (Inr a, w)"

definition throw :: "string \<Rightarrow> ('w, 'a) io" where
  "throw e w = (Inl e, w)"

definition bindE :: "('w, 'a) io \<Rightarrow> ('a \<Rightarrow> ('w, 'b) io) \<Rightarrow> ('w, 'b) io" where
  "bindE m f w = (case m w of (Inl e, w') \<Rightarrow> (Inl e, w') | (Inr a, w') \<Rightarrow> f a w')"

text \<open>A result computed without any call.\<close>

definition lift_res :: "'a result \<Rightarrow> ('w, 'a) io" where
  "lift_res r w = (r, w)"

text \<open>\<open>fmt.Errorf("prefix: %w", err)\<close>: the message is extended, the call is the same.\<close>

definition wrap_err :: "string \<Rightarrow> ('w, 'a) io \<Rightarrow> ('w, 'a) io" where
  "wrap_err p m w = (case m w of (Inl e, w') \<Rightarrow> (Inl (p @ e), w') | (Inr a, w') \<Rightarrow> (Inr a, w'))"

text \<open>An error of any kind is replaced by one message.\<close>

definition or_err :: "string \<Rightarrow> 'a result \<Rightarrow> 'a result" where
  "or_err p r = (case r of Inl _ \<Rightarrow> Inl p | Inr a \<Rightarrow> Inr a)"

lemma ret_apply [io_simps, simp]: "ret a w = (Inr a, w)"
  by (simp add: ret_def)

lemma throw_apply [io_simps, simp]: "throw e w = (Inl e, w)"
  by (simp add: throw_def)

lemma lift_res_apply [io_simps, simp]: "lift_res r w = (r, w)"
  by (simp add: lift_res_def)

lemma bindE_Inl [io_simps]: "m w = (Inl e, w') \<Longrightarrow> bindE m f w = (Inl e, w')"
  by (simp add: bindE_def)

lemma bindE_Inr [io_simps]: "m w = (Inr a, w') \<Longrightarrow> bindE m f w = f a w'"
  by (simp add: bindE_def)

lemma bindE_ret [simp]: "bindE (ret a) f = f a"
  by (rule ext) (simp add: bindE_def)

lemma bindE_throw [simp]: "bindE (throw e) f = throw e"
  by (rule ext) (simp add: bindE_def)

lemma bindE_assoc: "bindE (bindE m f) g = bindE m (\<lambda>x. bindE (f x) g)"
  by (rule ext) (simp add: bindE_def split: prod.split sum.split)

lemma bindE_InrE:
  assumes "bindE m f w = (Inr b, w'')"
  obtains a w' where "m w = (Inr a, w')" "f a w' = (Inr b, w'')"
  using assms by (auto simp: bindE_def split: prod.splits sum.splits)

lemma wrap_err_InrE:
  assumes "wrap_err p m w = (Inr a, w')"
  shows "m w = (Inr a, w')"
  using assms by (auto simp: wrap_err_def split: prod.splits sum.splits)

lemma wrap_err_Inr_iff [simp]: "wrap_err p m w = (Inr a, w') \<longleftrightarrow> m w = (Inr a, w')"
  by (auto simp: wrap_err_def split: prod.splits sum.splits)

lemma lift_res_Inr_iff [simp]: "lift_res r w = (Inr a, w') \<longleftrightarrow> r = Inr a \<and> w' = w"
  by (auto simp: lift_res_def)

lemma or_err_Inr_iff [simp]: "or_err p r = Inr a \<longleftrightarrow> r = Inr a"
  by (auto simp: or_err_def split: sum.splits)

section \<open>Strings\<close>

definition char_lower :: "char \<Rightarrow> char" where
  "char_lower c = (let n = (of_char c :: nat) in if 65 \<le> n \<and> n \<le> 90 then char_of (n + 32) else c)"

definition to_lower :: "string \<Rightarrow> string" where
  "to_lower s = map char_lower s"

definition equal_fold :: "string \<Rightarrow> string \<Rightarrow> bool" where
  "equal_fold a b \<longleftrightarrow> to_lower a = to_lower b"

definition is_space :: "char \<Rightarrow> bool" where
  "is_space c \<longleftrightarrow> (of_char c :: nat) \<in> {9, 10, 11, 12, 13, 32}"

definition trim_space :: "string \<Rightarrow> string" where
  "trim_space s = rev (dropWhile is_space (rev (dropWhile is_space s)))"

fun has_prefix :: "string \<Rightarrow> string \<Rightarrow> bool" where
  "has_prefix [] s = True"
| "has_prefix (p # ps) [] = False"
| "has_prefix (p # ps) (c # cs) = (p = c \<and> has_prefix ps cs)"

definition trim_prefix :: "string \<Rightarrow> string \<Rightarrow> string" where
  "trim_prefix p s = (if has_prefix p s then drop (length p) s else s)"

fun contains :: "string \<Rightarrow> string \<Rightarrow> bool" where
  "contains pat [] = (pat = [])"
| "contains pat (c # cs) = (has_prefix pat (c # cs) \<or> contains pat cs)"

fun join :: "string \<Rightarrow> string list \<Rightarrow> string" where
  "join sep [] = []"
| "join sep [x] = x"
| "join sep (x # y # ys) = x @ sep @ join sep (y # ys)"

text \<open>For evaluating case folding on literals.\<close>

lemmas fold_eval = to_lower_def char_lower_def char_of_def bit_0

lemma char_lower_idem [simp]: "char_lower (char_lower c) = char_lower c"
  by (cases "65 \<le> (of_char c :: nat) \<and> (of_char c :: nat) \<le> 90")
     (auto simp: char_lower_def Let_def)

lemma of_char_lower:
  "(of_char (char_lower c) :: nat) = (let n = of_char c in if 65 \<le> n \<and> n \<le> 90 then n + 32 else n)"
  by (simp add: char_lower_def Let_def)

lemma to_lower_idem [simp]: "to_lower (to_lower s) = to_lower s"
  by (simp add: to_lower_def)

lemma to_lower_Nil [simp]: "to_lower [] = []"
  by (simp add: to_lower_def)

lemma to_lower_eq_Nil [simp]: "to_lower s = [] \<longleftrightarrow> s = []"
  by (simp add: to_lower_def)

lemma length_to_lower [simp]: "length (to_lower s) = length s"
  by (simp add: to_lower_def)

lemma to_lower_append [simp]: "to_lower (a @ b) = to_lower a @ to_lower b"
  by (simp add: to_lower_def)

lemma equal_fold_refl [simp, intro]: "equal_fold a a"
  by (simp add: equal_fold_def)

lemma equal_fold_sym: "equal_fold a b \<longleftrightarrow> equal_fold b a"
  by (auto simp: equal_fold_def)

lemma equal_fold_trans: "equal_fold a b \<Longrightarrow> equal_fold b c \<Longrightarrow> equal_fold a c"
  by (simp add: equal_fold_def)

lemma trim_space_no_space:
  assumes "\<forall>c\<in>set s. \<not> is_space c"
  shows "trim_space s = s"
proof -
  have "dropWhile is_space xs = xs" if "\<forall>c\<in>set xs. \<not> is_space c" for xs
    using that by (cases xs) auto
  from this [of s] this [of "rev s"] assms show ?thesis by (simp add: trim_space_def)
qed

lemma has_prefix_append [simp]: "has_prefix p (p @ s)"
  by (induction p) auto

lemma trim_prefix_append [simp]: "trim_prefix p (p @ s) = s"
  by (simp add: trim_prefix_def)

lemma has_prefix_iff: "has_prefix p s \<longleftrightarrow> (\<exists>t. s = p @ t)"
  by (induction p s rule: has_prefix.induct) auto

section \<open>Integers\<close>

text \<open>\<open>big.Int.Div\<close> is Euclidean, \<open>big.Int.Quo\<close> truncates, as Go's \<open>/\<close> on \<open>int\<close> does.\<close>

definition big_div :: "int \<Rightarrow> int \<Rightarrow> int" where
  "big_div a b = (if 0 \<le> b then a div b else - (a div (- b)))"

definition big_quo :: "int \<Rightarrow> int \<Rightarrow> int" where
  "big_quo a b = sgn a * sgn b * (\<bar>a\<bar> div \<bar>b\<bar>)"

text \<open>A nil \<open>*big.Int\<close> read through a helper that treats it as zero.\<close>

definition big_or_zero :: "bigint \<Rightarrow> int" where
  "big_or_zero v = (case v of None \<Rightarrow> 0 | Some x \<Rightarrow> x)"

text \<open>\<open>x != nil && x.Sign() > 0\<close>.\<close>

definition big_pos :: "bigint \<Rightarrow> bool" where
  "big_pos v \<longleftrightarrow> (case v of None \<Rightarrow> False | Some x \<Rightarrow> 0 < x)"

text \<open>Go's remainder takes the sign of the dividend.\<close>

definition big_rem :: "int \<Rightarrow> int \<Rightarrow> int" where
  "big_rem a b = a - b * big_quo a b"

lemma big_div_pos [simp]: "0 < b \<Longrightarrow> big_div a b = a div b"
  by (simp add: big_div_def)

lemma big_quo_nonneg [simp]: "0 \<le> a \<Longrightarrow> 0 < b \<Longrightarrow> big_quo a b = a div b"
  by (cases "a = 0") (auto simp: big_quo_def)

lemma length_filter_le_mono: "(\<And>x. x \<in> set xs \<Longrightarrow> P x \<Longrightarrow> Q x) \<Longrightarrow> length (filter P xs) \<le> length (filter Q xs)"
  by (induction xs) (auto simp: le_SucI)

lemma big_quo_quotient_of: "0 \<le> q \<Longrightarrow> (case quotient_of q of (a, b) \<Rightarrow> big_quo a b) = \<lfloor>q\<rfloor>"
proof -
  assume q: "0 \<le> q"
  obtain a b where ab: "quotient_of q = (a, b)" by force
  have b: "0 < b" using quotient_of_denom_pos [OF ab] .
  have "q = of_int a / of_int b" using quotient_of_div [OF ab] .
  with q b have "0 \<le> a" by (simp add: zero_le_divide_iff)
  with b show ?thesis by (simp add: ab rat_floor_code)
qed

lemma big_rem_nonneg [simp]: "0 \<le> a \<Longrightarrow> 0 < b \<Longrightarrow> big_rem a b = a mod b"
  by (simp add: big_rem_def minus_mult_div_eq_mod)

lemma big_or_zero_simps [simp]: "big_or_zero None = 0" "big_or_zero (Some x) = x"
  by (simp_all add: big_or_zero_def)

lemma big_pos_simps [simp]: "big_pos None = False" "big_pos (Some x) = (0 < x)"
  by (simp_all add: big_pos_def)

lemma big_posE: "big_pos v \<Longrightarrow> (\<And>x. v = Some x \<Longrightarrow> 0 < x \<Longrightarrow> P) \<Longrightarrow> P"
  by (cases v) auto

subsection \<open>Decimal notation\<close>

text \<open>\<open>%d\<close>, \<open>big.Int.String()\<close> and \<open>strconv.ParseUint(s, 10, 64)\<close>.\<close>

definition digit :: "nat \<Rightarrow> char" where
  "digit n = char_of (48 + n)"

function show_nat :: "nat \<Rightarrow> string" where
  "show_nat n = (if n < 10 then [digit n] else show_nat (n div 10) @ [digit (n mod 10)])"
  by pat_completeness auto
termination
  by (relation "measure id") auto

declare show_nat.simps [simp del]

definition show_int :: "int \<Rightarrow> string" where
  "show_int i = (if i < 0 then CHR ''-'' # show_nat (nat (- i)) else show_nat (nat i))"

fun parse_digits :: "nat \<Rightarrow> string \<Rightarrow> nat option" where
  "parse_digits acc [] = Some acc"
| "parse_digits acc (c # cs) =
     (let n = (of_char c :: nat) in
      if 48 \<le> n \<and> n \<le> 57 then parse_digits (acc * 10 + (n - 48)) cs else None)"

definition parse_uint :: "string \<Rightarrow> u64 option" where
  "parse_uint s =
     (if s = '''' then None
      else case parse_digits 0 s of
             None \<Rightarrow> None
           | Some v \<Rightarrow> if v < 2 ^ 64 then Some (of_nat v) else None)"

lemma parse_digits_snoc:
  "n < 10 \<Longrightarrow> parse_digits acc (s @ [digit n]) = map_option (\<lambda>v. v * 10 + n) (parse_digits acc s)"
  by (induction acc s rule: parse_digits.induct) (auto simp: digit_def Let_def)

lemma parse_show_nat [simp]: "parse_digits 0 (show_nat n) = Some n"
proof (induction n rule: show_nat.induct)
  case (1 n)
  show ?case
  proof (cases "n < 10")
    case True
    then show ?thesis
      using parse_digits_snoc [of n 0 "[]"] by (subst show_nat.simps) simp
  next
    case False
    then show ?thesis
      using 1 by (subst show_nat.simps) (simp add: parse_digits_snoc)
  qed
qed

lemma show_nat_nonempty [simp]: "show_nat n \<noteq> []"
  by (subst show_nat.simps) auto

lemma show_nat_inj [simp]: "show_nat m = show_nat n \<longleftrightarrow> m = n"
  by (metis option.inject parse_show_nat)

lemma show_nat_digits: "c \<in> set (show_nat n) \<Longrightarrow> 48 \<le> (of_char c :: nat) \<and> (of_char c :: nat) \<le> 57"
proof (induction n rule: show_nat.induct)
  case (1 n)
  then show ?case
    by (subst (asm) (2) show_nat.simps) (auto simp: digit_def split: if_splits)
qed

lemma show_nat_no_sign: "CHR ''-'' \<notin> set (show_nat n)"
  using show_nat_digits [of "CHR ''-''" n] by auto

lemma show_int_inj [simp]: "show_int i = show_int j \<longleftrightarrow> i = j"
proof -
  have "show_nat m \<noteq> CHR ''-'' # s" "CHR ''-'' # s \<noteq> show_nat m" for m s
    using show_nat_no_sign [of m] by (metis list.set_intros(1))+
  then show ?thesis by (auto simp: show_int_def)
qed

section \<open>Sorting\<close>

text \<open>
  \<open>sort.SliceStable\<close>: insertion that puts an element before the first later one that is not
  strictly less. \<open>sort.Slice\<close> is read the same way; it differs in the order of elements that
  the comparison does not separate only.
\<close>

fun go_insert :: "('a \<Rightarrow> 'a \<Rightarrow> bool) \<Rightarrow> 'a \<Rightarrow> 'a list \<Rightarrow> 'a list" where
  "go_insert lt x [] = [x]"
| "go_insert lt x (y # ys) = (if lt y x then y # go_insert lt x ys else x # y # ys)"

fun sort_slice :: "('a \<Rightarrow> 'a \<Rightarrow> bool) \<Rightarrow> 'a list \<Rightarrow> 'a list" where
  "sort_slice lt [] = []"
| "sort_slice lt (x # xs) = go_insert lt x (sort_slice lt xs)"

lemma mset_go_insert [simp]: "mset (go_insert lt x xs) = add_mset x (mset xs)"
  by (induction xs) auto

lemma mset_sort_slice [simp]: "mset (sort_slice lt xs) = mset xs"
  by (induction xs) auto

lemma set_go_insert [simp]: "set (go_insert lt x xs) = insert x (set xs)"
  by (induction xs) auto

lemma set_sort_slice [simp]: "set (sort_slice lt xs) = set xs"
  by (induction xs) auto

lemma length_go_insert [simp]: "length (go_insert lt x xs) = Suc (length xs)"
  by (induction xs) auto

lemma length_sort_slice [simp]: "length (sort_slice lt xs) = length xs"
  by (induction xs) auto

lemma distinct_sort_slice [simp]: "distinct (sort_slice lt xs) = distinct xs"
  by (metis mset_sort_slice mset_eq_imp_distinct_iff)

lemma distinct_map_sort_slice [simp]:
  "distinct (map f (sort_slice lt xs)) = distinct (map f xs)"
  by (metis mset_eq_imp_distinct_iff mset_map mset_sort_slice)

text \<open>
  With a comparison that is asymmetric and whose incomparability is transitive (a strict weak
  order) the result is sorted: no later element is strictly less than an earlier one.
\<close>

locale strict_weak =
  fixes lt :: "'a \<Rightarrow> 'a \<Rightarrow> bool"
  assumes asym: "lt a b \<Longrightarrow> \<not> lt b a"
    and negtrans: "\<not> lt a b \<Longrightarrow> \<not> lt b c \<Longrightarrow> \<not> lt a c"
begin

abbreviation ordered :: "'a list \<Rightarrow> bool" where
  "ordered \<equiv> sorted_wrt (\<lambda>a b. \<not> lt b a)"

lemma ordered_go_insert: "ordered xs \<Longrightarrow> ordered (go_insert lt x xs)"
proof (induction xs)
  case Nil
  then show ?case by simp
next
  case (Cons y ys)
  then have tl: "ordered ys" and hd: "\<forall>z\<in>set ys. \<not> lt z y"
    by auto
  show ?case
  proof (cases "lt y x")
    case True
    then have "\<not> lt x y" by (rule asym)
    with True tl hd Cons.IH show ?thesis by simp
  next
    case False
    then have "\<forall>z\<in>set ys. \<not> lt z x" using hd negtrans by blast
    with False tl hd show ?thesis by simp
  qed
qed

lemma ordered_sort_slice: "ordered (sort_slice lt xs)"
  by (induction xs) (auto intro: ordered_go_insert)

lemma sort_slice_head_least:
  assumes "sort_slice lt xs = y # ys" and "z \<in> set xs"
  shows "\<not> lt z y"
proof -
  have "ordered (y # ys)" using assms(1) ordered_sort_slice by metis
  moreover have "z \<in> set (y # ys)" using assms by (metis set_sort_slice)
  ultimately show ?thesis by (auto dest: asym)
qed

end

text \<open>Comparing by a key of a linear order, ascending or descending, is such an order.\<close>

interpretation key_asc: strict_weak "\<lambda>a b. (f a :: 'k :: linorder) < f b" for f
  by unfold_locales auto

interpretation key_desc: strict_weak "\<lambda>a b. (f b :: 'k :: linorder) < f a" for f
  by unfold_locales auto

lemma sorted_sort_slice [simp]: "sorted (sort_slice (<) (xs :: 'k :: linorder list))"
  using key_asc.ordered_sort_slice [of "\<lambda>x :: 'k. x" xs] by (simp add: not_less)

section \<open>Lists\<close>

lemma fold_keeps: "P s \<Longrightarrow> (\<And>x s. P s \<Longrightarrow> P (f x s)) \<Longrightarrow> P (fold f xs s)"
  by (induction xs arbitrary: s) auto

lemma take_length_le [simp]: "n \<le> 0 \<Longrightarrow> take (nat n) xs = []"
  by simp

lemma upt_split:
  assumes "i \<le> j" and "j \<le> k"
  shows "[i ..< j] @ [j ..< k] = [i ..< k]"
  using assms upt_add_eq_append [of i j "k - j"] by simp

text \<open>The order of a map's keys is not specified in Go; code that needs one sorts the keys.\<close>

definition sorted_keys :: "string list \<Rightarrow> string list" where
  "sorted_keys xs = sort (remdups xs)"

lemma sorted_keys_props [simp]:
  "set (sorted_keys xs) = set xs" "distinct (sorted_keys xs)" "sorted (sorted_keys xs)"
  by (simp_all add: sorted_keys_def)

section \<open>Words\<close>

lemma unat_Suc_of_less: "(e :: u64) < t \<Longrightarrow> unat (e + 1) = Suc (unat e)"
proof -
  assume "e < t"
  then have "unat e + 1 < 2 ^ 64"
    using unsigned_less [where 'a = nat, of t] by (simp add: word_less_nat_alt)
  then show ?thesis by (simp add: unat_word_ariths)
qed

section \<open>Invariants of step relations\<close>

text \<open>
  The components with shared mutable state are step relations; a property that holds of the
  initial states and that every step keeps holds of every reachable state.
\<close>

locale step_system =
  fixes init :: "'s \<Rightarrow> bool" and step :: "'s \<Rightarrow> 's \<Rightarrow> bool" and inv :: "'s \<Rightarrow> bool"
  assumes inv_init: "init s \<Longrightarrow> inv s"
    and inv_step: "inv s \<Longrightarrow> step s t \<Longrightarrow> inv t"
begin

lemma inv_steps: "step\<^sup>*\<^sup>* s t \<Longrightarrow> inv s \<Longrightarrow> inv t"
  by (induction rule: rtranclp_induct) (auto intro: inv_step)

lemma inv_reachable: "init s \<Longrightarrow> step\<^sup>*\<^sup>* s t \<Longrightarrow> inv t"
  using inv_init inv_steps by blast

end

end
