(* ===== verification/Dex.thy ===== *)
theory Dex
  imports Prelude
begin

text \<open>
  \<open>go/internal/dex/evm.go\<close>: the read-only ABI helpers every on-chain read goes through.
  A 32-byte ABI word is a list of bytes, most significant first. The Keccak-256 digest comes
  from a third-party package and is the parameter \<open>keccak\<close>. Encoding and decoding are shown
  to be inverse to each other, through the interface \<open>codec\<close>.
\<close>

type_synonym keccak = "string \<Rightarrow> bytes"

section \<open>Hexadecimal strings (\<open>encoding/hex\<close>)\<close>

definition hexdigit :: "nat \<Rightarrow> char" where
  "hexdigit n = (if n < 10 then char_of (48 + n) else char_of (87 + n))"

definition hexval :: "char \<Rightarrow> nat option" where
  "hexval c = (let n = (of_char c :: nat) in
     if 48 \<le> n \<and> n \<le> 57 then Some (n - 48)
     else if 97 \<le> n \<and> n \<le> 102 then Some (n - 87)
     else if 65 \<le> n \<and> n \<le> 70 then Some (n - 55)
     else None)"

text \<open>\<open>v.SetString(s, 16)\<close>: an optional sign and at least one hexadecimal digit.\<close>

definition parse_hex :: "string \<Rightarrow> int option" where
  "parse_hex s =
     (let neg = has_prefix ''-'' s; body = (if neg \<or> has_prefix ''+'' s then tl s else s)
      in if body = '''' \<or> \<not> list_all (\<lambda>c. hexval c \<noteq> None) body then None
         else let v = foldl (\<lambda>a c. a * 16 + int (the (hexval c))) 0 body in Some (if neg then - v else v))"

text \<open>\<open>strconv.ParseUint(s, 16, 64)\<close>: no sign, at least one digit, and the value fits in 64 bits.\<close>

definition parse_hex_uint :: "string \<Rightarrow> u64 option" where
  "parse_hex_uint s =
     (if s = '''' \<or> \<not> list_all (\<lambda>c. hexval c \<noteq> None) s then None
      else let v = foldl (\<lambda>a c. a * 16 + int (the (hexval c))) 0 s in if v < 2 ^ 64 then Some (of_int v) else None)"

fun hex_encode :: "bytes \<Rightarrow> string" where
  "hex_encode [] = []"
| "hex_encode (b # bs) = hexdigit (unat b div 16) # hexdigit (unat b mod 16) # hex_encode bs"

fun hex_decode :: "string \<Rightarrow> bytes result" where
  "hex_decode [] = Inr []"
| "hex_decode [x] = Inl ''encoding/hex: odd length hex string''"
| "hex_decode (x # y # r) =
     (case (hexval x, hexval y) of
        (Some h, Some l) \<Rightarrow>
          (case hex_decode r of Inl e \<Rightarrow> Inl e | Inr bs \<Rightarrow> Inr (of_nat (16 * h + l) # bs))
      | _ \<Rightarrow> Inl ''encoding/hex: invalid byte'')"

section \<open>Big-endian integers (\<open>big.Int.SetBytes\<close>, \<open>FillBytes\<close>)\<close>

definition be_int :: "bytes \<Rightarrow> int" where
  "be_int bs = foldl (\<lambda>a b. a * 256 + uint b) 0 bs"

fun be_bytes :: "nat \<Rightarrow> int \<Rightarrow> bytes" where
  "be_bytes 0 v = []"
| "be_bytes (Suc n) v = be_bytes n (v div 256) @ [of_int v]"

section \<open>The operations of \<open>evm.go\<close>\<close>

definition selector :: "keccak \<Rightarrow> string \<Rightarrow> bytes" where
  "selector keccak signature = take 4 (keccak signature)"

definition EventTopic :: "keccak \<Rightarrow> string \<Rightarrow> string" where
  "EventTopic keccak signature = ''0x'' @ hex_encode (keccak signature)"

definition StaticCall :: "keccak \<Rightarrow> string \<Rightarrow> bytes list \<Rightarrow> string" where
  "StaticCall keccak signature words = ''0x'' @ hex_encode (selector keccak signature @ concat words)"

definition AddressWord :: "string \<Rightarrow> bytes result" where
  "AddressWord address =
     (let raw = trim_prefix ''0x'' (trim_space address) in
      if length raw \<noteq> 40 then Inl ''invalid address''
      else case hex_decode raw of
             Inl e \<Rightarrow> Inl (''invalid address: '' @ e)
           | Inr decoded \<Rightarrow> Inr (replicate 12 0 @ decoded))"

text \<open>\<open>FillBytes\<close> writes the absolute value and panics when it does not fit the buffer.\<close>

definition UintWord :: "bigint \<Rightarrow> bytes result" where
  "UintWord value =
     (case value of
        None \<Rightarrow> Inr (replicate 32 0)
      | Some v \<Rightarrow> if \<bar>v\<bar> < 2 ^ 256 then Inr (be_bytes 32 \<bar>v\<bar>)
                  else Inl ''panic: math/big: buffer too small to fit value'')"

definition Uint64Word :: "u64 \<Rightarrow> bytes" where
  "Uint64Word value = be_bytes 32 (uint value)"

definition BoolWord :: "bool \<Rightarrow> bytes" where
  "BoolWord value = (if value then Uint64Word 1 else Uint64Word 0)"

definition DynamicBytesCall :: "keccak \<Rightarrow> string \<Rightarrow> bytes list \<Rightarrow> bytes \<Rightarrow> string" where
  "DynamicBytesCall keccak signature staticWords bytesArg =
     (let data = selector keccak signature @ concat staticWords
                 @ Uint64Word (of_nat (32 * (length staticWords + 1)))
                 @ Uint64Word (of_nat (length bytesArg))
                 @ bytesArg;
          remainder = length bytesArg mod 32;
          padded = (if remainder \<noteq> 0 then data @ replicate (32 - remainder) 0 else data)
      in ''0x'' @ hex_encode padded)"

function split_words :: "bytes \<Rightarrow> bytes list" where
  "split_words data = (if data = [] then [] else take 32 data # split_words (drop 32 data))"
  by pat_completeness auto
termination
  by (relation "measure length") auto

declare split_words.simps [simp del]

definition DecodeWords :: "string \<Rightarrow> bytes list result" where
  "DecodeWords raw =
     (case hex_decode (trim_prefix ''0x'' raw) of
        Inl e \<Rightarrow> Inl ''invalid ABI response''
      | Inr data \<Rightarrow>
          if data = [] \<or> length data mod 32 \<noteq> 0 then Inl ''invalid ABI response''
          else Inr (split_words data))"

definition WordUint :: "bytes \<Rightarrow> int" where
  "WordUint word = be_int word"

definition WordInt :: "bytes \<Rightarrow> int" where
  "WordInt word =
     (let v = WordUint word in
      if length word = 32 \<and> bit (word ! 0) 7 then v - 2 ^ 256 else v)"

definition WordAddress :: "bytes \<Rightarrow> string" where
  "WordAddress word = ''0x'' @ hex_encode (drop 12 word)"

section \<open>The interface: encodings with a decoder\<close>

text \<open>
  A client that sends an encoded value and reads it back needs one law of the pair: decoding
  what was encoded gives the value. Then nothing is lost, and two values with the same
  encoding are equal.
\<close>

locale codec =
  fixes wf :: "'a \<Rightarrow> bool" and enc :: "'a \<Rightarrow> 'b" and dec :: "'b \<Rightarrow> 'a result"
  assumes dec_enc: "wf x \<Longrightarrow> dec (enc x) = Inr x"
begin

lemma enc_inj: "wf x \<Longrightarrow> wf y \<Longrightarrow> enc x = enc y \<Longrightarrow> x = y"
  using dec_enc by (metis sum.inject(2))

lemma enc_inj_on: "inj_on enc {x. wf x}"
  by (auto intro!: inj_onI dest: enc_inj)

end

section \<open>Hexadecimal round trip\<close>

lemma hexval_hexdigit [simp]: "n < 16 \<Longrightarrow> hexval (hexdigit n) = Some n"
  by (auto simp: hexval_def hexdigit_def Let_def)

lemma char_lower_hexdigit [simp]: "n < 16 \<Longrightarrow> char_lower (hexdigit n) = hexdigit n"
  by (auto simp: char_lower_def hexdigit_def Let_def)

lemma not_space_hexdigit [simp]: "n < 16 \<Longrightarrow> \<not> is_space (hexdigit n)"
  by (auto simp: is_space_def hexdigit_def)

lemma unat_byte_less [simp]: "unat (b :: byte) < 256"
  using unsigned_less [where 'a = nat, of b] by simp

lemma nibbles [simp]: "unat (b :: byte) div 16 < 16" "unat (b :: byte) mod 16 < 16"
  using unat_byte_less [of b] by (simp_all add: less_mult_imp_div_less)

lemma hex_decode_encode [simp]: "hex_decode (hex_encode bs) = Inr bs"
proof (induction bs)
  case (Cons b bs)
  have "16 * (unat b div 16) + unat b mod 16 = unat b" by simp
  then show ?case by (simp add: Cons.IH del: mult_div_mod_eq)
qed simp

interpretation hex: codec "\<lambda>bs. True" hex_encode hex_decode
  by unfold_locales simp

lemma length_hex_encode [simp]: "length (hex_encode bs) = 2 * length bs"
  by (induction bs) auto

lemma to_lower_hex_encode [simp]: "to_lower (hex_encode bs) = hex_encode bs"
  by (induction bs) (auto simp: to_lower_def)

lemma hex_encode_no_space: "\<forall>c\<in>set (hex_encode bs). \<not> is_space c"
  by (induction bs) auto

lemma trim_space_hex [simp]: "trim_space (''0x'' @ hex_encode bs) = ''0x'' @ hex_encode bs"
  using hex_encode_no_space [of bs] by (intro trim_space_no_space) (auto simp: is_space_def)

lemma hex_decode_length: "hex_decode s = Inr bs \<Longrightarrow> length s = 2 * length bs"
  by (induction s arbitrary: bs rule: hex_decode.induct)
     (auto split: option.splits sum.splits)

lemma hexval_lower [simp]: "hexval (char_lower c) = hexval c"
proof (cases "65 \<le> (of_char c :: nat) \<and> (of_char c :: nat) \<le> 90")
  case True
  then show ?thesis
    by (auto simp: char_lower_def Let_def hexval_def)
next
  case False
  then show ?thesis by (auto simp: char_lower_def Let_def)
qed

lemma hexdigit_hexval: "hexval c = Some n \<Longrightarrow> hexdigit n = char_lower c"
proof -
  assume h: "hexval c = Some n"
  have [simp]: "char_of (of_char c :: nat) = c" by simp
  show ?thesis
    using h by (auto simp: hexval_def hexdigit_def char_lower_def Let_def split: if_splits)
qed

lemma hexval_less: "hexval c = Some n \<Longrightarrow> n < 16"
  by (auto simp: hexval_def Let_def split: if_splits)

lemma byte_of_nibbles:
  assumes "h < 16" "l < 16"
  shows "unat (of_nat (16 * h + l) :: byte) = 16 * h + l"
  using assms by (simp add: unat_of_nat del: of_nat_add of_nat_mult)

lemma hex_encode_decode: "hex_decode s = Inr bs \<Longrightarrow> hex_encode bs = to_lower s"
proof (induction s arbitrary: bs rule: hex_decode.induct)
  case (3 x y r)
  then obtain h l bs' where h: "hexval x = Some h" and l: "hexval y = Some l"
    and r: "hex_decode r = Inr bs'" and bs: "bs = of_nat (16 * h + l) # bs'"
    by (auto split: option.splits sum.splits)
  have "unat (of_nat (16 * h + l) :: byte) = 16 * h + l"
    using hexval_less [OF h] hexval_less [OF l] by (rule byte_of_nibbles)
  with hexval_less [OF l] 3 h l r bs show ?case
    by (simp add: to_lower_def hexdigit_hexval del: of_nat_add of_nat_mult)
qed auto

section \<open>Big-endian words\<close>

lemma be_int_snoc [simp]: "be_int (bs @ [b]) = be_int bs * 256 + uint b"
  by (simp add: be_int_def)

lemma be_int_Nil [simp]: "be_int [] = 0"
  by (simp add: be_int_def)

lemma be_int_Cons: "be_int (b # bs) = uint b * 256 ^ length bs + be_int bs"
  by (induction bs rule: rev_induct)
     (simp_all add: be_int_def algebra_simps)

lemma length_be_bytes [simp]: "length (be_bytes n v) = n"
  by (induction n arbitrary: v) auto

lemma be_int_be_bytes: "be_int (be_bytes n v) = v mod 256 ^ n"
proof (induction n arbitrary: v)
  case (Suc n)
  have "v mod (256 * 256 ^ n) = 256 * (v div 256 mod 256 ^ n) + v mod 256"
    by (rule zmod_zmult2_eq) simp
  then show ?case
    by (simp add: Suc.IH unsigned_of_int take_bit_eq_mod)
qed simp

lemma be_int_bounds: "0 \<le> be_int bs \<and> be_int bs < 256 ^ length bs"
proof (induction bs rule: rev_induct)
  case (snoc b bs)
  have "uint b < 256" using unsigned_less [where 'a = int, of b] by simp
  with snoc show ?case by auto
qed simp

lemma be_bytes_be_int: "be_bytes (length bs) (be_int bs) = bs"
proof (induction bs rule: rev_induct)
  case (snoc b bs)
  have b: "uint b < 256" "0 \<le> uint b"
    using unsigned_less [where 'a = int, of b] by simp_all
  then have "(be_int bs * 256 + uint b) div 256 = be_int bs" by simp
  moreover have "(of_int (be_int bs * 256 + uint b) :: byte) = b"
  proof (rule word_uint_eqI)
    show "uint (of_int (be_int bs * 256 + uint b) :: byte) = uint b"
      using b by (simp add: unsigned_of_int take_bit_eq_mod del: of_int_add of_int_mult)
  qed
  ultimately show ?case using snoc by (simp del: of_int_add of_int_mult)
qed simp

interpretation uint_word: codec "\<lambda>v. 0 \<le> v \<and> v < 2 ^ 256" "be_bytes 32" "\<lambda>w. Inr (WordUint w)"
  by unfold_locales (simp add: WordUint_def be_int_be_bytes power_mult [symmetric])

lemma bit7_iff: "bit (b :: byte) 7 \<longleftrightarrow> 128 \<le> uint b"
proof -
  have "uint b < 256" using unsigned_less [where 'a = int, of b] by simp
  moreover have "bit b 7 \<longleftrightarrow> bit (uint b) 7"
    by (simp add: bit_uint_iff)
  moreover have "bit (uint b) 7 \<longleftrightarrow> odd (uint b div 128)"
    by (simp add: bit_iff_odd)
  ultimately show ?thesis
    using uint_ge_0 [of b]
    by (cases "128 \<le> uint b") (simp_all add: div_pos_geq div_pos_pos_trivial)
qed

lemma msb_iff:
  assumes "length w = 32"
  shows "bit (w ! 0) 7 \<longleftrightarrow> 2 ^ 255 \<le> be_int w"
proof -
  obtain b bs where w: "w = b # bs" and l: "length bs = 31"
    using assms by (cases w) auto
  have v: "be_int w = uint b * 2 ^ 248 + be_int bs"
    by (simp add: w l be_int_Cons)
  have "0 \<le> be_int bs" "be_int bs < 2 ^ 248"
    using be_int_bounds [of bs] by (simp_all add: l)
  then show ?thesis
    unfolding w nth_Cons_0 bit7_iff v [unfolded w]
    by (cases "128 \<le> uint b") auto
qed

section \<open>ABI words\<close>

lemma split_words_concat:
  "\<forall>w\<in>set ws. length w = 32 \<Longrightarrow> split_words (concat ws) = ws"
proof (induction ws)
  case Nil
  show ?case by (simp add: split_words.simps)
next
  case (Cons w ws)
  then have "w \<noteq> []" "length w = 32" by auto
  with Cons show ?case by (simp add: split_words.simps [of "w @ concat ws"])
qed

lemma length_concat_words:
  "\<forall>w\<in>set ws. length w = 32 \<Longrightarrow> length (concat ws) = 32 * length ws"
  by (induction ws) auto

lemma concat_split_words: "concat (split_words data) = data"
  by (induction data rule: split_words.induct)
     (subst split_words.simps, auto)

lemma split_words_length:
  "length data mod 32 = 0 \<Longrightarrow> w \<in> set (split_words data) \<Longrightarrow> length w = 32"
proof (induction data rule: split_words.induct)
  case (1 data)
  show ?case
  proof (cases "data = []")
    case True
    with 1 show ?thesis by (simp add: split_words.simps)
  next
    case False
    with "1.prems" have "32 \<le> length data" by (cases "length data < 32") auto
    then have "length (drop 32 data) mod 32 = 0"
      using "1.prems" by (simp add: le_mod_geq)
    with 1 False \<open>32 \<le> length data\<close> show ?thesis
      by (auto simp: split_words.simps [of data] min_def)
  qed
qed

lemma split_words_Nil_iff [simp]: "split_words data = [] \<longleftrightarrow> data = []"
  by (subst split_words.simps) simp

lemma DecodeWords_nonempty:
  "DecodeWords raw = Inr ws \<Longrightarrow> ws \<noteq> []"
  by (auto simp: DecodeWords_def split: sum.splits if_splits)

lemma DecodeWords_wordlen:
  "DecodeWords raw = Inr ws \<Longrightarrow> w \<in> set ws \<Longrightarrow> length w = 32"
  by (auto simp: DecodeWords_def dvd_eq_mod_eq_0 split: sum.splits if_splits
      intro: split_words_length)

interpretation abi_words: codec "\<lambda>ws. ws \<noteq> [] \<and> (\<forall>w\<in>set ws. length w = 32)"
  "\<lambda>ws. ''0x'' @ hex_encode (concat ws)" DecodeWords
proof
  fix ws :: "bytes list"
  assume h: "ws \<noteq> [] \<and> (\<forall>w\<in>set ws. length w = 32)"
  then have ne: "concat ws \<noteq> []" by (cases ws) auto
  have "length (concat ws) = 32 * length ws"
    using h by (intro length_concat_words) simp
  with h ne show "DecodeWords (''0x'' @ hex_encode (concat ws)) = Inr ws"
    by (simp add: DecodeWords_def split_words_concat del: concat_eq_Nil_conv append_Cons)
qed

section \<open>Properties\<close>

text \<open>
  C27: \<open>DecodeWords\<close> accepts a response exactly when its hexadecimal payload is the
  concatenation of one or more 32-byte words, and returns these words; so the callers'
  \<open>words[0]\<close> never indexes out of range and no byte is dropped.
\<close>

theorem DecodeWords_iff:
  "DecodeWords raw = Inr ws \<longleftrightarrow>
     ws \<noteq> [] \<and> list_all (\<lambda>w. length w = 32) ws \<and>
     hex_decode (trim_prefix ''0x'' raw) = Inr (concat ws)"
proof
  assume d: "DecodeWords raw = Inr ws"
  then obtain data where h: "hex_decode (trim_prefix ''0x'' raw) = Inr data"
    and ws: "ws = split_words data"
    by (auto simp: DecodeWords_def split: sum.splits if_splits)
  show "ws \<noteq> [] \<and> list_all (\<lambda>w. length w = 32) ws \<and>
     hex_decode (trim_prefix ''0x'' raw) = Inr (concat ws)"
    using DecodeWords_nonempty [OF d] DecodeWords_wordlen [OF d] h ws
    by (auto simp: list_all_iff concat_split_words)
next
  assume h: "ws \<noteq> [] \<and> list_all (\<lambda>w. length w = 32) ws \<and>
     hex_decode (trim_prefix ''0x'' raw) = Inr (concat ws)"
  then have l: "\<forall>w\<in>set ws. length w = 32" by (simp add: list_all_iff)
  then have "concat ws \<noteq> []" using h by (cases ws) auto
  with h l show "DecodeWords raw = Inr ws"
    by (simp add: DecodeWords_def split_words_concat length_concat_words del: concat_eq_Nil_conv)
qed

text \<open>
  A 32-byte word read as \<open>int256\<close> is in the signed range and congruent to the unsigned
  reading modulo \<open>2 ^ 256\<close>, so signed swap amounts and oracle answers keep their value.
\<close>

theorem WordInt_signed:
  assumes "length w = 32"
  shows "- (2 ^ 255) \<le> WordInt w \<and> WordInt w < 2 ^ 255 \<and> WordInt w mod 2 ^ 256 = WordUint w"
proof -
  have b: "0 \<le> be_int w" "be_int w < 2 ^ 256"
    using be_int_bounds [of w] assms by simp_all
  show ?thesis
  proof (cases "2 ^ 255 \<le> be_int w")
    case True
    have "(be_int w - 2 ^ 256) mod 2 ^ 256 = be_int w mod 2 ^ 256"
      by (rule minus_mod_self2)
    moreover have "be_int w mod 2 ^ 256 = be_int w" using b by simp
    ultimately show ?thesis
      using True b by (simp add: WordInt_def WordUint_def msb_iff assms Let_def)
  next
    case False
    then show ?thesis
      using b by (simp add: WordInt_def WordUint_def msb_iff assms Let_def)
  qed
qed

theorem WordInt_signed_witness:
  "length (replicate 32 (255 :: byte)) = 32 \<and> WordInt (replicate 32 255) mod 2 ^ 256
     = WordUint (replicate 32 255)"
  using WordInt_signed [of "replicate 32 255"] by simp

text \<open>
  C40: An address accepted by \<open>AddressWord\<close> is encoded as one 32-byte word, and
  \<open>WordAddress\<close> reads back the same address in lower case with the \<open>0x\<close> prefix.
\<close>

theorem AddressWord_roundtrip:
  assumes "AddressWord a = Inr w"
  shows "length w = 32 \<and> WordAddress w = ''0x'' @ to_lower (trim_prefix ''0x'' (trim_space a))"
proof -
  obtain bs where h: "hex_decode (trim_prefix ''0x'' (trim_space a)) = Inr bs"
    and l: "length (trim_prefix ''0x'' (trim_space a)) = 40" and w: "w = replicate 12 0 @ bs"
    using assms by (auto simp: AddressWord_def Let_def split: if_splits sum.splits)
  have "length bs = 20" using hex_decode_length [OF h] l by simp
  then show ?thesis
    using hex_encode_decode [OF h] by (simp add: w WordAddress_def)
qed

theorem AddressWord_roundtrip_witness:
  "WordAddress (replicate 12 0 @ replicate 20 171)
     = ''0x'' @ to_lower (trim_prefix ''0x'' (trim_space (''0x'' @ hex_encode (replicate 20 171))))"
proof -
  let ?a = "''0x'' @ hex_encode (replicate 20 171)"
  have "AddressWord ?a = Inr (replicate 12 0 @ replicate 20 171)"
    by (simp only: AddressWord_def trim_space_hex trim_prefix_append) (simp add: Let_def)
  from AddressWord_roundtrip [OF this] show ?thesis by simp
qed

end
