(* ===== verification/Pools.thy ===== *)
theory Pools
  imports Dex
begin

text \<open>
  \<open>go/internal/pools/pools.go\<close>: discovery and refresh of Uniswap V3 and Camelot V3 pools,
  and the chunked \<open>eth_getLogs\<close> scan that finds the pools whose state changed. The RPC
  provider, the observer and the cancellation of the context are parameters (a record of
  world-passing functions); everything the code itself computes is defined here.
\<close>

section \<open>Data\<close>

type_synonym DEX = string

definition UniswapV3 :: DEX where "UniswapV3 = ''uniswap_v3''"
definition CamelotV3 :: DEX where "CamelotV3 = ''camelot_v3''"

lemma dex_distinct [simp]: "UniswapV3 \<noteq> CamelotV3" "CamelotV3 \<noteq> UniswapV3"
  by (simp_all add: UniswapV3_def CamelotV3_def)

record Pool =
  pAddress :: string
  pToken0 :: string
  pToken1 :: string
  pDEX :: DEX
  pFee :: u32
  pLiquidity :: bigint
  pSqrtPriceX96 :: bigint
  pLastUpdatedBlock :: u64

record Swap =
  sPool :: string
  sAmount0 :: int
  sAmount1 :: int
  sSqrtPriceX96 :: int
  sLiquidity :: int
  sBlock :: u64

record LogEntry =
  lAddress :: string
  lData :: string
  lTopics :: "string list"
  lBlockNumber :: string

text \<open>
  The interfaces the discoverer calls: \<open>Caller\<close> with its two optional extensions
  (\<open>historicalCaller\<close>, \<open>logCaller\<close>), \<open>Observer\<close>, and \<open>ctx.Err()\<close>.
\<close>

record 'w Caller =
  EthCall :: "string \<Rightarrow> string \<Rightarrow> ('w, string) io"
  BlockNumber :: "('w, u64) io"
  EthCallAt :: "(string \<Rightarrow> string \<Rightarrow> string \<Rightarrow> ('w, string) io) option"
  GetLogs :: "(string list \<Rightarrow> u64 \<Rightarrow> u64 \<Rightarrow> ('w, LogEntry list) io) option"
  CtxErr :: "'w \<Rightarrow> string option"

record 'w Observer =
  ObservePool :: "Pool \<Rightarrow> 'w \<Rightarrow> 'w"
  ObserveSwap :: "Swap \<Rightarrow> 'w \<Rightarrow> 'w"

record 'w Discoverer =
  dCaller :: "'w Caller"
  dUniswapFactory :: string
  dCamelotFactory :: string
  dFees :: "u32 list"
  dChunkSize :: u64
  dObserver :: "'w Observer option"

record LogQueryStats =
  ChunksAttempted :: u64
  ChunksSucceeded :: u64
  ChunksFailed :: u64
  BlocksScanned :: u64

definition no_stats :: LogQueryStats where
  "no_stats = \<lparr>ChunksAttempted = 0, ChunksSucceeded = 0, ChunksFailed = 0, BlocksScanned = 0\<rparr>"

definition Supports :: "Pool \<Rightarrow> string \<Rightarrow> string \<Rightarrow> bool" where
  "Supports p tokenIn tokenOut \<longleftrightarrow>
     equal_fold tokenIn (pToken0 p) \<and> equal_fold tokenOut (pToken1 p) \<or>
     equal_fold tokenIn (pToken1 p) \<and> equal_fold tokenOut (pToken0 p)"

section \<open>Calls\<close>

definition notifyPool :: "'w Discoverer \<Rightarrow> Pool \<Rightarrow> 'w \<Rightarrow> 'w" where
  "notifyPool d pool w = (case dObserver d of None \<Rightarrow> w | Some ob \<Rightarrow> ObservePool ob pool w)"

definition notifySwap :: "'w Discoverer \<Rightarrow> Swap \<Rightarrow> 'w \<Rightarrow> 'w" where
  "notifySwap d swap w = (case dObserver d of None \<Rightarrow> w | Some ob \<Rightarrow> ObserveSwap ob swap w)"

text \<open>\<open>fmt.Sprintf("0x%x", n)\<close>.\<close>

function hex_digits :: "nat \<Rightarrow> string" where
  "hex_digits n = (if n < 16 then [hexdigit n] else hex_digits (n div 16) @ [hexdigit (n mod 16)])"
  by pat_completeness auto
termination
  by (relation "measure id") auto

declare hex_digits.simps [simp del]

definition hex_quantity :: "u64 \<Rightarrow> string" where
  "hex_quantity n = ''0x'' @ hex_digits (unat n)"

definition d_call :: "'w Discoverer \<Rightarrow> string \<Rightarrow> string \<Rightarrow> u64 \<Rightarrow> ('w, string) io" where
  "d_call d to data block =
     (if to = '''' then throw ''protocol address missing''
      else case EthCallAt (dCaller d) of
             Some call_at \<Rightarrow> if block > 0 then call_at to data (hex_quantity block)
                             else EthCall (dCaller d) to data
           | None \<Rightarrow> EthCall (dCaller d) to data)"

definition isZeroAddress :: "string \<Rightarrow> bool" where
  "isZeroAddress address = equal_fold address (''0x'' @ replicate 40 CHR ''0'')"

definition corePoolState :: "keccak \<Rightarrow> 'w Discoverer \<Rightarrow> string \<Rightarrow> u64 \<Rightarrow> ('w, string \<times> string \<times> int) io" where
  "corePoolState kk d address block =
     bindE (d_call d address (StaticCall kk ''token0()'' []) block) (\<lambda>t0.
     bindE (d_call d address (StaticCall kk ''token1()'' []) block) (\<lambda>t1.
     bindE (d_call d address (StaticCall kk ''liquidity()'' []) block) (\<lambda>liq.
     bindE (lift_res (DecodeWords t0)) (\<lambda>w0.
     bindE (lift_res (DecodeWords t1)) (\<lambda>w1.
     bindE (lift_res (DecodeWords liq)) (\<lambda>wl.
     ret (WordAddress (hd w0), WordAddress (hd w1), WordUint (hd wl))))))))"

definition uniswapPool :: "keccak \<Rightarrow> 'w Discoverer \<Rightarrow> string \<Rightarrow> string \<Rightarrow> u32 \<Rightarrow> u64 \<Rightarrow> ('w, Pool option) io" where
  "uniswapPool kk d a b fee block =
     bindE (lift_res (AddressWord a)) (\<lambda>aw.
     bindE (lift_res (AddressWord b)) (\<lambda>bw.
     bindE (d_call d (dUniswapFactory d)
              (StaticCall kk ''getPool(address,address,uint24)'' [aw, bw, Uint64Word (ucast fee)]) block) (\<lambda>raw.
     bindE (lift_res (DecodeWords raw)) (\<lambda>words.
       let address = WordAddress (hd words) in
       if isZeroAddress address then ret None
       else
     bindE (corePoolState kk d address block) (\<lambda>(token0, token1, liquidity).
     bindE (d_call d address (StaticCall kk ''fee()'' []) block) (\<lambda>feeRaw.
     bindE (lift_res (DecodeWords feeRaw)) (\<lambda>feeWords.
     bindE (d_call d address (StaticCall kk ''slot0()'' []) block) (\<lambda>slot0Raw.
     bindE (lift_res (DecodeWords slot0Raw)) (\<lambda>slotWords.
       let pool = \<lparr>pAddress = address, pToken0 = token0, pToken1 = token1, pDEX = UniswapV3,
                   pFee = of_int (WordUint (hd feeWords)), pLiquidity = Some liquidity,
                   pSqrtPriceX96 = Some (WordUint (hd slotWords)), pLastUpdatedBlock = block\<rparr>
       in (\<lambda>w. (Inr (Some pool), notifyPool d pool w)))))))))))"

definition camelotPool :: "keccak \<Rightarrow> 'w Discoverer \<Rightarrow> string \<Rightarrow> string \<Rightarrow> u64 \<Rightarrow> ('w, Pool option) io" where
  "camelotPool kk d a b block =
     bindE (lift_res (AddressWord a)) (\<lambda>aw.
     bindE (lift_res (AddressWord b)) (\<lambda>bw.
     bindE (d_call d (dCamelotFactory d) (StaticCall kk ''poolByPair(address,address)'' [aw, bw]) block) (\<lambda>raw.
     bindE (lift_res (DecodeWords raw)) (\<lambda>words.
       let address = WordAddress (hd words) in
       if isZeroAddress address then ret None
       else
     bindE (corePoolState kk d address block) (\<lambda>(token0, token1, liquidity).
     bindE (d_call d address (StaticCall kk ''globalState()'' []) block) (\<lambda>stateRaw.
     bindE (lift_res (DecodeWords stateRaw)) (\<lambda>stateWords.
       let pool = \<lparr>pAddress = address, pToken0 = token0, pToken1 = token1, pDEX = CamelotV3,
                   pFee = 0, pLiquidity = Some liquidity,
                   pSqrtPriceX96 = Some (WordUint (hd stateWords)), pLastUpdatedBlock = block\<rparr>
       in (\<lambda>w. (Inr (Some pool), notifyPool d pool w)))))))))"

section \<open>Discovery\<close>

fun discover_fees :: "keccak \<Rightarrow> 'w Discoverer \<Rightarrow> string \<Rightarrow> string \<Rightarrow> u64 \<Rightarrow> u32 list \<Rightarrow> ('w, Pool list) io" where
  "discover_fees kk d a b block [] = ret []"
| "discover_fees kk d a b block (fee # fees) =
     bindE (uniswapPool kk d a b fee block) (\<lambda>pool.
     bindE (discover_fees kk d a b block fees) (\<lambda>rest.
       ret (case pool of
              Some p \<Rightarrow> if big_pos (pLiquidity p) then p # rest else rest
            | None \<Rightarrow> rest)))"

definition DiscoverPairAt :: "keccak \<Rightarrow> 'w Discoverer \<Rightarrow> string \<Rightarrow> string \<Rightarrow> u64 \<Rightarrow> ('w, Pool list) io" where
  "DiscoverPairAt kk d tokenA tokenB block =
     bindE (discover_fees kk d tokenA tokenB block (dFees d)) (\<lambda>found.
     bindE (camelotPool kk d tokenA tokenB block) (\<lambda>pool.
       ret (case pool of
              Some p \<Rightarrow> if big_pos (pLiquidity p) then found @ [p] else found
            | None \<Rightarrow> found)))"

definition DiscoverPair :: "keccak \<Rightarrow> 'w Discoverer \<Rightarrow> string \<Rightarrow> string \<Rightarrow> ('w, Pool list) io" where
  "DiscoverPair kk d tokenA tokenB =
     bindE (BlockNumber (dCaller d)) (\<lambda>block. DiscoverPairAt kk d tokenA tokenB block)"

definition liquid_singleton :: "Pool option \<Rightarrow> Pool list" where
  "liquid_singleton pool =
     (case pool of Some p \<Rightarrow> if big_pos (pLiquidity p) then [p] else [] | None \<Rightarrow> [])"

definition DiscoverUniswapFeeAt :: "keccak \<Rightarrow> 'w Discoverer \<Rightarrow> string \<Rightarrow> string \<Rightarrow> u32 \<Rightarrow> u64 \<Rightarrow> ('w, Pool list) io" where
  "DiscoverUniswapFeeAt kk d tokenA tokenB fee block =
     bindE (uniswapPool kk d tokenA tokenB fee block) (\<lambda>pool. ret (liquid_singleton pool))"

definition DiscoverCamelotPairAt :: "keccak \<Rightarrow> 'w Discoverer \<Rightarrow> string \<Rightarrow> string \<Rightarrow> u64 \<Rightarrow> ('w, Pool list) io" where
  "DiscoverCamelotPairAt kk d tokenA tokenB block =
     bindE (camelotPool kk d tokenA tokenB block) (\<lambda>pool. ret (liquid_singleton pool))"

definition poolRefreshCall :: "keccak \<Rightarrow> 'w Discoverer \<Rightarrow> Pool \<Rightarrow> string \<Rightarrow> u64 \<Rightarrow> ('w, string) io" where
  "poolRefreshCall kk d pool signature block =
     wrap_err (''pool refresh '' @ pDEX pool @ '' '' @ signature @ '' '' @ pToken0 pool @ ''/''
               @ pToken1 pool @ '': '')
       (d_call d (pAddress pool) (StaticCall kk signature []) block)"

definition RefreshPoolAt :: "keccak \<Rightarrow> 'w Discoverer \<Rightarrow> Pool \<Rightarrow> u64 \<Rightarrow> ('w, Pool) io" where
  "RefreshPoolAt kk d pool block =
     bindE (poolRefreshCall kk d pool ''liquidity()'' block) (\<lambda>liquidityRaw.
     bindE (lift_res (or_err ''pool liquidity response invalid'' (DecodeWords liquidityRaw))) (\<lambda>liquidityWords.
       if pDEX pool \<noteq> CamelotV3 \<and> pDEX pool \<noteq> UniswapV3 then throw ''unsupported pool DEX''
       else
     bindE (poolRefreshCall kk d pool
              (if pDEX pool = CamelotV3 then ''globalState()'' else ''slot0()'') block) (\<lambda>stateRaw.
     bindE (lift_res (or_err ''pool state response invalid'' (DecodeWords stateRaw))) (\<lambda>stateWords.
       let updated = pool\<lparr>pLiquidity := Some (WordUint (hd liquidityWords)),
                          pSqrtPriceX96 := Some (WordUint (hd stateWords)),
                          pLastUpdatedBlock := block\<rparr>
       in (\<lambda>w. (Inr updated, notifyPool d updated w))))))"

section \<open>Swap events\<close>

definition swapTopic :: "keccak \<Rightarrow> string" where
  "swapTopic kk = to_lower (EventTopic kk ''Swap(address,address,int256,int256,uint160,uint128,int24)'')"

definition signedWord :: "bytes \<Rightarrow> int" where
  "signedWord raw =
     (let value = be_int raw in
      if length raw = 32 \<and> bit (raw ! 0) 7 then value - 2 ^ 256 else value)"

text \<open>\<open>Sscanf(s, "0x%x", &block)\<close>: the leading hexadecimal digits; the variable keeps its
  zero when there are none or when they do not fit 64 bits.\<close>

definition scan_hex_block :: "string \<Rightarrow> u64" where
  "scan_hex_block s =
     (if has_prefix ''0x'' s
      then let ds = map (the \<circ> hexval) (takeWhile (\<lambda>c. hexval c \<noteq> None) (drop 2 s));
               v = foldl (\<lambda>a d. a * 16 + d) 0 ds
           in if v < 2 ^ 64 then of_nat v else 0
      else 0)"

definition decodeSwapLog :: "keccak \<Rightarrow> LogEntry \<Rightarrow> Swap option" where
  "decodeSwapLog kk e =
     (case lTopics e of
        [] \<Rightarrow> None
      | topic0 # _ \<Rightarrow>
          if \<not> equal_fold topic0 (swapTopic kk) then None
          else case hex_decode (trim_prefix ''0x'' (lData e)) of
                 Inl _ \<Rightarrow> None
               | Inr raw \<Rightarrow>
                   if length raw < 32 * 4 then None
                   else Some \<lparr>sPool = lAddress e,
                              sAmount0 = signedWord (take 32 raw),
                              sAmount1 = signedWord (take 32 (drop 32 raw)),
                              sSqrtPriceX96 = be_int (take 32 (drop 64 raw)),
                              sLiquidity = be_int (take 32 (drop 96 raw)),
                              sBlock = scan_hex_block (lBlockNumber e)\<rparr>)"

section \<open>The chunked log scan\<close>

definition getLogsChunkSize :: "'w Discoverer \<Rightarrow> u64" where
  "getLogsChunkSize d = (if dChunkSize d = 0 then 5 else dChunkSize d)"

definition getLogsBlockChunkSizeFromEnv :: "string \<Rightarrow> u64" where
  "getLogsBlockChunkSizeFromEnv env =
     (let raw = trim_space env in
      if raw = '''' then 5
      else case parse_uint raw of
             None \<Rightarrow> 5
           | Some parsed \<Rightarrow> if parsed < 1 then 5 else if parsed > 10000 then 10000 else parsed)"

definition chunk_end :: "u64 \<Rightarrow> u64 \<Rightarrow> u64 \<Rightarrow> u64" where
  "chunk_end csize toBlock start =
     (let e = start + csize - 1 in if e < start \<or> e > toBlock then toBlock else e)"

definition absorb_log :: "keccak \<Rightarrow> 'w Discoverer \<Rightarrow> LogEntry \<Rightarrow> string set \<times> 'w \<Rightarrow> string set \<times> 'w" where
  "absorb_log kk d e = (\<lambda>(changed, w).
     (if lAddress e \<noteq> '''' then insert (to_lower (lAddress e)) changed else changed,
      case decodeSwapLog kk e of Some swap \<Rightarrow> notifySwap d swap w | None \<Rightarrow> w))"

lemma chunk_end_bounds:
  "start \<le> toBlock \<Longrightarrow> chunk_end csize toBlock start \<le> toBlock"
  "start \<le> toBlock \<Longrightarrow> start \<le> chunk_end csize toBlock start"
  by (auto simp: chunk_end_def Let_def not_less)

text \<open>The loop: the result is the set of changed pools, the statistics and the error, if any.\<close>

function scan_chunks :: "keccak \<Rightarrow> 'w Discoverer \<Rightarrow> (u64 \<Rightarrow> u64 \<Rightarrow> ('w, LogEntry list) io) \<Rightarrow> u64 \<Rightarrow> u64
    \<Rightarrow> u64 \<Rightarrow> string set \<Rightarrow> LogQueryStats \<Rightarrow> 'w \<Rightarrow> (string set \<times> LogQueryStats \<times> string option) \<times> 'w" where
  "scan_chunks kk d getLogs csize toBlock start changed stats w =
     (if start \<le> toBlock then
        (case CtxErr (dCaller d) w of
           Some err \<Rightarrow> ((changed, stats, Some err), w)
         | None \<Rightarrow>
             let chunkEnd = chunk_end csize toBlock start;
                 stats1 = stats\<lparr>ChunksAttempted := ChunksAttempted stats + 1,
                                BlocksScanned := BlocksScanned stats + (chunkEnd - start + 1)\<rparr>
             in case getLogs start chunkEnd w of
                  (Inl err, w1) \<Rightarrow>
                    ((changed, stats1\<lparr>ChunksFailed := ChunksFailed stats1 + 1\<rparr>, Some err), w1)
                | (Inr logs, w1) \<Rightarrow>
                    let stats2 = stats1\<lparr>ChunksSucceeded := ChunksSucceeded stats1 + 1\<rparr>;
                        acc = fold (absorb_log kk d) logs (changed, w1)
                    in if chunkEnd = toBlock then ((fst acc, stats2, None), snd acc)
                       else scan_chunks kk d getLogs csize toBlock (chunkEnd + 1) (fst acc) stats2 (snd acc))
      else ((changed, stats, None), w))"
  by pat_completeness auto
termination
proof (relation "measure (\<lambda>(kk, d, g, csize, t, start, changed, stats, w). Suc (unat t) - unat start)",
    goal_cases)
  case 1
  show ?case by simp
next
  case (2 kk d getLogs csize toBlock start)
  then have "start \<le> chunk_end csize toBlock start" "chunk_end csize toBlock start < toBlock"
    using chunk_end_bounds [of start toBlock csize] by auto
  then have "unat start \<le> unat (chunk_end csize toBlock start)"
    "unat (chunk_end csize toBlock start) < unat toBlock"
    "unat (chunk_end csize toBlock start + 1) = Suc (unat (chunk_end csize toBlock start))"
    by (auto simp: word_le_nat_alt word_less_nat_alt unat_Suc_of_less)
  with 2 show ?case by auto
qed

declare scan_chunks.simps [simp del]

definition ChangedPoolAddressesAtWithStats :: "keccak \<Rightarrow> 'w Discoverer \<Rightarrow> string list \<Rightarrow> u64 \<Rightarrow> u64
    \<Rightarrow> 'w \<Rightarrow> (string set \<times> LogQueryStats \<times> string option) \<times> 'w" where
  "ChangedPoolAddressesAtWithStats kk d poolAddresses fromBlock toBlock w =
     (if poolAddresses = [] \<or> toBlock = 0 then (({}, no_stats, None), w)
      else case GetLogs (dCaller d) of
             None \<Rightarrow> (({}, no_stats, Some ''pool log query unsupported''), w)
           | Some call \<Rightarrow>
               let from = (if fromBlock = 0 \<or> fromBlock > toBlock then toBlock else fromBlock)
               in scan_chunks kk d (call poolAddresses) (getLogsChunkSize d) toBlock from {} no_stats w)"

section \<open>The scan as a run over a plan of block ranges\<close>

text \<open>
  The ranges the loop asks for do not depend on the answers: they are a plan, and the loop is
  a run over it that stops at the first error.
\<close>

function chunk_plan :: "u64 \<Rightarrow> u64 \<Rightarrow> u64 \<Rightarrow> (u64 \<times> u64) list" where
  "chunk_plan csize toBlock start =
     (if start \<le> toBlock then
        (start, chunk_end csize toBlock start) #
        (if chunk_end csize toBlock start = toBlock then []
         else chunk_plan csize toBlock (chunk_end csize toBlock start + 1))
      else [])"
  by pat_completeness auto
termination
proof (relation "measure (\<lambda>(csize, t, start). Suc (unat t) - unat start)", goal_cases)
  case 1
  show ?case by simp
next
  case (2 csize toBlock start)
  then have "start \<le> chunk_end csize toBlock start" "chunk_end csize toBlock start < toBlock"
    using chunk_end_bounds [of start toBlock csize] by auto
  then show ?case
    by (auto simp: word_le_nat_alt word_less_nat_alt unat_Suc_of_less)
qed

declare chunk_plan.simps [simp del]

fun run_chunks :: "keccak \<Rightarrow> 'w Discoverer \<Rightarrow> (u64 \<Rightarrow> u64 \<Rightarrow> ('w, LogEntry list) io)
    \<Rightarrow> (u64 \<times> u64) list \<Rightarrow> string set \<Rightarrow> LogQueryStats \<Rightarrow> 'w
    \<Rightarrow> (string set \<times> LogQueryStats \<times> string option) \<times> 'w" where
  "run_chunks kk d getLogs [] changed stats w = ((changed, stats, None), w)"
| "run_chunks kk d getLogs ((a, b) # plan) changed stats w =
     (case CtxErr (dCaller d) w of
        Some err \<Rightarrow> ((changed, stats, Some err), w)
      | None \<Rightarrow>
          let stats1 = stats\<lparr>ChunksAttempted := ChunksAttempted stats + 1,
                             BlocksScanned := BlocksScanned stats + (b - a + 1)\<rparr>
          in case getLogs a b w of
               (Inl err, w1) \<Rightarrow>
                 ((changed, stats1\<lparr>ChunksFailed := ChunksFailed stats1 + 1\<rparr>, Some err), w1)
             | (Inr logs, w1) \<Rightarrow>
                 let acc = fold (absorb_log kk d) logs (changed, w1)
                 in run_chunks kk d getLogs plan (fst acc)
                      (stats1\<lparr>ChunksSucceeded := ChunksSucceeded stats1 + 1\<rparr>) (snd acc))"

lemma scan_chunks_run:
  "scan_chunks kk d getLogs csize toBlock start changed stats w =
     run_chunks kk d getLogs (chunk_plan csize toBlock start) changed stats w"
proof (induction kk d getLogs csize toBlock start changed stats w rule: scan_chunks.induct)
  case (1 kk d getLogs csize toBlock start changed stats w)
  show ?case
  proof (cases "start \<le> toBlock \<and> CtxErr (dCaller d) w = None")
    case False
    then show ?thesis
      by (subst scan_chunks.simps, subst chunk_plan.simps) auto
  next
    case True
    then show ?thesis
      using "1.IH" [OF _ _ refl refl _ _ refl refl]
      by (subst scan_chunks.simps, subst chunk_plan.simps)
         (auto simp: Let_def split: prod.split sum.split)
  qed
qed

lemma unat_chunk_end:
  assumes "0 < csize" "start \<le> toBlock"
  shows "unat (chunk_end csize toBlock start) = min (unat toBlock) (unat start + unat csize - 1)"
proof -
  have c: "0 < unat csize" using assms(1) by (simp add: word_less_nat_alt)
  have lt: "unat start < 2 ^ 64" "unat csize < 2 ^ 64" "unat toBlock < 2 ^ 64"
    using unsigned_less [where 'a = nat, of start] unsigned_less [where 'a = nat, of csize]
      unsigned_less [where 'a = nat, of toBlock] by simp_all
  have "start + csize - 1 = of_nat (unat start + unat csize - 1)"
    using c by (simp add: of_nat_diff)
  then have e: "unat (start + csize - 1) = (unat start + unat csize - 1) mod 2 ^ 64"
    by (simp add: unat_of_nat)
  show ?thesis
  proof (cases "unat start + unat csize - 1 < 2 ^ 64")
    case True
    then have "unat (start + csize - 1) = unat start + unat csize - 1"
      using e by simp
    then show ?thesis
      using c by (auto simp: chunk_end_def Let_def word_less_nat_alt)
  next
    case False
    then have "(unat start + unat csize - 1) mod 2 ^ 64 = unat start + unat csize - 1 - 2 ^ 64"
      using lt by (simp add: le_mod_geq not_less)
    then have "unat (start + csize - 1) < unat start"
      using e lt False by linarith
    then show ?thesis
      using False lt by (auto simp: chunk_end_def Let_def word_less_nat_alt)
  qed
qed

text \<open>The blocks of the first \<open>k\<close> ranges, in the order they are asked for.\<close>

definition plan_blocks :: "(u64 \<times> u64) list \<Rightarrow> nat list" where
  "plan_blocks plan = concat (map (\<lambda>(a, b). [unat a ..< Suc (unat b)]) plan)"

lemma plan_blocks_append: "plan_blocks (xs @ ys) = plan_blocks xs @ plan_blocks ys"
  by (simp add: plan_blocks_def)

lemma plan_blocks_take:
  assumes "0 < csize"
  shows "start \<le> toBlock \<Longrightarrow>
    plan_blocks (take k (chunk_plan csize toBlock start)) =
      [unat start ..< min (Suc (unat toBlock)) (unat start + k * unat csize)]"
proof (induction k arbitrary: start)
  case 0
  then show ?case by (simp add: plan_blocks_def)
next
  case (Suc k)
  let ?e = "chunk_end csize toBlock start"
  have c: "0 < unat csize" using assms by (simp add: word_less_nat_alt)
  have e: "unat ?e = min (unat toBlock) (unat start + unat csize - 1)"
    using assms Suc.prems by (rule unat_chunk_end)
  have st: "unat start \<le> unat toBlock" using Suc.prems by (simp add: word_le_nat_alt)
  show ?case
  proof (cases "?e = toBlock")
    case True
    then have "unat toBlock \<le> unat start + unat csize - 1" using e by simp
    then have "Suc (unat toBlock) \<le> unat start + Suc k * unat csize" using c by simp
    with True Suc.prems show ?thesis
      by (simp add: plan_blocks_def chunk_plan.simps [of csize toBlock start] min_def)
  next
    case False
    then have lt: "?e < toBlock" using chunk_end_bounds(1) [OF Suc.prems, of csize] by simp
    then have e': "unat ?e = unat start + unat csize - 1"
      using e by (simp add: word_less_nat_alt min_def split: if_splits)
    have s: "unat (?e + 1) = unat start + unat csize"
      using unat_Suc_of_less [OF lt] e' c by simp
    have le: "?e + 1 \<le> toBlock"
      using lt s e' c by (simp add: word_le_nat_alt word_less_nat_alt)
    have "plan_blocks (take (Suc k) (chunk_plan csize toBlock start)) =
        [unat start ..< Suc (unat ?e)] @ plan_blocks (take k (chunk_plan csize toBlock (?e + 1)))"
      using Suc.prems False by (simp add: plan_blocks_def chunk_plan.simps [of csize toBlock start])
    also have "\<dots> = [unat start ..< unat start + unat csize]
        @ [unat start + unat csize ..< min (Suc (unat toBlock)) (unat start + unat csize + k * unat csize)]"
      using Suc.IH [OF le] e' c s by simp
    also have "\<dots> = [unat start ..< min (Suc (unat toBlock)) (unat start + unat csize + k * unat csize)]"
      using le s by (intro upt_split) (auto simp: word_le_nat_alt)
    finally show ?thesis by (simp add: add.assoc add.commute [of "unat csize"])
  qed
qed

lemma chunk_plan_ranges:
  "start \<le> toBlock \<Longrightarrow> ab \<in> set (chunk_plan csize toBlock start) \<Longrightarrow> fst ab \<le> snd ab"
proof (induction csize toBlock start rule: chunk_plan.induct)
  case (1 csize toBlock start)
  let ?e = "chunk_end csize toBlock start"
  have e: "start \<le> ?e" "?e \<le> toBlock" using chunk_end_bounds [OF "1.prems"(1), of csize] by auto
  show ?case
  proof (cases "?e = toBlock \<or> ab = (start, ?e)")
    case True
    then show ?thesis
      using "1.prems" e by (auto simp: chunk_plan.simps [of csize toBlock start])
  next
    case False
    then have lt: "?e < toBlock" using e by auto
    then have "?e + 1 \<le> toBlock"
      using unat_Suc_of_less [OF lt] by (simp add: word_le_nat_alt word_less_nat_alt)
    then show ?thesis
      using "1.IH" "1.prems" False by (auto simp: chunk_plan.simps [of csize toBlock start])
  qed
qed

lemma plan_blocks_drop_Nil:
  assumes "start \<le> toBlock" and "plan_blocks (drop k (chunk_plan csize toBlock start)) = []"
  shows "length (chunk_plan csize toBlock start) \<le> k"
proof (rule ccontr)
  assume "\<not> ?thesis"
  then obtain ab rest where d: "drop k (chunk_plan csize toBlock start) = ab # rest"
    by (cases "drop k (chunk_plan csize toBlock start)") auto
  then have "ab \<in> set (chunk_plan csize toBlock start)"
    by (metis in_set_dropD list.set_intros(1))
  then have "fst ab \<le> snd ab" using chunk_plan_ranges [OF assms(1)] by blast
  then show False using assms(2) d
    by (auto simp: plan_blocks_def word_le_nat_alt split: prod.splits)
qed

section \<open>What the scan finds\<close>

text \<open>The pools that a set of logs touches, in the form the scan reports them.\<close>

definition touched :: "LogEntry set \<Rightarrow> string set" where
  "touched logs = to_lower ` (lAddress ` logs - {''''})"

lemma touched_simps [simp]:
  "touched {} = {}" "touched (A \<union> B) = touched A \<union> touched B"
  by (auto simp: touched_def)

lemma fst_fold_absorb_log:
  "fst (fold (absorb_log kk d) logs acc) = fst acc \<union> touched (set logs)"
  by (induction logs arbitrary: acc) (auto simp: absorb_log_def touched_def split: prod.splits)

text \<open>
  The documented behaviour of \<open>eth_getLogs\<close> on a fixed chain: an answer for a range holds
  exactly the logs of the blocks of the range. It may fail at any call.
\<close>

definition logs_of_chain :: "(nat \<Rightarrow> LogEntry list) \<Rightarrow> (u64 \<Rightarrow> u64 \<Rightarrow> ('w, LogEntry list) io) \<Rightarrow> bool" where
  "logs_of_chain chain getLogs \<longleftrightarrow>
     (\<forall>a b w logs w'. getLogs a b w = (Inr logs, w') \<longrightarrow>
        set logs = (\<Union>n\<in>set [unat a ..< Suc (unat b)]. set (chain n)))"

lemma run_chunks_changed:
  assumes "logs_of_chain chain getLogs"
    and "run_chunks kk d getLogs plan changed stats w = ((changed', stats', err), w')"
  obtains k where "k \<le> length plan"
    and "ChunksSucceeded stats' = ChunksSucceeded stats + of_nat k"
    and "err = None \<longleftrightarrow> k = length plan"
    and "changed' = changed \<union> touched (\<Union>n\<in>set (plan_blocks (take k plan)). set (chain n))"
  using assms(2)
proof (induction plan arbitrary: changed stats w thesis)
  case Nil
  then show ?case by (auto simp: plan_blocks_def)
next
  case (Cons ab plan)
  obtain a b where ab: "ab = (a, b)" by (cases ab)
  consider (ctx) err' where "CtxErr (dCaller d) w = Some err'"
    | (fail) err' w1 where "CtxErr (dCaller d) w = None" "getLogs a b w = (Inl err', w1)"
    | (logs) logs w1 where "CtxErr (dCaller d) w = None" "getLogs a b w = (Inr logs, w1)"
    by (metis option.exhaust sum.exhaust surj_pair)
  then show ?case
  proof cases
    case ctx
    then have "changed' = changed" "stats' = stats" "err = Some err'"
      using Cons.prems(2) by (auto simp: ab)
    then show ?thesis using Cons.prems(1) [of 0] by (simp add: plan_blocks_def)
  next
    case fail
    then show ?thesis
      using Cons.prems(2) Cons.prems(1) [of 0] by (auto simp: ab plan_blocks_def Let_def)
  next
    case logs
    let ?acc = "fold (absorb_log kk d) logs (changed, w1)"
    let ?st = "stats\<lparr>ChunksAttempted := ChunksAttempted stats + 1,
        BlocksScanned := BlocksScanned stats + (b - a + 1),
        ChunksSucceeded := ChunksSucceeded stats + 1\<rparr>"
    have run: "run_chunks kk d getLogs plan (fst ?acc) ?st (snd ?acc) = ((changed', stats', err), w')"
      using Cons.prems(2) logs by (simp add: ab Let_def)
    have got: "set logs = (\<Union>n\<in>set [unat a ..< Suc (unat b)]. set (chain n))"
      using assms(1) [unfolded logs_of_chain_def, rule_format, OF logs(2)] .
    obtain k where k: "k \<le> length plan" "ChunksSucceeded stats' = ChunksSucceeded ?st + of_nat k"
      "err = None \<longleftrightarrow> k = length plan"
      "changed' = fst ?acc \<union> touched (\<Union>n\<in>set (plan_blocks (take k plan)). set (chain n))"
      by (rule Cons.IH [OF _ run])
    have blocks: "set (plan_blocks (take (Suc k) (ab # plan)))
        = set [unat a ..< Suc (unat b)] \<union> set (plan_blocks (take k plan))"
      by (simp add: plan_blocks_def ab)
    show ?thesis
    proof (rule Cons.prems(1) [of "Suc k"])
      show "changed' = changed \<union> touched (\<Union>n\<in>set (plan_blocks (take (Suc k) (ab # plan))). set (chain n))"
        unfolding blocks UN_Un touched_simps got [symmetric] k(4) fst_fold_absorb_log
        by (simp add: Un_assoc)
    qed (use k in simp_all)
  qed
qed

lemma length_chunk_plan: "start \<le> toBlock \<Longrightarrow> length (chunk_plan csize toBlock start) \<le> Suc (unat toBlock) - unat start"
proof (induction csize toBlock start rule: chunk_plan.induct)
  case (1 csize toBlock start)
  let ?e = "chunk_end csize toBlock start"
  have e: "start \<le> ?e" "?e \<le> toBlock" using chunk_end_bounds [OF "1.prems", of csize] by auto
  show ?case
  proof (cases "?e = toBlock")
    case True
    then show ?thesis
      using "1.prems" by (simp add: chunk_plan.simps [of csize toBlock start] word_le_nat_alt)
  next
    case False
    then have lt: "?e < toBlock" using e by simp
    then have s: "unat (?e + 1) = Suc (unat ?e)" by (rule unat_Suc_of_less)
    then have le: "?e + 1 \<le> toBlock" using lt by (simp add: word_le_nat_alt word_less_nat_alt)
    show ?thesis
      using "1.IH" [OF "1.prems" False le] "1.prems" False e s le
      by (simp add: chunk_plan.simps [of csize toBlock start] word_le_nat_alt)
  qed
qed

lemma getLogsChunkSize_pos [simp]: "0 < getLogsChunkSize d"
  by (simp add: getLogsChunkSize_def word_neq_0_conv)

lemma plan_take_all:
  assumes "0 < csize" "start \<le> toBlock" "k = length (chunk_plan csize toBlock start)"
  shows "Suc (unat toBlock) \<le> unat start + k * unat csize"
proof -
  have "Suc (unat toBlock) = length (plan_blocks (chunk_plan csize toBlock start)) + unat start"
  proof -
    have "plan_blocks (chunk_plan csize toBlock start)
        = plan_blocks (take (Suc (unat toBlock) + k) (chunk_plan csize toBlock start))"
      using assms(3) by simp
    also have "\<dots> = [unat start ..< Suc (unat toBlock)]"
    proof -
      have "0 < unat csize" using assms(1) by (simp add: word_less_nat_alt)
      then have "Suc (unat toBlock) + k \<le> (Suc (unat toBlock) + k) * unat csize"
        by (metis One_nat_def Suc_leI mult.right_neutral mult_le_mono2)
      then have "min (Suc (unat toBlock)) (unat start + (Suc (unat toBlock) + k) * unat csize)
          = Suc (unat toBlock)" by linarith
      then show ?thesis using plan_blocks_take [OF assms(1,2)] by simp
    qed
    finally show ?thesis using assms(2) by (simp add: word_le_nat_alt)
  qed
  also have "plan_blocks (chunk_plan csize toBlock start)
      = [unat start ..< min (Suc (unat toBlock)) (unat start + k * unat csize)]"
    using plan_blocks_take [OF assms(1,2), of k] assms(3) by simp
  finally show ?thesis using assms(2) by (auto simp: word_le_nat_alt)
qed

lemma scan_exact:
  assumes "GetLogs (dCaller d) = Some call" and "logs_of_chain chain (call addrs)"
    and "addrs \<noteq> []" and "0 < fromBlock" and "fromBlock \<le> toBlock"
    and "ChangedPoolAddressesAtWithStats kk d addrs fromBlock toBlock w = ((changed, stats, err), w')"
  shows "changed = touched (\<Union>n\<in>{unat fromBlock ..< min (Suc (unat toBlock))
             (unat fromBlock + unat (ChunksSucceeded stats) * unat (getLogsChunkSize d))}. set (chain n))
    \<and> (err = None \<longleftrightarrow> unat toBlock < unat fromBlock + unat (ChunksSucceeded stats) * unat (getLogsChunkSize d))
    \<and> unat (ChunksSucceeded stats) \<le> Suc (unat toBlock) - unat fromBlock"
proof -
  let ?c = "getLogsChunkSize d"
  let ?plan = "chunk_plan ?c toBlock fromBlock"
  have "toBlock \<noteq> 0" using assms(4,5) by (auto simp: word_le_nat_alt word_less_nat_alt)
  then have run: "run_chunks kk d (call addrs) ?plan {} no_stats w = ((changed, stats, err), w')"
    using assms by (auto simp: ChangedPoolAddressesAtWithStats_def scan_chunks_run Let_def split: if_splits)
  obtain k where k: "k \<le> length ?plan" "ChunksSucceeded stats = of_nat k"
    "err = None \<longleftrightarrow> k = length ?plan"
    "changed = touched (\<Union>n\<in>set (plan_blocks (take k ?plan)). set (chain n))"
    using run_chunks_changed [OF assms(2) run] by (auto simp: no_stats_def)
  have "length ?plan < 2 ^ 64"
    using length_chunk_plan [OF assms(5), of ?c] unsigned_less [where 'a = nat, of toBlock] assms(4)
    by (simp add: word_less_nat_alt)
  then have uk: "unat (ChunksSucceeded stats) = k"
    using k(1,2) by (simp add: unat_of_nat)
  have "unat toBlock < unat fromBlock + k * unat ?c \<longleftrightarrow> k = length ?plan"
  proof
    assume "k = length ?plan"
    then show "unat toBlock < unat fromBlock + k * unat ?c"
      using plan_take_all [OF getLogsChunkSize_pos [of d] assms(5), of k] by simp
  next
    assume "unat toBlock < unat fromBlock + k * unat ?c"
    then have "plan_blocks (take k ?plan) = [unat fromBlock ..< Suc (unat toBlock)]"
      using plan_blocks_take [OF getLogsChunkSize_pos [of d] assms(5), of k] by simp
    moreover have "plan_blocks ?plan = [unat fromBlock ..< Suc (unat toBlock)]"
      using plan_blocks_take [OF getLogsChunkSize_pos [of d] assms(5), of "length ?plan"]
        plan_take_all [OF getLogsChunkSize_pos [of d] assms(5) refl] by simp
    moreover have "plan_blocks ?plan = plan_blocks (take k ?plan) @ plan_blocks (drop k ?plan)"
      by (metis plan_blocks_append append_take_drop_id)
    ultimately have "plan_blocks (drop k ?plan) = []" by simp
    then show "k = length ?plan"
      using k(1) by (intro le_antisym plan_blocks_drop_Nil [OF assms(5)])
  qed
  then show ?thesis
    using k uk plan_blocks_take [OF getLogsChunkSize_pos assms(5), of k d] length_chunk_plan [OF assms(5), of ?c]
    by simp
qed

text \<open>
  C7: the chunked log scan reports exactly the pools touched by the blocks it has scanned. If it
  stops after some successful chunks, these cover a prefix of the block range that starts at
  \<open>fromBlock\<close> and has the chunk size per success; if it reports no error, the prefix is the
  whole range. So the caller may advance past the successful chunks without losing a change.
\<close>

theorem changed_pools_exact:
  assumes "GetLogs (dCaller d) = Some call" and "logs_of_chain chain (call addrs)"
    and "addrs \<noteq> []" and "0 < fromBlock" and "fromBlock \<le> toBlock"
    and "ChangedPoolAddressesAtWithStats kk d addrs fromBlock toBlock w = ((changed, stats, err), w')"
  shows "changed = touched (\<Union>n\<in>{unat fromBlock ..< min (Suc (unat toBlock))
             (unat fromBlock + unat (ChunksSucceeded stats) * unat (getLogsChunkSize d))}. set (chain n))
    \<and> (err = None \<longleftrightarrow> unat toBlock < unat fromBlock + unat (ChunksSucceeded stats) * unat (getLogsChunkSize d))"
  using scan_exact [OF assms] by simp

text \<open>A provider that knows one log, of block 7, and fails from block 10 on.\<close>

definition demo_log :: LogEntry where
  "demo_log = \<lparr>lAddress = ''0xAB'', lData = ''0x'', lTopics = [], lBlockNumber = ''0x7''\<rparr>"

definition demo_chain :: "nat \<Rightarrow> LogEntry list" where
  "demo_chain n = (if n = 7 then [demo_log] else [])"

definition demo_get_logs :: "u64 \<Rightarrow> u64 \<Rightarrow> (unit, LogEntry list) io" where
  "demo_get_logs a b = (if 10 \<le> a then throw ''limit'' else ret (concat (map demo_chain [unat a ..< Suc (unat b)])))"

definition demo_caller :: "unit Caller" where
  "demo_caller = \<lparr>EthCall = (\<lambda>_ _. throw ''''), BlockNumber = throw '''', EthCallAt = None,
     GetLogs = Some (\<lambda>_. demo_get_logs), CtxErr = (\<lambda>_. None)\<rparr>"

definition demo_discoverer :: "unit Discoverer" where
  "demo_discoverer = \<lparr>dCaller = demo_caller, dUniswapFactory = '''', dCamelotFactory = '''', dFees = [],
     dChunkSize = 5, dObserver = None\<rparr>"

lemma demo_logs_of_chain: "logs_of_chain demo_chain demo_get_logs"
  by (auto simp: logs_of_chain_def demo_get_logs_def split: if_splits)

lemma demo_scan:
  "ChangedPoolAddressesAtWithStats kk demo_discoverer [''0xAB''] 5 12 () =
     (({''0xab''}, \<lparr>ChunksAttempted = 2, ChunksSucceeded = 1, ChunksFailed = 1, BlocksScanned = 8\<rparr>,
       Some ''limit''), ())"
proof -
  have plan: "chunk_plan 5 12 5 = [(5, 9), (10, 12)]"
    by (simp add: chunk_plan.simps chunk_end_def)
  have logs: "demo_get_logs 5 9 () = (Inr [demo_log], ())" "demo_get_logs 10 12 () = (Inl ''limit'', ())"
    by (simp_all add: demo_get_logs_def demo_chain_def upt_rec)
  show ?thesis
    by (simp add: ChangedPoolAddressesAtWithStats_def scan_chunks_run demo_discoverer_def
        demo_caller_def getLogsChunkSize_def no_stats_def plan logs absorb_log_def demo_log_def
        decodeSwapLog_def fold_eval)
qed

theorem changed_pools_exact_witness:
  "{''0xab''} = touched (\<Union>n\<in>{5 ..< 10}. set (demo_chain n))"
  using changed_pools_exact [OF _ _ _ _ _ demo_scan, of "\<lambda>_. demo_get_logs" demo_chain] demo_logs_of_chain
  by (simp add: demo_discoverer_def demo_caller_def getLogsChunkSize_def)

section \<open>What discovery and refresh return\<close>

text \<open>A pool as discovery may report it at a block.\<close>

definition usable_at :: "u64 \<Rightarrow> Pool \<Rightarrow> bool" where
  "usable_at block p \<longleftrightarrow> big_pos (pLiquidity p) \<and> pLastUpdatedBlock p = block
     \<and> pSqrtPriceX96 p \<noteq> None \<and> \<not> isZeroAddress (pAddress p)"

lemma uniswapPool_shape:
  assumes "uniswapPool kk d a b fee block w = (Inr (Some p), w')"
  shows "pDEX p = UniswapV3" "pLastUpdatedBlock p = block" "\<not> isZeroAddress (pAddress p)"
    "pLiquidity p \<noteq> None" "pSqrtPriceX96 p \<noteq> None"
  using assms unfolding uniswapPool_def
  by (auto elim!: bindE_InrE simp: Let_def split: if_splits)

lemma camelotPool_shape:
  assumes "camelotPool kk d a b block w = (Inr (Some p), w')"
  shows "pDEX p = CamelotV3" "pLastUpdatedBlock p = block" "\<not> isZeroAddress (pAddress p)"
    "pLiquidity p \<noteq> None" "pSqrtPriceX96 p \<noteq> None" "pFee p = 0"
  using assms unfolding camelotPool_def
  by (auto elim!: bindE_InrE simp: Let_def split: if_splits)

lemma discover_fees_usable:
  "discover_fees kk d a b block fees w = (Inr ps, w') \<Longrightarrow>
     length ps \<le> length fees \<and> list_all (\<lambda>p. usable_at block p \<and> pDEX p = UniswapV3) ps"
proof (induction fees arbitrary: w ps w')
  case Nil
  then show ?case by simp
next
  case (Cons fee fees)
  then obtain pool w1 rest w2 where u: "uniswapPool kk d a b fee block w = (Inr pool, w1)"
    and r: "discover_fees kk d a b block fees w1 = (Inr rest, w2)"
    and ps: "ps = (case pool of Some p \<Rightarrow> if big_pos (pLiquidity p) then p # rest else rest | None \<Rightarrow> rest)"
    by (auto elim!: bindE_InrE)
  show ?case
    using Cons.IH [OF r] u ps
    by (auto simp: usable_at_def split: option.splits if_splits dest: uniswapPool_shape)
qed

text \<open>
  C38: discovery of a pair reports at most one pool per configured fee tier and one Camelot pool,
  the Camelot pool last; every reported pool has positive liquidity, a price and a non-zero address
  and is stamped with the block the calls were made at.
\<close>

theorem DiscoverPairAt_usable:
  assumes "DiscoverPairAt kk d tokenA tokenB block w = (Inr ps, w')"
  shows "list_all (usable_at block) ps \<and> length ps \<le> Suc (length (dFees d))
    \<and> list_all (\<lambda>p. pDEX p = UniswapV3) (butlast ps)
    \<and> length (filter (\<lambda>p. pDEX p = CamelotV3) ps) \<le> 1"
proof -
  obtain found w1 pool where f: "discover_fees kk d tokenA tokenB block (dFees d) w = (Inr found, w1)"
    and c: "camelotPool kk d tokenA tokenB block w1 = (Inr pool, w')"
    and ps: "ps = (case pool of Some p \<Rightarrow> if big_pos (pLiquidity p) then found @ [p] else found | None \<Rightarrow> found)"
    using assms unfolding DiscoverPairAt_def by (auto elim!: bindE_InrE)
  have fs: "length found \<le> length (dFees d)" "list_all (usable_at block) found"
    "list_all (\<lambda>p. pDEX p = UniswapV3) found"
    using discover_fees_usable [OF f] by (auto simp: list_all_iff)
  have none: "filter (\<lambda>p. pDEX p = CamelotV3) found = []"
    using fs(3) by (auto simp: list_all_iff filter_empty_conv)
  have bl: "list_all (\<lambda>p. pDEX p = UniswapV3) (butlast found)"
    using fs(3) by (auto simp: list_all_iff dest: in_set_butlastD)
  show ?thesis
    using ps fs none bl c camelotPool_shape [of kk d tokenA tokenB block w1]
    by (auto simp: usable_at_def split: option.splits if_splits)
qed

text \<open>
  Refreshing a pool changes its liquidity, price and block only, and fails for a venue the code does
  not know.
\<close>

lemma RefreshPoolAt_frame:
  assumes "RefreshPoolAt kk d pool block w = (Inr p, w')"
  shows "pAddress p = pAddress pool" "pToken0 p = pToken0 pool" "pToken1 p = pToken1 pool"
    "pDEX p = pDEX pool" "pFee p = pFee pool" "pLastUpdatedBlock p = block"
    "pDEX p = UniswapV3 \<or> pDEX p = CamelotV3"
    "\<exists>l s. pLiquidity p = Some l \<and> pSqrtPriceX96 p = Some s"
  using assms unfolding RefreshPoolAt_def
  by (auto elim!: bindE_InrE simp: Let_def split: if_splits)

lemma Supports_comm: "Supports p a b \<longleftrightarrow> Supports p b a"
  by (auto simp: Supports_def)

lemma Supports_fold: "equal_fold a a' \<Longrightarrow> equal_fold b b' \<Longrightarrow> Supports p a b \<longleftrightarrow> Supports p a' b'"
  by (auto simp: Supports_def equal_fold_def)

text \<open>A provider whose every answer is the word 1: one Uniswap and one Camelot pool.\<close>

definition one_word :: bytes where
  "one_word = replicate 31 0 @ [1]"

definition one_answer :: string where
  "one_answer = ''0x'' @ hex_encode one_word"

definition one_token :: string where
  "one_token = ''0x'' @ hex_encode (replicate 20 1)"

definition one_discoverer :: "unit Discoverer" where
  "one_discoverer = \<lparr>dCaller = demo_caller\<lparr>EthCall := (\<lambda>_ _. ret one_answer)\<rparr>,
     dUniswapFactory = ''0x1'', dCamelotFactory = ''0x2'', dFees = [500], dChunkSize = 5, dObserver = None\<rparr>"

definition one_pool :: "DEX \<Rightarrow> u32 \<Rightarrow> Pool" where
  "one_pool dex fee = \<lparr>pAddress = WordAddress one_word, pToken0 = WordAddress one_word,
     pToken1 = WordAddress one_word, pDEX = dex, pFee = fee, pLiquidity = Some 1,
     pSqrtPriceX96 = Some 1, pLastUpdatedBlock = 9\<rparr>"

lemma hex_encode_zeros: "hex_encode (replicate n 0) = replicate (2 * n) CHR ''0''"
  by (induction n) (simp_all add: hexdigit_def fold_eval)

lemma one_not_zero: "\<not> isZeroAddress (WordAddress one_word)"
proof
  assume "isZeroAddress (WordAddress one_word)"
  then have "to_lower (hex_encode (drop 12 one_word)) = to_lower (hex_encode (replicate 20 0))"
    by (simp add: isZeroAddress_def WordAddress_def equal_fold_def hex_encode_zeros to_lower_def)
  then have "drop 12 one_word = replicate 20 0"
    unfolding to_lower_hex_encode by (rule hex.enc_inj [OF TrueI TrueI])
  then show False by (simp add: one_word_def numeral_eq_Suc)
qed

lemma one_provider:
  "AddressWord one_token = Inr (replicate 12 0 @ replicate 20 1)"
  "DecodeWords one_answer = Inr [one_word]"
  "to \<noteq> [] \<Longrightarrow> d_call one_discoverer to data block w = (Inr one_answer, w)"
  "WordUint one_word = 1"
  "\<not> isZeroAddress (WordAddress one_word)"
  "WordAddress one_word \<noteq> []"
proof -
  show "AddressWord one_token = Inr (replicate 12 0 @ replicate 20 1)"
    by (simp only: one_token_def AddressWord_def trim_space_hex trim_prefix_append) (simp add: Let_def)
  show "DecodeWords one_answer = Inr [one_word]"
    using abi_words.dec_enc [of "[one_word]"] by (simp add: one_answer_def one_word_def)
  show "to \<noteq> [] \<Longrightarrow> d_call one_discoverer to data block w = (Inr one_answer, w)"
    by (simp add: d_call_def one_discoverer_def demo_caller_def)
  show "WordUint one_word = 1"
    by (simp add: WordUint_def one_word_def be_int_def numeral_eq_Suc)
  show "\<not> isZeroAddress (WordAddress one_word)"
    by (rule one_not_zero)
  show "WordAddress one_word \<noteq> []" by (simp add: WordAddress_def)
qed

lemma one_discoverer_sel:
  "dFees one_discoverer = [500]" "dObserver one_discoverer = None"
  "dUniswapFactory one_discoverer = ''0x1''" "dCamelotFactory one_discoverer = ''0x2''"
  by (simp_all add: one_discoverer_def)

lemma one_discovery:
  "DiscoverPairAt kk one_discoverer one_token one_token 9 () =
     (Inr [one_pool UniswapV3 1, one_pool CamelotV3 0], ())"
  by (simp add: DiscoverPairAt_def uniswapPool_def camelotPool_def corePoolState_def bindE_def Let_def
      one_provider one_pool_def notifyPool_def one_discoverer_sel)

theorem DiscoverPairAt_usable_witness:
  "list_all (usable_at 9) [one_pool UniswapV3 1, one_pool CamelotV3 0]"
  using DiscoverPairAt_usable [OF one_discovery] by simp

end
