(* ===== verification/Routes.thy ===== *)
theory Routes
  imports Pools
begin

text \<open>
  \<open>go/internal/routes/routes.go\<close>: the bounded enumeration of 2- to 4-hop cycles over the
  discovered pools. The recursive helpers that append to a shared slice are functions that thread
  the slice; they are shown to be prefixes of the plain Cartesian product, and the builders to
  return well-formed cycles within the configured bounds.
\<close>

section \<open>Data\<close>

type_synonym by_pair = "string \<times> string \<Rightarrow> Pool list"

record Route =
  rSymbols :: "string list"
  rHops :: "Pool list"

definition mk_route :: "string list \<Rightarrow> Pool list \<Rightarrow> Route" where
  "mk_route symbols hops = \<lparr>rSymbols = symbols, rHops = hops\<rparr>"

lemma mk_route_sel [simp]:
  "rSymbols (mk_route s h) = s" "rHops (mk_route s h) = h"
  by (simp_all add: mk_route_def)

definition Route_String :: "Route \<Rightarrow> string" where
  "Route_String r =
     (case rSymbols r of
        [] \<Rightarrow> ''''
      | s # ss \<Rightarrow> foldl (\<lambda>result symbol. result @ '' -> '' @ symbol) s ss)"

section \<open>Helpers\<close>

definition uniqueSorted :: "string list \<Rightarrow> string list" where
  "uniqueSorted values = sorted_keys (filter (\<lambda>v. v \<noteq> '''') values)"

definition splitLimit :: "int \<Rightarrow> int \<Rightarrow> int list" where
  "splitLimit limit buckets =
     (if buckets < 1 then []
      else let base = big_quo limit buckets; remainder = big_rem limit buckets
           in map (\<lambda>i. if int i < remainder then base + 1 else base) [0 ..< nat buckets])"

text \<open>\<open>walk\<close> of \<open>permutations\<close>: the paths of \<open>n\<close> distinct positions of \<open>remaining\<close>.\<close>

function perm_walk :: "nat \<Rightarrow> string list \<Rightarrow> string list \<Rightarrow> string list list" where
  "perm_walk n path remaining =
     (if length path = n then [path]
      else concat (map (\<lambda>i. perm_walk n (path @ [remaining ! i]) (take i remaining @ drop (Suc i) remaining))
                       [0 ..< length remaining]))"
  by pat_completeness auto
termination
  by (relation "measure (\<lambda>(n, path, remaining). length remaining)") auto

declare perm_walk.simps [simp del]

definition permutations :: "string list \<Rightarrow> nat \<Rightarrow> string list list" where
  "permutations values n = perm_walk n [] (sort values)"

function (sequential) appendCombinations :: "string list \<Rightarrow> Pool list list \<Rightarrow> Pool list \<Rightarrow> Route list \<Rightarrow> int \<Rightarrow> Route list"
  and append_each :: "string list \<Rightarrow> Pool list list \<Rightarrow> Pool list \<Rightarrow> Pool list \<Rightarrow> Route list \<Rightarrow> int \<Rightarrow> Route list" where
  "appendCombinations symbols [] current out maximum =
     (if maximum \<le> int (length out) then out else out @ [mk_route symbols current])"
| "appendCombinations symbols (choice # choices) current out maximum =
     (if maximum \<le> int (length out) then out
      else append_each symbols choices current choice out maximum)"
| "append_each symbols choices current [] out maximum = out"
| "append_each symbols choices current (p # ps) out maximum =
     (let out' = appendCombinations symbols choices (current @ [p]) out maximum in
      if maximum \<le> int (length out') then out'
      else append_each symbols choices current ps out' maximum)"
  by pat_completeness auto
termination
  by (relation "measures [\<lambda>x. case x of Inl (_, cs, _) \<Rightarrow> 2 * length cs | Inr (_, cs, _) \<Rightarrow> 2 * length cs + 1,
       \<lambda>x. case x of Inl _ \<Rightarrow> 0 | Inr (_, _, _, ps, _) \<Rightarrow> length ps]") auto

definition is_cross_venue :: "Route \<Rightarrow> bool" where
  "is_cross_venue r \<longleftrightarrow> (case rHops r of [a, b] \<Rightarrow> pDEX a \<noteq> pDEX b | _ \<Rightarrow> False)"

definition prioritizeTwoHopCrossVenue :: "Route list \<Rightarrow> int \<Rightarrow> int \<Rightarrow> Route list" where
  "prioritizeTwoHopCrossVenue rs limit shareBPS =
     (let cross = filter is_cross_venue rs;
          same = filter (\<lambda>r. \<not> is_cross_venue r) rs;
          reserve0 = big_quo (limit * shareBPS) 10000;
          reserve = (if reserve0 > int (length cross) then int (length cross) else reserve0);
          out = take (nat reserve) cross;
          remaining = drop (nat reserve) cross @ same
      in out @ take (nat (limit - int (length out))) remaining)"

section \<open>The builders\<close>

definition hop_choices :: "by_pair \<Rightarrow> string list \<Rightarrow> Pool list list option" where
  "hop_choices byPair symbols =
     (let cs = map byPair (zip symbols (tl symbols)) in if [] \<in> set cs then None else Some cs)"

fun paths_loop :: "by_pair \<Rightarrow> string \<Rightarrow> int \<Rightarrow> int \<Rightarrow> string list list \<Rightarrow> Route list \<Rightarrow> Route list" where
  "paths_loop byPair start hopLimit combinationLimit [] hopRoutes = hopRoutes"
| "paths_loop byPair start hopLimit combinationLimit (path # paths) hopRoutes =
     (let symbols = [start] @ path @ [start] in
      case hop_choices byPair symbols of
        None \<Rightarrow> paths_loop byPair start hopLimit combinationLimit paths hopRoutes
      | Some choices \<Rightarrow>
          let hopRoutes' = appendCombinations symbols choices [] hopRoutes combinationLimit in
          if hopLimit \<le> int (length hopRoutes') then hopRoutes'
          else paths_loop byPair start hopLimit combinationLimit paths hopRoutes')"

text \<open>One turn of the loop over \<open>hops\<close>: the routes it appends.\<close>

definition hop_routes :: "by_pair \<Rightarrow> string \<Rightarrow> string list \<Rightarrow> int \<Rightarrow> nat \<Rightarrow> int \<Rightarrow> Route list" where
  "hop_routes byPair start intermediates crossVenueShareBPS hops hopLimit =
     (let share = (hops = 2 \<and> crossVenueShareBPS > 0);
          combinationLimit = (if share then hopLimit * 16 else hopLimit);
          rs = paths_loop byPair start hopLimit combinationLimit (permutations intermediates (hops - 1)) [];
          rs' = (if share then prioritizeTwoHopCrossVenue rs hopLimit crossVenueShareBPS else rs)
      in take (nat hopLimit) rs')"

fun hops_loop :: "by_pair \<Rightarrow> string \<Rightarrow> string list \<Rightarrow> int \<Rightarrow> int \<Rightarrow> (nat \<times> int) list \<Rightarrow> Route list \<Rightarrow> Route list" where
  "hops_loop byPair start intermediates maximum share [] output = output"
| "hops_loop byPair start intermediates maximum share ((hops, hopLimit) # rest) output =
     (if hopLimit < 1 then hops_loop byPair start intermediates maximum share rest output
      else let output' = output @ hop_routes byPair start intermediates share hops hopLimit in
           if maximum \<le> int (length output') then take (nat maximum) output'
           else hops_loop byPair start intermediates maximum share rest output')"

definition buildFromWithShare :: "string \<Rightarrow> string list \<Rightarrow> by_pair \<Rightarrow> int \<Rightarrow> int \<Rightarrow> Route list" where
  "buildFromWithShare start intermediates byPair maximum crossVenueShareBPS =
     (if maximum < 1 then []
      else hops_loop byPair start intermediates maximum crossVenueShareBPS
             (zip [2, 3, 4] (splitLimit maximum 3)) [])"

definition buildFrom :: "string \<Rightarrow> string list \<Rightarrow> by_pair \<Rightarrow> int \<Rightarrow> Route list" where
  "buildFrom start intermediates byPair maximum = buildFromWithShare start intermediates byPair maximum 0"

definition Build :: "string \<Rightarrow> string list \<Rightarrow> by_pair \<Rightarrow> int \<Rightarrow> Route list" where
  "Build base intermediates byPair maxRoutes = buildFrom base (uniqueSorted intermediates) byPair maxRoutes"

fun starts_loop :: "string list \<Rightarrow> by_pair \<Rightarrow> int \<Rightarrow> int \<Rightarrow> int \<Rightarrow> string list \<Rightarrow> Route list \<Rightarrow> Route list" where
  "starts_loop assets byPair maxRoutes perAsset share [] output = output"
| "starts_loop assets byPair maxRoutes perAsset share (start # starts) output =
     (let intermediates = filter (\<lambda>a. a \<noteq> start) assets;
          remaining = maxRoutes - int (length output);
          limit = (if perAsset > remaining then remaining else perAsset);
          output' = output @ buildFromWithShare start intermediates byPair limit share
      in if maxRoutes \<le> int (length output') then output'
         else starts_loop assets byPair maxRoutes perAsset share starts output')"

definition BuildForStartsWithCrossVenueShare :: "string list \<Rightarrow> string list \<Rightarrow> by_pair \<Rightarrow> int \<Rightarrow> int \<Rightarrow> Route list" where
  "BuildForStartsWithCrossVenueShare starts assets byPair maxRoutes crossVenueShareBPS =
     (if maxRoutes < 1 then []
      else let assets' = uniqueSorted assets; starts' = uniqueSorted starts in
           if length assets' < 2 \<or> starts' = [] then []
           else let n = int (length starts'); perAsset = big_quo (maxRoutes + n - 1) n in
                starts_loop assets' byPair maxRoutes perAsset crossVenueShareBPS starts' [])"

definition BuildForStarts :: "string list \<Rightarrow> string list \<Rightarrow> by_pair \<Rightarrow> int \<Rightarrow> Route list" where
  "BuildForStarts starts assets byPair maxRoutes =
     BuildForStartsWithCrossVenueShare starts assets byPair maxRoutes 0"

definition BuildAll :: "string list \<Rightarrow> by_pair \<Rightarrow> int \<Rightarrow> Route list" where
  "BuildAll assets byPair maxRoutes = BuildForStarts assets assets byPair maxRoutes"

section \<open>The enumeration is a prefix of the Cartesian product\<close>

lemma take_nat_append:
  "xs @ take (nat (m - int (length xs))) (ys @ zs) =
     (xs @ take (nat (m - int (length xs))) ys)
       @ take (nat (m - int (length (xs @ take (nat (m - int (length xs))) ys)))) zs"
proof (cases "m \<le> int (length xs) + int (length ys)")
  case True
  then show ?thesis
    by (simp add: min_def)
next
  case False
  then have "nat (m - int (length xs)) - length ys = nat (m - int (length xs + length ys))"
    "min (length ys) (nat (m - int (length xs))) = length ys" by auto
  then show ?thesis by simp
qed

lemma take_nat_full:
  "m \<le> int (length (xs @ take (nat (m - int (length xs))) ys)) \<Longrightarrow>
   nat (m - int (length xs)) \<le> length ys"
  by (auto simp: min_def split: if_splits)

lemma appendCombinations_product:
  "appendCombinations symbols choices current out maximum =
     out @ take (nat (maximum - int (length out)))
       (map (\<lambda>h. mk_route symbols (current @ h)) (product_lists choices))"
  "append_each symbols choices current ps out maximum =
     out @ take (nat (maximum - int (length out)))
       (concat (map (\<lambda>p. map (\<lambda>h. mk_route symbols (current @ p # h)) (product_lists choices)) ps))"
proof (induction symbols choices current out maximum and symbols choices current ps out maximum
    rule: appendCombinations_append_each.induct)
  case (1 symbols current out maximum)
  then show ?case by (auto simp: nat_eq_iff2 take_Cons' not_le)
next
  case (2 symbols choice choices current out maximum)
  then show ?case by (simp add: map_concat comp_def)
next
  case (3 symbols choices current out maximum)
  then show ?case by simp
next
  case (4 symbols choices current p ps out maximum)
  let ?m = "map (\<lambda>h. mk_route symbols (current @ p # h)) (product_lists choices)"
  let ?out' = "out @ take (nat (maximum - int (length out))) ?m"
  have out': "appendCombinations symbols choices (current @ [p]) out maximum = ?out'"
    using "4.IH"(1) by simp
  show ?case
  proof (cases "maximum \<le> int (length ?out')")
    case True
    then show ?thesis
      using out' take_nat_full [OF True] by (simp del: length_append length_take)
  next
    case False
    then show ?thesis
      using out' "4.IH"(2) [OF refl] take_nat_append [of out maximum ?m]
      by (simp add: Let_def del: length_append length_take)
  qed
qed

section \<open>Reference enumeration\<close>

definition path_routes :: "by_pair \<Rightarrow> string \<Rightarrow> string list \<Rightarrow> Route list" where
  "path_routes byPair start path =
     (let symbols = start # path @ [start] in
      map (mk_route symbols) (product_lists (map byPair (zip symbols (tl symbols)))))"

definition all_routes :: "by_pair \<Rightarrow> string \<Rightarrow> string list \<Rightarrow> nat \<Rightarrow> Route list" where
  "all_routes byPair start intermediates hops =
     concat (map (path_routes byPair start) (permutations intermediates (hops - 1)))"

lemma product_lists_Nil: "[] \<in> set xss \<Longrightarrow> product_lists xss = []"
  by (induction xss) auto

lemma append_path_routes:
  assumes "hop_choices byPair (start # path @ [start]) = Some choices"
  shows "appendCombinations (start # path @ [start]) choices [] out m =
    out @ take (nat (m - int (length out))) (path_routes byPair start path)"
  using assms
  by (auto simp: appendCombinations_product path_routes_def hop_choices_def Let_def split: if_splits)

lemma no_path_routes:
  "hop_choices byPair (start # path @ [start]) = None \<Longrightarrow> path_routes byPair start path = []"
  by (auto simp: path_routes_def hop_choices_def Let_def product_lists_Nil split: if_splits)

lemma paths_loop_eq:
  "int (length rs) < hopLimit \<Longrightarrow>
   paths_loop byPair start hopLimit hopLimit paths rs =
     rs @ take (nat (hopLimit - int (length rs))) (concat (map (path_routes byPair start) paths))"
proof (induction paths arbitrary: rs)
  case Nil
  then show ?case by simp
next
  case (Cons path paths)
  show ?case
  proof (cases "hop_choices byPair (start # path @ [start])")
    case None
    then show ?thesis using Cons by (simp add: no_path_routes)
  next
    case (Some choices)
    let ?rs' = "rs @ take (nat (hopLimit - int (length rs))) (path_routes byPair start path)"
    show ?thesis
    proof (cases "hopLimit \<le> int (length ?rs')")
      case True
      then show ?thesis
        using Some take_nat_full [OF True]
        by (simp add: append_path_routes del: length_append length_take)
    next
      case False
      then show ?thesis
        using Some Cons.IH [of ?rs'] take_nat_append [of rs hopLimit "path_routes byPair start path"]
        by (simp add: append_path_routes Let_def del: length_append length_take)
    qed
  qed
qed

lemma paths_loop_subset:
  "set (paths_loop byPair start hopLimit combLimit paths rs)
     \<subseteq> set rs \<union> set (concat (map (path_routes byPair start) paths))"
proof (induction paths arbitrary: rs)
  case Nil
  then show ?case by simp
next
  case (Cons path paths)
  show ?case
  proof (cases "hop_choices byPair (start # path @ [start])")
    case None
    then show ?thesis using Cons [of rs] by auto
  next
    case (Some choices)
    let ?rs' = "rs @ take (nat (combLimit - int (length rs))) (path_routes byPair start path)"
    have "set ?rs' \<subseteq> set rs \<union> set (path_routes byPair start path)"
      using set_take_subset by fastforce
    then show ?thesis
      using Some Cons [of ?rs'] by (auto simp: append_path_routes Let_def)
  qed
qed

section \<open>The paths\<close>

lemma take_drop_remove:
  assumes "i < length xs" "distinct xs"
  shows "set (take i xs @ drop (Suc i) xs) = set xs - {xs ! i}"
    and "distinct (take i xs @ drop (Suc i) xs)"
proof -
  have xs: "xs = take i xs @ xs ! i # drop (Suc i) xs" using assms(1) by (simp add: id_take_nth_drop)
  then have d: "distinct (take i xs @ xs ! i # drop (Suc i) xs)" using assms(2) by simp
  have "set xs = insert (xs ! i) (set (take i xs) \<union> set (drop (Suc i) xs))"
    by (subst xs) simp
  then show "set (take i xs @ drop (Suc i) xs) = set xs - {xs ! i}" using d by auto
  show "distinct (take i xs @ drop (Suc i) xs)" using d by auto
qed

lemma set_perm_walk:
  "distinct remaining \<Longrightarrow> length path \<le> n \<Longrightarrow>
   set (perm_walk n path remaining) =
     {path @ q | q. length (path @ q) = n \<and> distinct q \<and> set q \<subseteq> set remaining}"
proof (induction n path remaining rule: perm_walk.induct)
  case (1 n path remaining)
  let ?rest = "\<lambda>i. take i remaining @ drop (Suc i) remaining"
  show ?case
  proof (cases "length path = n")
    case True
    then show ?thesis by (subst perm_walk.simps) auto
  next
    case False
    have IH: "set (perm_walk n (path @ [remaining ! i]) (?rest i)) =
        {path @ remaining ! i # q | q. length (path @ remaining ! i # q) = n \<and> distinct q
           \<and> set q \<subseteq> set remaining - {remaining ! i}}" if "i < length remaining" for i
      using "1.IH" [OF False, of i] that "1.prems" False take_drop_remove [OF that "1.prems"(1)]
      by (auto simp: numeral_eq_Suc)
    have "set (perm_walk n path remaining) =
        (\<Union>i\<in>{0 ..< length remaining}. set (perm_walk n (path @ [remaining ! i]) (?rest i)))"
      using False by (subst perm_walk.simps) simp
    also have "\<dots> = {path @ q | q. length (path @ q) = n \<and> distinct q \<and> set q \<subseteq> set remaining}"
      (is "?L = ?R")
    proof
      show "?L \<subseteq> ?R" using IH by fastforce
      show "?R \<subseteq> ?L"
      proof
        fix r assume "r \<in> ?R"
        then obtain q where q: "r = path @ q" "length (path @ q) = n" "distinct q" "set q \<subseteq> set remaining"
          by blast
        then obtain x q' where x: "q = x # q'" using False by (cases q) auto
        then obtain i where i: "i < length remaining" "remaining ! i = x"
          using q(4) by (auto simp: in_set_conv_nth)
        then have "r \<in> set (perm_walk n (path @ [remaining ! i]) (?rest i))"
          using IH [of i] q x by auto
        then show "r \<in> ?L" using i(1) by auto
      qed
    qed
    finally show ?thesis .
  qed
qed

lemma set_permutations:
  "distinct values \<Longrightarrow>
   set (permutations values n) = {q. length q = n \<and> distinct q \<and> set q \<subseteq> set values}"
  by (simp add: permutations_def set_perm_walk)

section \<open>Well-formed cycles\<close>

definition valid_cycle :: "by_pair \<Rightarrow> Route \<Rightarrow> bool" where
  "valid_cycle byPair r \<longleftrightarrow>
     (let s = rSymbols r in
      3 \<le> length s \<and> length s \<le> 5 \<and> hd s = last s \<and> distinct (butlast s) \<and>
      list_all2 (\<lambda>pool pair. pool \<in> set (byPair pair)) (rHops r) (zip s (tl s)))"

lemma product_lists_mem: "hs \<in> set (product_lists xss) \<longleftrightarrow> list_all2 (\<lambda>h xs. h \<in> set xs) hs xss"
  by (simp add: product_lists_set)

lemma path_routes_mem:
  "r \<in> set (path_routes byPair start path) \<longleftrightarrow>
     rSymbols r = start # path @ [start] \<and>
     list_all2 (\<lambda>pool pair. pool \<in> set (byPair pair)) (rHops r)
       (zip (rSymbols r) (tl (rSymbols r)))"
proof -
  have r: "r = mk_route s h \<longleftrightarrow> rSymbols r = s \<and> rHops r = h" for s h
    by (auto simp: mk_route_def)
  show ?thesis
    by (auto simp: path_routes_def Let_def product_lists_mem list_all2_map2 image_iff r)
qed

lemma all_routes_mem:
  assumes "distinct intermediates" "start \<notin> set intermediates" "hops \<in> {2, 3, 4}"
  shows "r \<in> set (all_routes byPair start intermediates hops) \<longleftrightarrow>
    valid_cycle byPair r \<and> length (rHops r) = hops \<and> hd (rSymbols r) = start
      \<and> set (rSymbols r) \<subseteq> insert start (set intermediates)" (is "?L \<longleftrightarrow> ?R")
proof
  assume ?L
  then obtain path where p: "length path = hops - 1" "distinct path" "set path \<subseteq> set intermediates"
    and r: "rSymbols r = start # path @ [start]"
      "list_all2 (\<lambda>pool pair. pool \<in> set (byPair pair)) (rHops r) (zip (rSymbols r) (tl (rSymbols r)))"
    by (auto simp: all_routes_def set_permutations assms(1) path_routes_mem)
  have "length (rHops r) = hops"
    using list_all2_lengthD [OF r(2)] p(1) r(1) assms(3) by auto
  with p r assms show ?R by (auto simp: valid_cycle_def Let_def butlast_append)
next
  assume R: ?R
  let ?s = "rSymbols r"
  have s: "3 \<le> length ?s" "hd ?s = last ?s" "distinct (butlast ?s)" "hd ?s = start"
    and h: "list_all2 (\<lambda>pool pair. pool \<in> set (byPair pair)) (rHops r) (zip ?s (tl ?s))"
    using R by (auto simp: valid_cycle_def Let_def)
  obtain path where path: "?s = start # path @ [start]"
    using s by (cases ?s; cases "tl ?s" rule: rev_cases) auto
  have "distinct (start # path)" using s(3) path by (simp add: butlast_append)
  moreover have "set path \<subseteq> insert start (set intermediates)" using R path by auto
  moreover have "length path = hops - 1"
    using list_all2_lengthD [OF h] R path by auto
  ultimately show ?L
    using h path assms by (auto simp: all_routes_def set_permutations path_routes_mem)
qed

section \<open>Limits\<close>

lemma splitLimit_3:
  assumes "0 \<le> m"
  shows "splitLimit m 3 =
    [m div 3 + (if 0 < m mod 3 then 1 else 0), m div 3 + (if 1 < m mod 3 then 1 else 0), m div 3]"
proof -
  have "m mod 3 \<le> 2" using pos_mod_bound [of 3 m] by linarith
  then show ?thesis using assms by (simp add: splitLimit_def Let_def upt_rec numeral_eq_Suc)
qed

lemma hop_routes_zero:
  assumes "1 \<le> l"
  shows "hop_routes byPair start ims 0 h l = take (nat l) (all_routes byPair start ims h)"
  using assms by (simp add: hop_routes_def Let_def all_routes_def paths_loop_eq)

lemma hop_routes_length: "int (length (hop_routes byPair start ims share h l)) \<le> max 0 l"
  by (simp add: hop_routes_def Let_def)

lemma set_prioritize: "set (prioritizeTwoHopCrossVenue rs limit share) \<subseteq> set rs"
  unfolding prioritizeTwoHopCrossVenue_def Let_def
  by (auto dest!: in_set_takeD in_set_dropD split: if_splits)

lemma hop_routes_subset: "set (hop_routes byPair start ims share h l) \<subseteq> set (all_routes byPair start ims h)"
proof -
  have "set (paths_loop byPair start l c (permutations ims (h - 1)) []) \<subseteq> set (all_routes byPair start ims h)" for c
    using paths_loop_subset [of byPair start l c "permutations ims (h - 1)" "[]"]
    by (simp add: all_routes_def)
  moreover have "set (hop_routes byPair start ims share h l) \<subseteq>
      set (paths_loop byPair start l (if h = 2 \<and> 0 < share then l * 16 else l) (permutations ims (h - 1)) [])"
    unfolding hop_routes_def Let_def
    by (auto dest!: in_set_takeD set_prioritize [THEN subsetD] split: if_splits)
  ultimately show ?thesis by blast
qed

lemma hops_loop_subset:
  "set (hops_loop byPair start ims m share hl acc) \<subseteq>
     set acc \<union> (\<Union>h\<in>fst ` set hl. set (all_routes byPair start ims h))"
proof (induction hl arbitrary: acc)
  case Nil
  then show ?case by simp
next
  case (Cons x hl)
  obtain h l where x: "x = (h, l)" by (cases x)
  let ?out = "acc @ hop_routes byPair start ims share h l"
  show ?case
    using Cons.IH [of acc] Cons.IH [of ?out] hop_routes_subset [of byPair start ims share h l]
    by (auto simp: x Let_def dest!: in_set_takeD)
qed

lemma hops_loop_length:
  "int (length acc) \<le> m \<Longrightarrow> int (length (hops_loop byPair start ims m share hl acc)) \<le> m"
  by (induction byPair start ims m share hl acc rule: hops_loop.induct) (auto simp: Let_def)

lemma sum_snd_nonneg: "\<forall>x\<in>set xs. 0 \<le> (snd x :: int) \<Longrightarrow> 0 \<le> sum_list (map snd xs)"
  by (induction xs) auto

lemma sum_snd_zero:
  "\<forall>x\<in>set xs. 0 \<le> (snd x :: int) \<Longrightarrow> sum_list (map snd xs) \<le> 0 \<Longrightarrow> \<forall>x\<in>set xs. snd x = 0"
proof (induction xs)
  case (Cons x xs)
  then show ?case using sum_snd_nonneg [of xs] by auto
qed simp

lemma hops_loop_zero:
  "int (length acc) + sum_list (map snd hl) \<le> m \<Longrightarrow> \<forall>x\<in>set hl. 0 \<le> snd x \<Longrightarrow>
   hops_loop byPair start ims m 0 hl acc =
     acc @ concat (map (\<lambda>(h, l). take (nat l) (all_routes byPair start ims h)) hl)"
proof (induction hl arbitrary: acc)
  case Nil
  then show ?case by simp
next
  case (Cons x hl)
  obtain h l where x: "x = (h, l)" by (cases x)
  let ?acc = "acc @ take (nat l) (all_routes byPair start ims h)"
  have nn: "0 \<le> sum_list (map snd hl)" using Cons.prems(2) by (intro sum_snd_nonneg) simp
  have l0: "0 \<le> l" using Cons.prems(2) by (simp add: x)
  then have len: "int (length ?acc) \<le> int (length acc) + l" by simp
  consider "l < 1" | "1 \<le> l" "m \<le> int (length ?acc)" | "1 \<le> l" "int (length ?acc) < m" by linarith
  then show ?case
  proof cases
    case 1
    then show ?thesis using l0 Cons by (simp add: x)
  next
    case 2
    have "\<forall>x\<in>set hl. snd x = 0"
      by (rule sum_snd_zero) (use Cons.prems len 2 in \<open>simp_all add: x\<close>)
    then have "concat (map (\<lambda>(h, l). take (nat l) (all_routes byPair start ims h)) hl) = []"
      by auto
    moreover have "length ?acc \<le> nat m" using Cons.prems(1) len nn by (simp add: x)
    ultimately have "take (nat m) ?acc = acc @ concat (map (\<lambda>(h, l). take (nat l)
        (all_routes byPair start ims h)) (x # hl))"
      by (simp add: x del: length_append length_take take_append)
    then show ?thesis
      using 2 by (simp add: x hop_routes_zero Let_def del: length_append length_take take_append)
  next
    case 3
    have "hops_loop byPair start ims m 0 hl ?acc =
        ?acc @ concat (map (\<lambda>(h, l). take (nat l) (all_routes byPair start ims h)) hl)"
      by (rule Cons.IH) (use Cons.prems len in \<open>simp_all add: x\<close>)
    then show ?thesis
      using 3 by (simp add: x hop_routes_zero Let_def del: length_append length_take)
  qed
qed

text \<open>
  C12: the bounded recursive search over one start asset is exactly the reference enumeration cut
  to the share of each hop depth: the \<open>l\<close> first elements, in order, of the Cartesian products of
  pool choices over all paths, for 2, 3 and 4 hops. No combination is skipped or repeated.
\<close>

theorem buildFrom_exact:
  "buildFrom start ims byPair maximum =
     concat (map (\<lambda>(hops, l). take (nat l) (all_routes byPair start ims hops))
       (zip [2, 3, 4] (splitLimit maximum 3)))"
proof (cases "maximum < 1")
  case True
  then have "maximum \<le> 0" by simp
  then have "\<forall>l\<in>set (splitLimit maximum 3). l \<le> 0"
  proof -
    have q: "big_quo maximum 3 \<le> 0" "big_rem maximum 3 \<le> 0"
      using \<open>maximum \<le> 0\<close> by (auto simp: big_quo_def big_rem_def sgn_if)
    then show ?thesis by (auto simp: splitLimit_def Let_def)
  qed
  then have "concat (map (\<lambda>(hops, l). take (nat l) (all_routes byPair start ims hops))
      (zip [2, 3, 4] (splitLimit maximum 3))) = []"
    by (auto dest!: set_zip_rightD)
  with True show ?thesis by (simp add: buildFrom_def buildFromWithShare_def)
next
  case False
  define a where "a = maximum div 3 + (if 0 < maximum mod 3 then 1 else 0)"
  define b where "b = maximum div 3 + (if 1 < maximum mod 3 then 1 else 0)"
  define c where "c = maximum div 3"
  have split: "splitLimit maximum 3 = [a, b, c]"
    using False by (simp add: splitLimit_3 a_def b_def c_def)
  have pos: "0 \<le> a" "0 \<le> b" "0 \<le> c" using False by (auto simp: a_def b_def c_def)
  have tot: "a + b + c = maximum"
  proof -
    define r where "r = maximum mod 3"
    have "0 \<le> r" "r < 3" "maximum = 3 * (maximum div 3) + r" by (simp_all add: r_def)
    then show ?thesis unfolding a_def b_def c_def r_def [symmetric] by presburger
  qed
  let ?A = "\<lambda>h l. take (nat l) (all_routes byPair start ims h)"

  have "hops_loop byPair start ims maximum 0 [(2, a), (3, b), (4, c)] []
      = [] @ concat (map (\<lambda>(hops, l). ?A hops l) [(2, a), (3, b), (4, c)])"
    by (rule hops_loop_zero) (use pos tot in simp_all)
  then show ?thesis
    using False by (simp add: buildFrom_def buildFromWithShare_def split)
qed

text \<open>
  C19: when the budget of each hop depth is large enough, the search returns exactly the well-formed
  2- to 4-hop cycles that start at the given asset.
\<close>

theorem buildFrom_complete:
  assumes "distinct ims" and "start \<notin> set ims"
    and "list_all (\<lambda>(hops, l). int (length (all_routes byPair start ims hops)) \<le> l)
           (zip [2, 3, 4] (splitLimit maximum 3))"
  shows "set (buildFrom start ims byPair maximum) =
    {r. valid_cycle byPair r \<and> hd (rSymbols r) = start \<and> set (rSymbols r) \<subseteq> insert start (set ims)}"
proof -
  let ?z = "zip [2, 3, 4] (splitLimit maximum 3)"
  have "length (splitLimit maximum 3) = 3" by (simp add: splitLimit_def Let_def)
  then have fz: "map fst ?z = [2, 3, 4]" by simp
  have "set (buildFrom start ims byPair maximum) = (\<Union>(h, l)\<in>set ?z. set (all_routes byPair start ims h))"
    unfolding buildFrom_exact set_concat set_map UN_simps
    using assms(3) by (intro SUP_cong refl) (auto simp: list_all_iff)
  also have "\<dots> = (\<Union>h\<in>set (map fst ?z). set (all_routes byPair start ims h))" by auto
  also have "\<dots> = (\<Union>h\<in>{2, 3, 4}. set (all_routes byPair start ims h))" by (simp only: fz) simp
  also have "\<dots> = {r. valid_cycle byPair r \<and> hd (rSymbols r) = start
      \<and> set (rSymbols r) \<subseteq> insert start (set ims)}" (is "?L = ?R")
  proof
    show "?L \<subseteq> ?R" using all_routes_mem [OF assms(1,2)] by blast
    show "?R \<subseteq> ?L"
    proof
      fix r assume r: "r \<in> ?R"
      then have "length (rHops r) = length (rSymbols r) - 1" "3 \<le> length (rSymbols r)" "length (rSymbols r) \<le> 5"
        by (auto simp: valid_cycle_def Let_def dest!: list_all2_lengthD)
      then have "length (rHops r) \<in> {2, 3, 4}" by auto
      then show "r \<in> ?L" using r all_routes_mem [OF assms(1,2)] by blast
    qed
  qed
  finally show ?thesis .
qed

section \<open>The builders over all start assets\<close>

lemma uniqueSorted_props [simp]:
  "distinct (uniqueSorted vs)" "set (uniqueSorted vs) = set vs - {''''}" "sorted (uniqueSorted vs)"
  by (auto simp: uniqueSorted_def)

lemma buildFromWithShare_length:
  "int (length (buildFromWithShare start ims byPair m share)) \<le> max 0 m"
  by (auto simp: buildFromWithShare_def intro: order.trans [OF hops_loop_length])

lemma buildFromWithShare_valid:
  assumes "distinct ims" "start \<notin> set ims" "r \<in> set (buildFromWithShare start ims byPair m share)"
  shows "valid_cycle byPair r \<and> hd (rSymbols r) = start \<and> set (rSymbols r) \<subseteq> insert start (set ims)"
proof -
  have "fst ` set (zip [2, 3, 4] (splitLimit m 3)) \<subseteq> {2, 3, 4}"
    by (auto dest!: set_zip_leftD)
  then obtain h where "h \<in> {2, 3, 4}" "r \<in> set (all_routes byPair start ims h)"
    using assms(3) hops_loop_subset [of byPair start ims m share "zip [2, 3, 4] (splitLimit m 3)" "[]"]
    unfolding buildFromWithShare_def by (fastforce split: if_splits)
  then show ?thesis using all_routes_mem [OF assms(1,2)] by blast
qed

definition built_ok :: "string list \<Rightarrow> string list \<Rightarrow> by_pair \<Rightarrow> Route \<Rightarrow> bool" where
  "built_ok starts assets byPair r \<longleftrightarrow> valid_cycle byPair r \<and> hd (rSymbols r) \<in> set starts
     \<and> set (tl (butlast (rSymbols r))) \<subseteq> set assets"

lemma starts_loop_ok:
  assumes "distinct assets" "list_all (built_ok allStarts assets byPair) acc" "set starts \<subseteq> set allStarts"
  shows "list_all (built_ok allStarts assets byPair)
    (starts_loop assets byPair maxRoutes perAsset share starts acc)"
  using assms(2,3)
proof (induction starts arbitrary: acc)
  case Nil
  then show ?case by simp
next
  case (Cons s starts)
  let ?ims = "filter (\<lambda>a. a \<noteq> s) assets"
  have new: "list_all (built_ok allStarts assets byPair) (buildFromWithShare s ?ims byPair l share)" for l
    unfolding list_all_iff
  proof
    fix r assume r: "r \<in> set (buildFromWithShare s ?ims byPair l share)"
    have v: "valid_cycle byPair r" "hd (rSymbols r) = s" "set (rSymbols r) \<subseteq> insert s (set ?ims)"
      using buildFromWithShare_valid [OF _ _ r] assms(1) by auto
    have sym: "rSymbols r = s # tl (butlast (rSymbols r)) @ [s]" "s \<notin> set (tl (butlast (rSymbols r)))"
      using v by (cases "rSymbols r"; cases "tl (rSymbols r)" rule: rev_cases;
          auto simp: valid_cycle_def Let_def butlast_append)+
    have "set (tl (butlast (rSymbols r))) \<subseteq> set (rSymbols r)"
      by (subst (2) sym(1)) auto
    then have "set (tl (butlast (rSymbols r))) \<subseteq> set assets" using v(3) sym(2) by auto
    then show "built_ok allStarts assets byPair r"
      using v Cons.prems(2) by (simp add: built_ok_def)
  qed
  show ?case
    using Cons new by (auto simp: Let_def)
qed

lemma starts_loop_length:
  assumes "0 \<le> perAsset" "int (length acc) \<le> maxRoutes"
  shows "int (length (starts_loop assets byPair maxRoutes perAsset share starts acc)) \<le> maxRoutes"
  using assms(2)
proof (induction starts arbitrary: acc)
  case Nil
  then show ?case by simp
next
  case (Cons s starts)
  let ?l = "if perAsset > maxRoutes - int (length acc) then maxRoutes - int (length acc) else perAsset"
  let ?acc = "acc @ buildFromWithShare s (filter (\<lambda>a. a \<noteq> s) assets) byPair ?l share"
  have "int (length ?acc) \<le> maxRoutes"
    using buildFromWithShare_length [of s "filter (\<lambda>a. a \<noteq> s) assets" byPair ?l share] assms(1) Cons.prems
    by (auto split: if_splits)
  then show ?case using Cons.IH [of ?acc] by (simp add: Let_def)
qed

lemma build_ok:
  "list_all (built_ok starts assets byPair) (BuildForStartsWithCrossVenueShare starts assets byPair maxRoutes share)
   \<and> int (length (BuildForStartsWithCrossVenueShare starts assets byPair maxRoutes share)) \<le> max 0 maxRoutes"
proof -
  let ?s = "uniqueSorted starts" and ?a = "uniqueSorted assets"
  have "list_all (built_ok ?s ?a byPair) (starts_loop ?a byPair maxRoutes p share ?s [])" for p
    by (rule starts_loop_ok) simp_all
  then have "list_all (built_ok starts assets byPair) (starts_loop ?a byPair maxRoutes p share ?s [])" for p
    by (rule list.pred_mono_strong) (auto simp: built_ok_def)
  moreover have "int (length (starts_loop ?a byPair maxRoutes (big_quo (maxRoutes + int (length ?s) - 1) (int (length ?s))) share ?s [])) \<le> maxRoutes"
    if "1 \<le> maxRoutes" "?s \<noteq> []"
    by (rule starts_loop_length) (use that in \<open>simp_all add: pos_imp_zdiv_nonneg_iff\<close>)
  ultimately show ?thesis
    by (auto simp: BuildForStartsWithCrossVenueShare_def Let_def not_less)
qed

text \<open>
  C4: every route the engine builds, for any start assets, market assets, pool table, budget and
  cross-venue share, is a cycle of 2 to 4 hops that returns to a requested start asset, visits only
  known and pairwise distinct assets in between, and uses for every hop a pool that was discovered
  for exactly that ordered pair; the number of routes stays within the budget.
\<close>

theorem build_routes_valid:
  "list_all (built_ok starts assets byPair) (BuildForStartsWithCrossVenueShare starts assets byPair maxRoutes share)
   \<and> int (length (BuildForStartsWithCrossVenueShare starts assets byPair maxRoutes share)) \<le> max 0 maxRoutes"
  by (rule build_ok)

text \<open>
  Of the two-hop routes a venue-crossing share is reserved: if the limit allows, at least the
  reserved number of them survive (all of them if there are fewer), the result never exceeds the
  limit nor loses a route that fits, and it is a sub-multiset of what was found.
\<close>

theorem prioritize_cross_venue:
  assumes "0 \<le> limit" and "0 \<le> share" and "share \<le> 10000"
  shows "(let out = prioritizeTwoHopCrossVenue rs limit share in
    min (length (filter is_cross_venue rs)) (nat (limit * share div 10000)) \<le> length (filter is_cross_venue out)
    \<and> length out = min (length rs) (nat limit) \<and> mset out \<subseteq># mset rs)"
proof -
  let ?c = "filter is_cross_venue rs" and ?s = "filter (\<lambda>r. \<not> is_cross_venue r) rs"
  define k where "k = min (length ?c) (nat (limit * share div 10000))"
  have q: "big_quo (limit * share) 10000 = limit * share div 10000" "0 \<le> limit * share div 10000"
    using assms by (simp_all add: pos_imp_zdiv_nonneg_iff)
  have out: "prioritizeTwoHopCrossVenue rs limit share = take k ?c @ take (nat limit - k) (drop k ?c @ ?s)"
  proof -
    have "nat (if big_quo (limit * share) 10000 > int (length ?c) then int (length ?c)
        else big_quo (limit * share) 10000) = k"
      using q by (auto simp: k_def min_def nat_le_iff)
    moreover have "length (take k ?c) = k" "nat (limit - int k) = nat limit - k"
      using assms(1) by (auto simp: k_def)
    ultimately show ?thesis
      by (simp only: prioritizeTwoHopCrossVenue_def Let_def)
  qed
  have "limit * share \<le> limit * 10000" using assms by (intro mult_left_mono) auto
  then have "limit * share div 10000 \<le> limit"
    using zdiv_mono1 [of "limit * share" "limit * 10000" 10000] by simp
  then have "nat (limit * share div 10000) \<le> nat limit" by (rule nat_mono)
  then have kl: "k \<le> nat limit" by (simp add: k_def min.coboundedI2)
  have kc: "k \<le> length ?c" by (simp add: k_def)
  have len: "length ?c + length ?s = length rs" by (rule sum_length_filter_compl)
  have ms: "mset ?c + mset ?s = mset rs" by simp
  have "mset (take (nat limit - k) (drop k ?c @ ?s)) \<subseteq># mset (drop k ?c @ ?s)"
    by (metis append_take_drop_id mset_append mset_subset_eq_add_left)
  then have "mset (prioritizeTwoHopCrossVenue rs limit share) \<subseteq># mset (take k ?c) + mset (drop k ?c @ ?s)"
    by (simp add: out)
  also have "\<dots> = mset rs"
    using ms by (metis append.assoc append_take_drop_id mset_append)
  finally have "mset (prioritizeTwoHopCrossVenue rs limit share) \<subseteq># mset rs" .
  moreover have "filter is_cross_venue (take k ?c) = take k ?c"
    by (auto simp: filter_id_conv dest: in_set_takeD)
  then have "k \<le> length (filter is_cross_venue (prioritizeTwoHopCrossVenue rs limit share))"
    using kc by (simp add: out)
  moreover have "length (prioritizeTwoHopCrossVenue rs limit share) = min (length rs) (nat limit)"
  proof -
    have "length (prioritizeTwoHopCrossVenue rs limit share)
        = k + min (length ?c - k + length ?s) (nat limit - k)"
      using kc by (simp add: out del: take_append)
    then show ?thesis using kl kc len by linarith
  qed
  ultimately show ?thesis by (simp add: Let_def k_def)
qed

section \<open>Equal shares\<close>

text \<open>
  When the number of start assets divides the route budget, every start asset gets the same
  budget, whatever the others found: the result is the concatenation of the independent searches.
\<close>

theorem build_equal_share:
  assumes "2 \<le> length (uniqueSorted assets)" and "0 < k"
  shows "BuildForStartsWithCrossVenueShare starts assets byPair (k * int (length (uniqueSorted starts))) share =
    concat (map (\<lambda>s. buildFromWithShare s (filter (\<lambda>a. a \<noteq> s) (uniqueSorted assets)) byPair k share)
      (uniqueSorted starts))"
proof (cases "uniqueSorted starts = []")
  case True
  then show ?thesis by (simp add: BuildForStartsWithCrossVenueShare_def)
next
  case False
  let ?n = "int (length (uniqueSorted starts))"
  have n: "1 \<le> ?n" using False by (cases "uniqueSorted starts") auto
  have kn: "1 \<le> k * ?n" using n assms(2) by (metis int_one_le_iff_zero_less mult_pos_pos)
  have "(k * ?n + ?n - 1) div ?n = k + (?n - 1) div ?n"
    using False n div_mult_self1 [of ?n "?n - 1" k] by (simp add: algebra_simps)
  moreover have "(?n - 1) div ?n = 0" using n by (intro div_pos_pos_trivial) linarith+
  ultimately have per: "big_quo (k * ?n + ?n - 1) ?n = k"
    using n kn by (subst big_quo_nonneg) (linarith, linarith, simp)
  have "starts_loop (uniqueSorted assets) byPair (k * ?n) k share ss acc =
      acc @ concat (map (\<lambda>s. buildFromWithShare s (filter (\<lambda>a. a \<noteq> s) (uniqueSorted assets)) byPair k share) ss)"
    if "int (length acc) + k * int (length ss) \<le> k * ?n" for ss acc
    using that
  proof (induction ss arbitrary: acc)
    case Nil
    then show ?case by simp
  next
    case (Cons s ss)
    let ?new = "buildFromWithShare s (filter (\<lambda>a. a \<noteq> s) (uniqueSorted assets)) byPair k share"
    have len: "int (length ?new) \<le> k" using buildFromWithShare_length [of s _ byPair k share] assms(2)
      by (simp add: max_def)
    have "0 \<le> k * int (length ss)" using assms(2) by simp
    then have room: "k \<le> k * ?n - int (length acc)"
      using Cons.prems unfolding length_Cons of_nat_Suc distrib_left by linarith
    show ?case
    proof (cases "k * ?n \<le> int (length (acc @ ?new))")
      case True
      then have "k * int (length ss) \<le> 0" using Cons.prems len by (simp add: algebra_simps)
      then have "ss = []" using assms(2) by (simp add: mult_le_0_iff)
      then show ?thesis using room by (simp add: Let_def)
    next
      case False
      have "starts_loop (uniqueSorted assets) byPair (k * ?n) k share ss (acc @ ?new) = (acc @ ?new) @
        concat (map (\<lambda>s. buildFromWithShare s (filter (\<lambda>a. a \<noteq> s) (uniqueSorted assets)) byPair k share) ss)"
        by (rule Cons.IH) (use Cons.prems len in \<open>simp add: algebra_simps\<close>)
      then show ?thesis using room False by (simp add: Let_def)
    qed
  qed
  from this [of "[]" "uniqueSorted starts"] show ?thesis
    using False assms(1) kn per by (simp add: BuildForStartsWithCrossVenueShare_def Let_def)
qed

section \<open>Concrete inputs\<close>

definition demo_pool :: "string \<Rightarrow> DEX \<Rightarrow> Pool" where
  "demo_pool address dex = \<lparr>pAddress = address, pToken0 = ''A'', pToken1 = ''B'', pDEX = dex, pFee = 500,
     pLiquidity = Some 1, pSqrtPriceX96 = Some 1, pLastUpdatedBlock = 1\<rparr>"

definition demo_pairs :: by_pair where
  "demo_pairs pair =
     (if pair = (''A'', ''B'') \<or> pair = (''B'', ''A'') then [demo_pool ''0x1'' UniswapV3] else [])"

definition demo_route :: Route where
  "demo_route = mk_route [''A'', ''B'', ''A''] [demo_pool ''0x1'' UniswapV3, demo_pool ''0x1'' UniswapV3]"

lemma demo_all_routes:
  "all_routes demo_pairs ''A'' [''B''] 2 = [demo_route]"
  "all_routes demo_pairs ''A'' [''B''] 3 = []"
  "all_routes demo_pairs ''A'' [''B''] 4 = []"
  by (simp_all add: all_routes_def permutations_def perm_walk.simps path_routes_def demo_pairs_def
      demo_route_def)

theorem buildFrom_complete_witness:
  "demo_route \<in> {r. valid_cycle demo_pairs r \<and> hd (rSymbols r) = ''A''
     \<and> set (rSymbols r) \<subseteq> insert ''A'' (set [''B''])}"
proof -
  have s: "splitLimit 3 3 = [1, 1, 1]" by (simp add: splitLimit_3)
  have "demo_route \<in> set (buildFrom ''A'' [''B''] demo_pairs 3)"
    by (simp add: buildFrom_def buildFromWithShare_def s hop_routes_zero demo_all_routes Let_def)
  then show ?thesis
    using buildFrom_complete [of "[''B'']" "''A''" demo_pairs 3]
    by (simp add: s demo_all_routes)
qed

definition cross_route :: Route where
  "cross_route = mk_route [''A'', ''B'', ''A''] [demo_pool ''0x1'' UniswapV3, demo_pool ''0x2'' CamelotV3]"

theorem prioritize_cross_venue_witness:
  "1 \<le> length (filter is_cross_venue (prioritizeTwoHopCrossVenue [demo_route, demo_route, cross_route] 2 5000))"
  using prioritize_cross_venue [of 2 5000 "[demo_route, demo_route, cross_route]"]
  by (simp add: Let_def is_cross_venue_def demo_route_def cross_route_def demo_pool_def)

theorem build_equal_share_witness:
  "BuildForStartsWithCrossVenueShare [''A'', ''B''] [''A'', ''B''] demo_pairs 6 0 =
     buildFromWithShare ''A'' [''B''] demo_pairs 3 0 @ buildFromWithShare ''B'' [''A''] demo_pairs 3 0"
proof -
  have u: "uniqueSorted [''A'', ''B''] = [''A'', ''B'']"
    by (simp add: uniqueSorted_def sorted_keys_def less_char_def)
  show ?thesis
    using build_equal_share [of "[''A'', ''B'']" 3 "[''A'', ''B'']" demo_pairs 0] by (simp add: u)
qed

text \<open>
  The shares are not equal when the number of start assets does not divide the budget: the budget
  per asset is rounded up, so a late asset may get nothing although it has cycles. Here three
  assets share a budget of four; the third gets no route.
\<close>

definition full_pairs :: by_pair where
  "full_pairs pair = (if fst pair \<noteq> snd pair then [demo_pool ''0x1'' UniswapV3] else [])"

lemma build_share_starves:
  "(let rs = BuildForStartsWithCrossVenueShare [''A'', ''B'', ''C''] [''A'', ''B'', ''C''] full_pairs 4 0 in
    map (\<lambda>r. hd (rSymbols r)) rs = [''A'', ''A'', ''B'', ''B''])
   \<and> all_routes full_pairs ''C'' [''A'', ''B''] 2 \<noteq> []"
proof -
  have u: "uniqueSorted [''A'', ''B'', ''C''] = [''A'', ''B'', ''C'']"
    by (simp add: uniqueSorted_def sorted_keys_def less_char_def)
  have s: "splitLimit 2 3 = [1, 1, 0]" by (simp add: splitLimit_3)
  have q: "big_quo 6 3 = 2" by simp
  have p: "permutations [''B'', ''C''] 1 = [[''B''], [''C'']]" "permutations [''A'', ''C''] 1 = [[''A''], [''C'']]"
    "permutations [''A'', ''B''] 1 = [[''A''], [''B'']]"
    "permutations [''B'', ''C''] 2 = [[''B'', ''C''], [''C'', ''B'']]"
    "permutations [''A'', ''C''] 2 = [[''A'', ''C''], [''C'', ''A'']]"
    by (simp_all add: permutations_def perm_walk.simps less_char_def)
  have r: "take 1 (all_routes full_pairs ''A'' [''B'', ''C''] 2) =
      [mk_route [''A'', ''B'', ''A''] (replicate 2 (demo_pool ''0x1'' UniswapV3))]"
    "take 1 (all_routes full_pairs ''A'' [''B'', ''C''] 3) =
      [mk_route [''A'', ''B'', ''C'', ''A''] (replicate 3 (demo_pool ''0x1'' UniswapV3))]"
    "take 1 (all_routes full_pairs ''B'' [''A'', ''C''] 2) =
      [mk_route [''B'', ''A'', ''B''] (replicate 2 (demo_pool ''0x1'' UniswapV3))]"
    "take 1 (all_routes full_pairs ''B'' [''A'', ''C''] 3) =
      [mk_route [''B'', ''A'', ''C'', ''B''] (replicate 3 (demo_pool ''0x1'' UniswapV3))]"
    "all_routes full_pairs ''C'' [''A'', ''B''] 2 \<noteq> []"
    using p by (simp_all add: all_routes_def path_routes_def full_pairs_def numeral_eq_Suc)
  show ?thesis
    using r by (simp add: BuildForStartsWithCrossVenueShare_def u q Let_def buildFromWithShare_def s
        hop_routes_zero)
qed

end
