(* ===== verification/Graph.thy ===== *)
theory Graph
  imports Routes
begin

text \<open>
  \<open>go/internal/graph/graph.go\<close>: the directed views of two-sided pools and the depth-first
  enumeration of simple cycles. The graph is a record of the two maps of the struct; the mutex only
  serialises the operations, which are therefore plain state transformers. Reliability is a number
  that the code only clamps to the unit interval and stores.
\<close>

section \<open>State\<close>

record Edge =
  eFrom :: string
  eTo :: string
  ePool :: Pool
  eReliability :: rat

record Graph =
  byAddress :: "string \<rightharpoonup> string"
  edges :: "string \<rightharpoonup> Edge list"

definition clamp :: "rat \<Rightarrow> rat" where
  "clamp v = (if v < 0 then 0 else if v > 1 then 1 else v)"

text \<open>\<open>New\<close> reads (name, address) pairs; Go iterates the token map in some order.\<close>

definition New :: "(string \<times> string) list \<Rightarrow> Graph" where
  "New tokens = fold (\<lambda>(name, address) g.
       g\<lparr>byAddress := (byAddress g)(to_lower address \<mapsto> name), edges := (edges g)(name \<mapsto> [])\<rparr>)
     tokens \<lparr>byAddress = Map.empty, edges = Map.empty\<rparr>"

definition edges_at :: "Graph \<Rightarrow> string \<Rightarrow> Edge list" where
  "edges_at g a = (case edges g a of None \<Rightarrow> [] | Some es \<Rightarrow> es)"

section \<open>Updates\<close>

definition removePoolLocked :: "string \<Rightarrow> Graph \<Rightarrow> Graph" where
  "removePoolLocked address g =
     g\<lparr>edges := (\<lambda>a. map_option (filter (\<lambda>e. \<not> equal_fold (pAddress (ePool e)) address)) (edges g a))\<rparr>"

definition edge_less :: "Edge \<Rightarrow> Edge \<Rightarrow> bool" where
  "edge_less a b =
     (if eTo a \<noteq> eTo b then eTo a < eTo b
      else to_lower (pAddress (ePool a)) < to_lower (pAddress (ePool b)))"

definition sortLocked :: "string \<Rightarrow> Graph \<Rightarrow> Graph" where
  "sortLocked asset g = g\<lparr>edges := (edges g)(asset \<mapsto> sort_slice edge_less (edges_at g asset))\<rparr>"

definition add_edge :: "string \<Rightarrow> Edge \<Rightarrow> Graph \<Rightarrow> Graph" where
  "add_edge asset e g = g\<lparr>edges := (edges g)(asset \<mapsto> edges_at g asset @ [e])\<rparr>"

definition UpsertPool :: "Pool \<Rightarrow> rat \<Rightarrow> Graph \<Rightarrow> bool \<times> Graph" where
  "UpsertPool pool reliability g =
     (if \<not> big_pos (pLiquidity pool) then (False, g)
      else case (byAddress g (to_lower (pToken0 pool)), byAddress g (to_lower (pToken1 pool))) of
             (Some a, Some b) \<Rightarrow>
               if a = b then (False, g)
               else (True,
                 sortLocked b (sortLocked a
                   (add_edge b \<lparr>eFrom = b, eTo = a, ePool = pool, eReliability = clamp reliability\<rparr>
                   (add_edge a \<lparr>eFrom = a, eTo = b, ePool = pool, eReliability = clamp reliability\<rparr>
                   (removePoolLocked (to_lower (pAddress pool)) g)))))
           | _ \<Rightarrow> (False, g))"

section \<open>Cycles\<close>

text \<open>
  \<open>walk\<close> threads the result slice; the visited maps are restored on return, so they are passed as
  sets. \<open>hops_left\<close> is \<open>maxHops - len(hops)\<close>.
\<close>

function (sequential) walk :: "Graph \<Rightarrow> string \<Rightarrow> int \<Rightarrow> nat \<Rightarrow> string set \<Rightarrow> string set \<Rightarrow> string \<Rightarrow> string list
    \<Rightarrow> Pool list \<Rightarrow> Route list \<Rightarrow> Route list"
  and walk_edges :: "Graph \<Rightarrow> string \<Rightarrow> int \<Rightarrow> nat \<Rightarrow> string set \<Rightarrow> string set \<Rightarrow> Edge list \<Rightarrow> string list
    \<Rightarrow> Pool list \<Rightarrow> Route list \<Rightarrow> Route list" where
  "walk g asset limit hops_left visitedAssets visitedPools current assets hops result =
     (if limit \<le> int (length result) \<or> hops_left = 0 then result
      else walk_edges g asset limit (hops_left - 1) visitedAssets visitedPools (edges_at g current) assets hops result)"
| "walk_edges g asset limit hops_left visitedAssets visitedPools [] assets hops result = result"
| "walk_edges g asset limit hops_left visitedAssets visitedPools (e # es) assets hops result =
     (let poolKey = to_lower (pAddress (ePool e)) in
      if poolKey \<in> visitedPools
      then walk_edges g asset limit hops_left visitedAssets visitedPools es assets hops result
      else if eTo e = asset then
        walk_edges g asset limit hops_left visitedAssets visitedPools es assets hops
          (if 2 \<le> length hops + 1 then result @ [mk_route (assets @ [asset]) (hops @ [ePool e])] else result)
      else if eTo e \<in> visitedAssets
      then walk_edges g asset limit hops_left visitedAssets visitedPools es assets hops result
      else walk_edges g asset limit hops_left visitedAssets visitedPools es assets hops
             (walk g asset limit hops_left (insert (eTo e) visitedAssets) (insert poolKey visitedPools)
                (eTo e) (assets @ [eTo e]) (hops @ [ePool e]) result))"
  by pat_completeness auto
termination
  by (relation "measures [\<lambda>x. case x of Inl (_, _, _, n, _) \<Rightarrow> 2 * n | Inr (_, _, _, n, _) \<Rightarrow> 2 * n + 1,
       \<lambda>x. case x of Inl _ \<Rightarrow> 0 | Inr (_, _, _, _, _, _, es, _) \<Rightarrow> length es]") auto

declare walk.simps [simp del]

definition CyclesFrom :: "Graph \<Rightarrow> string \<Rightarrow> int \<Rightarrow> int \<Rightarrow> Route list" where
  "CyclesFrom g asset maxHops limit =
     (if maxHops < 2 \<or> limit < 1 then []
      else case edges g asset of
             None \<Rightarrow> []
           | Some _ \<Rightarrow> walk g asset limit (nat maxHops) {asset} {} asset [asset] [] [])"

text \<open>\<open>Cycles\<close> sorts the asset names, so the order of the map iteration does not matter.\<close>

definition Cycles :: "Graph \<Rightarrow> int \<Rightarrow> int \<Rightarrow> Route list" where
  "Cycles g maxHops perAssetLimit =
     concat (map (\<lambda>asset. CyclesFrom g asset maxHops perAssetLimit) (sorted_list_of_set (dom (edges g))))"

section \<open>Simple cycles\<close>

abbreviation pool_key :: "Pool \<Rightarrow> string" where
  "pool_key p \<equiv> to_lower (pAddress p)"

text \<open>A walk of the graph: consecutive assets are joined by an edge that carries the hop's pool.\<close>

fun chain :: "Graph \<Rightarrow> string list \<Rightarrow> Pool list \<Rightarrow> bool" where
  "chain g [a] [] = True"
| "chain g (a # b # as) (h # hs) =
     ((\<exists>e\<in>set (edges_at g a). eTo e = b \<and> ePool e = h) \<and> chain g (b # as) hs)"
| "chain g as hs = False"

definition simple_cycle :: "Graph \<Rightarrow> int \<Rightarrow> string \<Rightarrow> Route \<Rightarrow> bool" where
  "simple_cycle g maxHops asset r \<longleftrightarrow>
     chain g (rSymbols r) (rHops r) \<and> hd (rSymbols r) = asset \<and> last (rSymbols r) = asset
     \<and> distinct (butlast (rSymbols r)) \<and> distinct (map pool_key (rHops r))
     \<and> 2 \<le> length (rHops r) \<and> int (length (rHops r)) \<le> maxHops"

lemma chain_snoc:
  "chain g as hs \<Longrightarrow> e \<in> set (edges_at g (last as)) \<Longrightarrow> chain g (as @ [eTo e]) (hs @ [ePool e])"
  by (induction g as hs rule: chain.induct) auto

lemma chain_length: "chain g as hs \<Longrightarrow> length as = Suc (length hs)"
  by (induction g as hs rule: chain.induct) auto

text \<open>What holds of the arguments of \<open>walk\<close> on every call.\<close>

definition on_path :: "Graph \<Rightarrow> string \<Rightarrow> string set \<Rightarrow> string set \<Rightarrow> string list \<Rightarrow> Pool list \<Rightarrow> bool" where
  "on_path g asset visitedAssets visitedPools assets hops \<longleftrightarrow>
     chain g assets hops \<and> hd assets = asset \<and> distinct assets \<and> visitedAssets = set assets
     \<and> visitedPools = pool_key ` set hops \<and> distinct (map pool_key hops)"

lemma on_path_extend:
  assumes "on_path g asset va vp assets hops" "e \<in> set (edges_at g (last assets))"
    "pool_key (ePool e) \<notin> vp" "eTo e \<notin> va"
  shows "on_path g asset (insert (eTo e) va) (insert (pool_key (ePool e)) vp)
    (assets @ [eTo e]) (hops @ [ePool e])"
  using assms chain_length [of g assets hops] chain_snoc [of g assets hops e]
  by (cases assets) (auto simp: on_path_def)

lemma on_path_close:
  assumes "on_path g asset va vp assets hops" "e \<in> set (edges_at g (last assets))"
    "pool_key (ePool e) \<notin> vp" "eTo e = asset" "1 \<le> length hops" "int (length hops) < maxHops"
  shows "simple_cycle g maxHops asset (mk_route (assets @ [asset]) (hops @ [ePool e]))"
  using assms chain_length [of g assets hops] chain_snoc [of g assets hops e]
  by (cases assets) (auto simp: on_path_def simple_cycle_def)

lemma walk_sound:
  "list_all (simple_cycle g maxHops asset) result \<Longrightarrow> on_path g asset va vp assets hops \<Longrightarrow>
   last assets = current \<Longrightarrow> int (length hops) + int n = maxHops \<Longrightarrow>
   list_all (simple_cycle g maxHops asset) (walk g asset limit n va vp current assets hops result)"
  "list_all (simple_cycle g maxHops asset) result \<Longrightarrow> on_path g asset va vp assets hops \<Longrightarrow>
   set es \<subseteq> set (edges_at g (last assets)) \<Longrightarrow> int (length hops) + int n + 1 = maxHops \<Longrightarrow>
   list_all (simple_cycle g maxHops asset) (walk_edges g asset limit n va vp es assets hops result)"
proof (induction g asset limit n va vp current assets hops result
    and g asset limit n va vp es assets hops result rule: walk_walk_edges.induct)
  case (1 g asset limit n va vp current assets hops result)
  then show ?case by (subst walk.simps) (auto simp: of_nat_diff)
next
  case (2 g asset limit n va vp assets hops result)
  then show ?case by simp
next
  case (3 g asset limit n va vp e es assets hops result)
  let ?k = "pool_key (ePool e)"
  have e: "e \<in> set (edges_at g (last assets))" and es: "set es \<subseteq> set (edges_at g (last assets))"
    using "3.prems"(3) by auto
  consider "?k \<in> vp" | "?k \<notin> vp" "eTo e = asset" | "?k \<notin> vp" "eTo e \<noteq> asset" "eTo e \<in> va"
    | "?k \<notin> vp" "eTo e \<noteq> asset" "eTo e \<notin> va" by blast
  then show ?case
  proof cases
    case 1
    then show ?thesis using "3.IH"(1) [OF refl] "3.prems" es by simp
  next
    case 2
    have "list_all (simple_cycle g maxHops asset)
        (if 2 \<le> length hops + 1 then result @ [mk_route (assets @ [asset]) (hops @ [ePool e])] else result)"
      using 2 e "3.prems" on_path_close [of g asset va vp assets hops e maxHops] by auto
    then show ?thesis using "3.IH"(2) [OF refl 2] "3.prems" es 2 by (simp add: Let_def)
  next
    case 3
    then show ?thesis using "3.IH"(3) [OF refl 3] "3.prems" es by simp
  next
    case 4
    have "list_all (simple_cycle g maxHops asset)
        (walk g asset limit n (insert (eTo e) va) (insert ?k vp) (eTo e) (assets @ [eTo e]) (hops @ [ePool e]) result)"
      using "3.IH"(4) [OF refl 4] "3.prems" on_path_extend [OF "3.prems"(2) e] 4 by simp
    then show ?thesis using "3.IH"(5) [OF refl 4] "3.prems" es 4 by simp
  qed
qed

text \<open>
  C17: every cycle the graph reports for a loan asset starts and ends at it, visits every other asset
  once, uses every pool once, follows stored edges, and has between two and \<open>maxHops\<close> hops.
\<close>

theorem CyclesFrom_simple:
  "list_all (simple_cycle g maxHops asset) (CyclesFrom g asset maxHops limit)"
proof (cases "maxHops < 2 \<or> limit < 1 \<or> edges g asset = None")
  case True
  then show ?thesis by (auto simp: CyclesFrom_def split: option.splits)
next
  case False
  have "on_path g asset {asset} {} [asset] []" by (simp add: on_path_def)
  then have "list_all (simple_cycle g maxHops asset)
      (walk g asset limit (nat maxHops) {asset} {} asset [asset] [] [])"
    using False by (intro walk_sound(1)) auto
  with False show ?thesis by (auto simp: CyclesFrom_def)
qed

section \<open>The graph invariant\<close>

text \<open>
  An edge stored under an asset leaves it, leads to another known asset, carries a liquid pool whose
  two tokens are the two assets, and has its mirror image under the other asset; no asset lists a pool
  twice.
\<close>

definition edge_ok :: "Graph \<Rightarrow> string \<Rightarrow> Edge \<Rightarrow> bool" where
  "edge_ok g a e \<longleftrightarrow>
     eFrom e = a \<and> eTo e \<noteq> a \<and> big_pos (pLiquidity (ePool e)) \<and> 0 \<le> eReliability e \<and> eReliability e \<le> 1
     \<and> {byAddress g (to_lower (pToken0 (ePool e))), byAddress g (to_lower (pToken1 (ePool e)))} = {Some a, Some (eTo e)}
     \<and> e\<lparr>eFrom := eTo e, eTo := a\<rparr> \<in> set (edges_at g (eTo e))"

definition graph_ok :: "Graph \<Rightarrow> bool" where
  "graph_ok g \<longleftrightarrow>
     (\<forall>a. (\<forall>e\<in>set (edges_at g a). edge_ok g a e) \<and> distinct (map (pool_key \<circ> ePool) (edges_at g a)))"

lemma clamp_bounds [simp]: "0 \<le> clamp v" "clamp v \<le> 1"
  by (auto simp: clamp_def)

lemma New_edges: "edges_at (New tokens) a = []"
proof -
  have "\<forall>a. edges_at g a = [] \<Longrightarrow> edges_at (fold (\<lambda>(name, address) g.
       g\<lparr>byAddress := (byAddress g)(to_lower address \<mapsto> name), edges := (edges g)(name \<mapsto> [])\<rparr>) tokens g) a = []"
    for g :: Graph
    by (induction tokens arbitrary: g) (auto simp: edges_at_def)
  then show ?thesis by (auto simp: New_def edges_at_def)
qed

lemma graph_ok_New: "graph_ok (New tokens)"
  by (simp add: graph_ok_def New_edges)

text \<open>The lists after an update.\<close>

definition kept :: "Pool \<Rightarrow> Graph \<Rightarrow> string \<Rightarrow> Edge list" where
  "kept pool g c = filter (\<lambda>e. pool_key (ePool e) \<noteq> pool_key pool) (edges_at g c)"

lemma edges_at_removePool: "edges_at (removePoolLocked (pool_key pool) g) c = kept pool g c"
  by (auto simp: edges_at_def removePoolLocked_def kept_def equal_fold_def split: option.splits)

lemma edges_at_add_edge: "edges_at (add_edge a e g) c = (if c = a then edges_at g a @ [e] else edges_at g c)"
  by (simp add: edges_at_def add_edge_def)

lemma edges_at_sortLocked:
  "edges_at (sortLocked a g) c = (if c = a then sort_slice edge_less (edges_at g a) else edges_at g c)"
  by (simp add: edges_at_def sortLocked_def)

lemma byAddress_update [simp]:
  "byAddress (removePoolLocked k g) = byAddress g" "byAddress (add_edge a e g) = byAddress g"
  "byAddress (sortLocked a g) = byAddress g"
  by (simp_all add: removePoolLocked_def add_edge_def sortLocked_def)

lemma UpsertPool_accepts:
  assumes "UpsertPool pool r g = (True, g')"
  obtains a b where "a \<noteq> b" "big_pos (pLiquidity pool)" "byAddress g' = byAddress g"
    "byAddress g (to_lower (pToken0 pool)) = Some a" "byAddress g (to_lower (pToken1 pool)) = Some b"
    "\<And>c. mset (edges_at g' c) = mset (kept pool g c)
       + (if c = a then {#\<lparr>eFrom = a, eTo = b, ePool = pool, eReliability = clamp r\<rparr>#} else {#})
       + (if c = b then {#\<lparr>eFrom = b, eTo = a, ePool = pool, eReliability = clamp r\<rparr>#} else {#})"
proof -
  obtain a b where ab: "a \<noteq> b" "big_pos (pLiquidity pool)"
    "byAddress g (to_lower (pToken0 pool)) = Some a" "byAddress g (to_lower (pToken1 pool)) = Some b"
    and g': "g' = sortLocked b (sortLocked a
       (add_edge b \<lparr>eFrom = b, eTo = a, ePool = pool, eReliability = clamp r\<rparr>
       (add_edge a \<lparr>eFrom = a, eTo = b, ePool = pool, eReliability = clamp r\<rparr>
       (removePoolLocked (pool_key pool) g))))"
    using assms by (auto simp: UpsertPool_def split: if_splits option.splits)
  show thesis
    by (rule that [OF ab(1,2) _ ab(3,4)])
       (use ab(1) in \<open>auto simp: g' edges_at_sortLocked edges_at_add_edge edges_at_removePool\<close>)
qed

lemma UpsertPool_rejects: "UpsertPool pool r g = (False, g') \<Longrightarrow> g' = g"
  by (auto simp: UpsertPool_def split: if_splits option.splits)

lemma graph_ok_UpsertPool:
  assumes "graph_ok g" "UpsertPool pool r g = (True, g')"
  shows "graph_ok g'"
proof -
  from assms(2) obtain a b where ab: "a \<noteq> b" "big_pos (pLiquidity pool)" "byAddress g' = byAddress g"
    "byAddress g (to_lower (pToken0 pool)) = Some a" "byAddress g (to_lower (pToken1 pool)) = Some b"
    and ms: "\<And>c. mset (edges_at g' c) = mset (kept pool g c)
       + (if c = a then {#\<lparr>eFrom = a, eTo = b, ePool = pool, eReliability = clamp r\<rparr>#} else {#})
       + (if c = b then {#\<lparr>eFrom = b, eTo = a, ePool = pool, eReliability = clamp r\<rparr>#} else {#})"
    by (rule UpsertPool_accepts) blast
  let ?ab = "\<lparr>eFrom = a, eTo = b, ePool = pool, eReliability = clamp r\<rparr>"
  let ?ba = "\<lparr>eFrom = b, eTo = a, ePool = pool, eReliability = clamp r\<rparr>"
  have set': "set (edges_at g' c) = set (kept pool g c) \<union> (if c = a then {?ab} else {}) \<union> (if c = b then {?ba} else {})" for c
    using arg_cong [OF ms [of c], of set_mset] ab(1) by auto
  have kept: "edge_ok g c e" "pool_key (ePool e) \<noteq> pool_key pool" if "e \<in> set (kept pool g c)" for c e
    using that assms(1) by (auto simp: kept_def graph_ok_def)
  have mirror: "e\<lparr>eFrom := eTo e, eTo := c\<rparr> \<in> set (kept pool g (eTo e))" if "e \<in> set (kept pool g c)" for c e
    using kept [OF that] by (auto simp: edge_ok_def kept_def)
  show ?thesis
    unfolding graph_ok_def
  proof (intro allI conjI ballI)
    fix c e assume e: "e \<in> set (edges_at g' c)"
    show "edge_ok g' c e"
    proof (cases "e \<in> set (kept pool g c)")
      case True
      then show ?thesis using kept [OF True] mirror [OF True] ab(3) by (auto simp: edge_ok_def set')
    next
      case False
      then have "c = a \<and> e = ?ab \<or> c = b \<and> e = ?ba" using e by (auto simp: set' split: if_splits)
      then show ?thesis using ab by (auto simp: edge_ok_def set')
    qed
  next
    fix c
    have "distinct (map (pool_key \<circ> ePool) (kept pool g c))"
      using assms(1) by (auto simp: graph_ok_def kept_def distinct_map_filter)
    moreover have "pool_key pool \<notin> set (map (pool_key \<circ> ePool) (kept pool g c))"
      by (auto simp: kept_def)
    ultimately have "distinct (map (pool_key \<circ> ePool) (kept pool g c @ (if c = a then [?ab] else []) @ (if c = b then [?ba] else [])))"
      using ab(1) by auto
    moreover have "mset (map (pool_key \<circ> ePool) (edges_at g' c))
        = mset (map (pool_key \<circ> ePool) (kept pool g c @ (if c = a then [?ab] else []) @ (if c = b then [?ba] else [])))"
      using ms [of c] by (simp add: mset_map)
    ultimately show "distinct (map (pool_key \<circ> ePool) (edges_at g' c))"
      using mset_eq_imp_distinct_iff by blast
  qed
qed

text \<open>Every graph the engine can hold: a new one, or one after any number of updates.\<close>

definition graph_init :: "Graph \<Rightarrow> bool" where
  "graph_init g \<longleftrightarrow> (\<exists>tokens. g = New tokens)"

definition graph_step :: "Graph \<Rightarrow> Graph \<Rightarrow> bool" where
  "graph_step g g' \<longleftrightarrow> (\<exists>pool r. g' = snd (UpsertPool pool r g))"

interpretation graph_sys: step_system graph_init graph_step graph_ok
proof
  show "graph_init s \<Longrightarrow> graph_ok s" for s by (auto simp: graph_init_def graph_ok_New)
  show "graph_ok s \<Longrightarrow> graph_step s t \<Longrightarrow> graph_ok t" for s t
    using graph_ok_UpsertPool UpsertPool_rejects unfolding graph_step_def
    by (metis (full_types) prod.collapse)
qed

lemma edge_ok_Supports:
  assumes "edge_ok g a e" "byAddress g (to_lower x) = Some a" "byAddress g (to_lower y) = Some (eTo e)"
    and "\<forall>k k' n. byAddress g k = Some n \<longrightarrow> byAddress g k' = Some n \<longrightarrow> k = k'"
  shows "Supports (ePool e) x y"
  using assms unfolding edge_ok_def Supports_def equal_fold_def
  by (metis doubleton_eq_iff option.inject)

text \<open>
  C16: in every graph built by \<open>New\<close> and any sequence of \<open>UpsertPool\<close> calls, every stored edge leaves
  its asset for another known asset through a liquid pool on exactly these two tokens, has a mirror
  edge, and no asset lists a pool address twice, so an updated pool replaces its old state.
\<close>

theorem graph_reachable_ok:
  assumes "graph_init g\<^sub>0" and "graph_step\<^sup>*\<^sup>* g\<^sub>0 g"
  shows "graph_ok g"
  using assms by (rule graph_sys.inv_reachable)

section \<open>Concrete graphs\<close>

definition ab_pool :: "string \<Rightarrow> Pool" where
  "ab_pool address = \<lparr>pAddress = address, pToken0 = ''0x1'', pToken1 = ''0x2'', pDEX = UniswapV3, pFee = 500,
     pLiquidity = Some 1, pSqrtPriceX96 = Some 1, pLastUpdatedBlock = 1\<rparr>"

definition ab_graph0 :: Graph where
  "ab_graph0 = New [(''A'', ''0x1''), (''B'', ''0x2'')]"

definition ab_graph :: Graph where
  "ab_graph = snd (UpsertPool (ab_pool ''0xc'') 1 (snd (UpsertPool (ab_pool ''0xb'') 1
     (snd (UpsertPool (ab_pool ''0xa'') 1 ab_graph0)))))"

lemma ab_graph_steps: "graph_step\<^sup>*\<^sup>* ab_graph0 ab_graph"
proof -
  have step: "graph_step g (snd (UpsertPool p r g))" for g p r by (auto simp: graph_step_def)
  show ?thesis
    unfolding ab_graph_def
    by (rule rtranclp.rtrancl_into_rtrancl [OF rtranclp.rtrancl_into_rtrancl [OF r_into_rtranclp]])
       (rule step)+
qed

theorem graph_reachable_ok_witness: "graph_ok ab_graph"
  by (rule graph_reachable_ok [OF _ ab_graph_steps]) (auto simp: graph_init_def ab_graph0_def)

definition ab_edge :: "string \<Rightarrow> string \<Rightarrow> string \<Rightarrow> Edge" where
  "ab_edge a b address = \<lparr>eFrom = a, eTo = b, ePool = ab_pool address, eReliability = 1\<rparr>"

lemma ab_graph_edges:
  "edges_at ab_graph ''A'' = [ab_edge ''A'' ''B'' ''0xa'', ab_edge ''A'' ''B'' ''0xb'', ab_edge ''A'' ''B'' ''0xc'']"
  "edges_at ab_graph ''B'' = [ab_edge ''B'' ''A'' ''0xa'', ab_edge ''B'' ''A'' ''0xb'', ab_edge ''B'' ''A'' ''0xc'']"
  "edges ab_graph ''A'' \<noteq> None"
  by (simp_all add: ab_graph_def ab_graph0_def New_def UpsertPool_def ab_pool_def edges_at_sortLocked
      edges_at_add_edge ab_edge_def sortLocked_def add_edge_def removePoolLocked_def edges_at_def
      clamp_def edge_less_def equal_fold_def fold_eval less_char_def)

text \<open>
  The limit is not a bound on the number of routes: it is tested on entry of \<open>walk\<close> only, not in its
  loop, so closing edges found in one loop are all appended. Three parallel pools and a limit of one
  give two routes.
\<close>

lemma CyclesFrom_exceeds_limit: "length (CyclesFrom ab_graph ''A'' 2 1) = 2"
proof -
  have "\<exists>es. edges ab_graph ''A'' = Some es" using ab_graph_edges(3) by auto
  then show ?thesis
    by (auto simp: CyclesFrom_def walk.simps ab_graph_edges ab_edge_def ab_pool_def fold_eval numeral_eq_Suc Let_def)
qed

end
