(* ===== verification/Config.thy ===== *)
theory Config
  imports Dex
begin

text \<open>
  \<open>go/internal/config/config.go\<close>: reading the environment into a configuration, its validation,
  and the market metadata. The environment is a function from names to values; reading the files
  (\<open>godotenv\<close>, \<open>os.ReadFile\<close>, \<open>json.Unmarshal\<close>) is outside the model, so
  \<open>LoadMarketConfig\<close> starts at the decoded document.
\<close>

section \<open>Data\<close>

record RPCProviderConfig =
  rpName :: string
  rpHTTP :: string
  rpWSS :: string
  rpMaxRPS :: int
  rpTargetRPS :: int
  rpBurst :: int
  rpMaxBlockLag :: int
  rpTier :: string

record Config =
  cChainID :: int
  cHTTPRPCURL :: string
  cWSRPCURL :: string
  cRPCProviders :: "RPCProviderConfig list"
  cRPCReadTargetRPS :: int
  cRPCPremiumAggregateRPS :: int
  cRPCMaxEthCallsPerMinute :: int
  cRPCMaxHotCallsPerMinute :: int
  cMaxCandidateStalenessBlocks :: u64
  cFlashExecutorAddress :: string
  cUniswapV3Adapter :: string
  cCamelotV3Adapter :: string
  cProfitRecipient :: string
  cPrivateKey :: string
  cDryRun :: bool
  cExecutionMode :: string
  cBroadcastEnabled :: bool
  cSlippageBPS :: u64
  cDeadlineSeconds :: u64
  cGasLimitMultiplierBPS :: u64
  cPriceMaxStalenessSeconds :: u64
  cSequencerGraceSeconds :: u64

record Token =
  tSymbol :: string
  tAddress :: string
  tDecimals :: byte
  tUSDFeed :: string

text \<open>The token map is an association list with distinct names: Go's maps have no order.\<close>

record MarketConfig =
  mAavePool :: string
  mUniswapFactory :: string
  mUniswapSwapRouter :: string
  mUniswapQuoterV2 :: string
  mCamelotFactory :: string
  mCamelotSwapRouter :: string
  mCamelotQuoter :: string
  mETHUSDFeed :: string
  mSequencerUptimeFeed :: string
  mArbGasInfo :: string
  mExecutionAssetNames :: "string list"
  mMarketAssetNames :: "string list"
  mBaseAsset :: string
  mIntermediateTokens :: "string list"
  mUniswapFeeTiers :: "u32 list"
  mTokens :: "(string \<times> Token) list"

abbreviation token :: "MarketConfig \<Rightarrow> string \<Rightarrow> Token option" where
  "token m \<equiv> map_of (mTokens m)"

definition ArbitrumOneChainID :: int where
  "ArbitrumOneChainID = 42161"

section \<open>Market metadata\<close>

definition known_symbols :: "MarketConfig \<Rightarrow> string list \<Rightarrow> string list" where
  "known_symbols m symbols = filter (\<lambda>symbol. token m symbol \<noteq> None \<and> symbol \<noteq> '''') symbols"

definition ExecutionAssets :: "MarketConfig \<Rightarrow> string list" where
  "ExecutionAssets m =
     (let configured = (if mExecutionAssetNames m = [] then mBaseAsset m # mIntermediateTokens m
                        else mExecutionAssetNames m)
      in sorted_keys (known_symbols m configured))"

definition MarketAssets :: "MarketConfig \<Rightarrow> string list" where
  "MarketAssets m =
     (if mMarketAssetNames m = [] then ExecutionAssets m
      else sorted_keys (known_symbols m (mMarketAssetNames m) @ ExecutionAssets m))"

definition DiscoveryAssets :: "MarketConfig \<Rightarrow> string list" where
  "DiscoveryAssets m = sort (map fst (mTokens m))"

definition USDFeeds :: "MarketConfig \<Rightarrow> string \<rightharpoonup> string" where
  "USDFeeds m = fold (\<lambda>(name, t) feeds. if tUSDFeed t \<noteq> '''' then feeds(tSymbol t \<mapsto> tUSDFeed t) else feeds)
     (mTokens m) Map.empty"

text \<open>\<open>regexp.MustCompile(`^0x[0-9a-fA-F]{40}$`)\<close>.\<close>

definition addressPattern :: "string \<Rightarrow> bool" where
  "addressPattern s \<longleftrightarrow>
     has_prefix ''0x'' s \<and> length s = 42 \<and> list_all (\<lambda>c. hexval c \<noteq> None) (drop 2 s)"

fun check_tokens :: "(string \<times> Token) list \<Rightarrow> string option" where
  "check_tokens [] = None"
| "check_tokens ((name, t) # rest) =
     (if \<not> addressPattern (tAddress t) \<or> tSymbol t = ''''
      then Some (''token '' @ name @ '' is invalid'')
      else if tUSDFeed t \<noteq> '''' \<and> \<not> addressPattern (tUSDFeed t)
      then Some (''token '' @ name @ '' has an invalid USD feed'')
      else check_tokens rest)"

text \<open>\<open>LoadMarketConfig\<close> from the decoded document on; \<open>cfg\<close> has the fields copied from it.\<close>

definition LoadMarketConfig :: "MarketConfig \<Rightarrow> MarketConfig result" where
  "LoadMarketConfig cfg =
     (if ExecutionAssets cfg = [] \<or> mTokens cfg = [] then Inl ''market configuration is incomplete''
      else case check_tokens (mTokens cfg) of
             Some err \<Rightarrow> Inl err
           | None \<Rightarrow>
               (case find (\<lambda>symbol. token cfg symbol = None) (mExecutionAssetNames cfg) of
                  Some symbol \<Rightarrow> Inl (''execution asset '' @ symbol @ '' is not configured'')
                | None \<Rightarrow> Inr cfg))"

section \<open>Parsing\<close>

fun firstNonEmpty :: "string list \<Rightarrow> string" where
  "firstNonEmpty [] = ''''"
| "firstNonEmpty (v # vs) = (let trimmed = trim_space v in if trimmed \<noteq> '''' then trimmed else firstNonEmpty vs)"

definition parseUintDefault :: "string \<Rightarrow> u64 \<Rightarrow> u64" where
  "parseUintDefault raw fallback = (case parse_uint (trim_space raw) of None \<Rightarrow> fallback | Some v \<Rightarrow> v)"

text \<open>\<open>int(parseUintDefault(...))\<close>: the conversion reinterprets the 64 bits as signed.\<close>

definition intDefault :: "string \<Rightarrow> u64 \<Rightarrow> int" where
  "intDefault raw fallback = sint (parseUintDefault raw fallback)"

text \<open>\<open>strconv.ParseInt(s, 10, 64)\<close> and \<open>strconv.ParseBool\<close>.\<close>

definition parse_int64 :: "string \<Rightarrow> int option" where
  "parse_int64 s =
     (let neg = has_prefix ''-'' s;
          body = (if neg \<or> has_prefix ''+'' s then tl s else s)
      in case parse_uint body of
           None \<Rightarrow> None
         | Some u \<Rightarrow> let v = uint u in
             if neg then (if v > 2 ^ 63 then None else Some (- v))
             else if v \<ge> 2 ^ 63 then None else Some v)"

definition parse_bool :: "string \<Rightarrow> bool option" where
  "parse_bool s =
     (if s \<in> {''1'', ''t'', ''T'', ''true'', ''TRUE'', ''True''} then Some True
      else if s \<in> {''0'', ''f'', ''F'', ''false'', ''FALSE'', ''False''} then Some False else None)"

definition parseMultiplierBPS :: "string \<Rightarrow> u64 \<Rightarrow> u64" where
  "parseMultiplierBPS raw0 fallback =
     (let raw = trim_space raw0 in
      if raw = '''' then fallback
      else let part0 = takeWhile (\<lambda>c. c \<noteq> CHR ''.'') raw;
               rest = dropWhile (\<lambda>c. c \<noteq> CHR ''.'') raw
           in case parse_uint part0 of
                None \<Rightarrow> fallback
              | Some whole \<Rightarrow>
                  let fraction = take 4 (tl rest);
                      padded = fraction @ replicate (4 - length fraction) CHR ''0''
                  in case parse_uint padded of
                       None \<Rightarrow> fallback
                     | Some f \<Rightarrow> whole * 10000 + f)"

definition inferredProviderTier :: "string \<Rightarrow> string" where
  "inferredProviderTier name0 =
     (let name = to_lower (trim_space name0) in
      if contains ''alchemy'' name then ''premium''
      else if contains ''ankr'' name \<or> contains ''chainstack'' name then ''secondary''
      else if contains ''quicknode'' name then ''limited''
      else if contains ''official'' name \<or> contains ''public'' name \<or> contains ''arbitrum'' name then ''emergency''
      else ''secondary'')"

section \<open>The runtime configuration\<close>

definition primary_provider :: "(string \<Rightarrow> string) \<Rightarrow> RPCProviderConfig" where
  "primary_provider get =
     (let p = \<lparr>rpName = firstNonEmpty [get ''RPC_PRIMARY_NAME'', ''primary''],
               rpHTTP = trim_space (get ''RPC_PRIMARY_HTTP''),
               rpWSS = trim_space (get ''RPC_PRIMARY_WSS''),
               rpMaxRPS = intDefault (get ''RPC_PRIMARY_MAX_RPS'') 0,
               rpTargetRPS = intDefault (firstNonEmpty [get ''RPC_PRIMARY_TARGET_RPS'', get ''RPC_QUICKNODE_TARGET_RPS'']) 0,
               rpBurst = intDefault (get ''RPC_PRIMARY_BURST'') 1,
               rpMaxBlockLag = intDefault (get ''RPC_PRIMARY_MAX_BLOCK_LAG'')
                 (parseUintDefault (get ''RPC_PROVIDER_MAX_BLOCK_LAG'') 5),
               rpTier = firstNonEmpty [get ''RPC_PRIMARY_TIER'',
                 inferredProviderTier (firstNonEmpty [get ''RPC_PRIMARY_NAME'', ''primary''])]\<rparr>;
          p1 = (if rpHTTP p = '''' then p\<lparr>rpHTTP := firstNonEmpty [get ''HTTP_RPC_URL'', get ''ARBITRUM_RPC_URL'']\<rparr> else p)
      in if rpWSS p1 = '''' then p1\<lparr>rpWSS := firstNonEmpty [get ''WS_RPC_URL'', get ''ARBITRUM_WSS_RPC_URL'']\<rparr> else p1)"

definition secondary_provider :: "(string \<Rightarrow> string) \<Rightarrow> RPCProviderConfig" where
  "secondary_provider get =
     \<lparr>rpName = firstNonEmpty [get ''RPC_SECONDARY_NAME'', ''secondary''],
      rpHTTP = trim_space (get ''RPC_SECONDARY_HTTP''),
      rpWSS = trim_space (get ''RPC_SECONDARY_WSS''),
      rpMaxRPS = intDefault (get ''RPC_SECONDARY_MAX_RPS'') 0,
      rpTargetRPS = intDefault (firstNonEmpty [get ''RPC_SECONDARY_TARGET_RPS'', get ''RPC_CHAINSTACK_TARGET_RPS'']) 0,
      rpBurst = intDefault (get ''RPC_SECONDARY_BURST'') 1,
      rpMaxBlockLag = intDefault (get ''RPC_SECONDARY_MAX_BLOCK_LAG'')
        (parseUintDefault (get ''RPC_PROVIDER_MAX_BLOCK_LAG'') 5),
      rpTier = firstNonEmpty [get ''RPC_SECONDARY_TIER'',
        inferredProviderTier (firstNonEmpty [get ''RPC_SECONDARY_NAME'', ''secondary''])]\<rparr>"

definition numbered_providers :: "(string \<Rightarrow> string) \<Rightarrow> string \<Rightarrow> string \<Rightarrow> int \<Rightarrow> int \<Rightarrow> int \<Rightarrow> string \<Rightarrow> nat list
    \<Rightarrow> RPCProviderConfig list" where
  "numbered_providers get variable name rps burst lag tier indices =
     concat (map (\<lambda>i. let url = trim_space (get (variable @ show_nat i)) in
       if url = '''' then []
       else [\<lparr>rpName = name @ show_nat i, rpHTTP = url, rpWSS = '''', rpMaxRPS = rps, rpTargetRPS = rps,
              rpBurst = burst, rpMaxBlockLag = lag, rpTier = tier\<rparr>]) indices)"

definition rpcProvidersFromLookup :: "(string \<Rightarrow> string) \<Rightarrow> RPCProviderConfig list" where
  "rpcProvidersFromLookup get =
     (let primary = primary_provider get; secondary = secondary_provider get;
          lag = rpMaxBlockLag primary;
          quicknode = trim_space (get ''RPC_QUICKNODE_HTTP'');
          quicknodeRPS = intDefault (get ''RPC_QUICKNODE_TARGET_RPS'') 1
      in (if rpHTTP primary \<noteq> '''' \<or> rpWSS primary \<noteq> '''' then [primary] else [])
         @ (if rpHTTP secondary \<noteq> '''' \<or> rpWSS secondary \<noteq> '''' then [secondary] else [])
         @ numbered_providers get ''RPC_ALCHEMY_HTTP_'' ''alchemy_'' (intDefault (get ''RPC_ALCHEMY_ENDPOINT_RPS'') 3)
             (intDefault (get ''RPC_ALCHEMY_ENDPOINT_BURST'') 1) lag ''premium'' [1, 2, 3]
         @ numbered_providers get ''RPC_ANKR_HTTP_'' ''ankr_'' (intDefault (get ''RPC_ANKR_ENDPOINT_RPS'') 4)
             (intDefault (get ''RPC_ANKR_ENDPOINT_BURST'') 1) lag ''secondary'' [1, 2]
         @ (if quicknode \<noteq> ''''
            then [\<lparr>rpName = ''quicknode'', rpHTTP = quicknode, rpWSS = '''', rpMaxRPS = quicknodeRPS,
                   rpTargetRPS = quicknodeRPS, rpBurst = intDefault (get ''RPC_QUICKNODE_BURST'') 1,
                   rpMaxBlockLag = lag, rpTier = ''limited''\<rparr>]
            else []))"

definition Validate :: "Config \<Rightarrow> string option" where
  "Validate c =
     (if cChainID c \<noteq> ArbitrumOneChainID then Some ''CHAIN_ID must equal 42161''
      else if cHTTPRPCURL c = '''' then Some ''ARBITRUM_RPC_URL is required''
      else if cWSRPCURL c = '''' then Some ''ARBITRUM_WSS_RPC_URL is required''
      else if \<not> addressPattern (cFlashExecutorAddress c) then Some ''FLASH_EXECUTOR_ADDRESS must be a valid address''
      else if \<not> addressPattern (cUniswapV3Adapter c) then Some ''UNISWAP_V3_ADAPTER must be a valid address''
      else if \<not> addressPattern (cCamelotV3Adapter c) then Some ''CAMELOT_V3_ADAPTER must be a valid address''
      else if cProfitRecipient c \<noteq> '''' \<and> \<not> addressPattern (cProfitRecipient c)
        then Some ''PROFIT_RECIPIENT must be a valid address''
      else if cPrivateKey c = '''' then Some ''PRIVATE_KEY is required''
      else if cExecutionMode c \<noteq> ''live'' \<and> cExecutionMode c \<noteq> ''dry_run''
        then Some ''EXECUTION_MODE must be live or dry_run''
      else if cSlippageBPS c > 10000 \<or> cDeadlineSeconds c = 0 \<or> cGasLimitMultiplierBPS c < 10000
        then Some ''invalid execution safety configuration''
      else None)"

text \<open>Go returns the configuration and the validation error side by side.\<close>

definition FromLookup :: "(string \<Rightarrow> string) \<Rightarrow> Config option \<times> string option" where
  "FromLookup get =
     (let chainID = (case parse_int64 (trim_space (get ''CHAIN_ID'')) of None \<Rightarrow> ArbitrumOneChainID | Some v \<Rightarrow> v) in
      case parse_bool (trim_space (get ''DRY_RUN'')) of
        None \<Rightarrow> (None, Some ''DRY_RUN must be true or false'')
      | Some dryRun \<Rightarrow>
          let cfg = \<lparr>cChainID = chainID,
            cHTTPRPCURL = firstNonEmpty [get ''RPC_PRIMARY_HTTP'', get ''HTTP_RPC_URL'', get ''ARBITRUM_RPC_URL''],
            cWSRPCURL = firstNonEmpty [get ''RPC_PRIMARY_WSS'', get ''WS_RPC_URL'', get ''ARBITRUM_WSS_RPC_URL''],
            cRPCProviders = rpcProvidersFromLookup get,
            cRPCReadTargetRPS = intDefault (get ''RPC_READ_TARGET_RPS'') 8,
            cRPCPremiumAggregateRPS = intDefault (get ''RPC_ALCHEMY_AGGREGATE_RPS'') 6,
            cRPCMaxEthCallsPerMinute = intDefault (get ''RPC_MAX_ETH_CALLS_PER_MINUTE'') 480,
            cRPCMaxHotCallsPerMinute =
              intDefault (firstNonEmpty [get ''RPC_MAX_HOT_CALLS_PER_MINUTE'', get ''MAX_QUOTES_PER_MINUTE'']) 360,
            cMaxCandidateStalenessBlocks = parseUintDefault (get ''MAX_CANDIDATE_STALENESS_BLOCKS'') 2,
            cFlashExecutorAddress = trim_space (get ''FLASH_EXECUTOR_ADDRESS''),
            cUniswapV3Adapter = trim_space (get ''UNISWAP_V3_ADAPTER''),
            cCamelotV3Adapter = trim_space (get ''CAMELOT_V3_ADAPTER''),
            cProfitRecipient = trim_space (get ''PROFIT_RECIPIENT''),
            cPrivateKey = trim_space (get ''PRIVATE_KEY''), cDryRun = dryRun,
            cExecutionMode = trim_space (to_lower (get ''EXECUTION_MODE'')),
            cBroadcastEnabled = equal_fold (trim_space (get ''GO_LIVE_EXECUTION'')) ''true'',
            cSlippageBPS = parseUintDefault (get ''SLIPPAGE_BPS'') 50,
            cDeadlineSeconds = parseUintDefault (get ''TX_DEADLINE_SECONDS'') 120,
            cGasLimitMultiplierBPS = parseMultiplierBPS (get ''GAS_LIMIT_MULTIPLIER'') 12000,
            cPriceMaxStalenessSeconds = parseUintDefault (get ''PRICE_MAX_STALENESS_SECONDS'') 3600,
            cSequencerGraceSeconds = parseUintDefault (get ''SEQUENCER_GRACE_PERIOD_SECONDS'') 3600\<rparr>
          in (Some cfg, Validate cfg))"

section \<open>Properties\<close>

lemma parse_digits_zeros: "parse_digits 0 (replicate k CHR ''0'' @ s) = parse_digits 0 s"
  by (induction k) simp_all

lemma length_show_nat: "n < 10 ^ Suc k \<Longrightarrow> length (show_nat n) \<le> Suc k"
proof (induction k arbitrary: n)
  case 0
  then show ?case by (subst show_nat.simps) simp
next
  case (Suc k)
  then have "n div 10 < 10 ^ Suc k" by (simp add: less_mult_imp_div_less)
  then show ?case using Suc.IH [of "n div 10"] by (subst show_nat.simps) auto
qed

lemma parse_uint_show [simp]: "n < 2 ^ 64 \<Longrightarrow> parse_uint (show_nat n) = Some (of_nat n)"
  by (simp add: parse_uint_def)

lemma show_nat_plain:
  assumes "c \<in> set (show_nat n)"
  shows "\<not> is_space c" "c \<noteq> CHR ''.''"
  using show_nat_digits [OF assms] by (auto simp: is_space_def)

text \<open>The decimal notation of a multiplier of \<open>b\<close> basis points, with four fraction digits.\<close>

definition show_multiplier :: "nat \<Rightarrow> string" where
  "show_multiplier b =
     (let f = show_nat (b mod 10000) in show_nat (b div 10000) @ ''.'' @ replicate (4 - length f) CHR ''0'' @ f)"

text \<open>
  The decimal gas-limit multiplier is read exactly: for every number of basis points that fits 64
  bits, the notation with four fraction digits is parsed back to it, whatever the fallback.
\<close>

theorem parseMultiplierBPS_roundtrip:
  assumes "b < 2 ^ 64"
  shows "parseMultiplierBPS (show_multiplier b) fallback = of_nat b"
proof -
  define f where "f = show_nat (b mod 10000)"
  define w where "w = show_nat (b div 10000)"
  let ?frac = "replicate (4 - length f) CHR ''0'' @ f"
  have lf: "length f \<le> 4" using length_show_nat [of "b mod 10000" 3] by (simp add: f_def)
  have s: "show_multiplier b = w @ CHR ''.'' # ?frac" by (simp add: show_multiplier_def f_def w_def Let_def)
  have plain: "\<forall>c\<in>set w. \<not> is_space c \<and> c \<noteq> CHR ''.''" "\<forall>c\<in>set ?frac. \<not> is_space c"
    using show_nat_plain by (auto simp: w_def f_def is_space_def split: if_splits)
  have t: "trim_space (show_multiplier b) = w @ CHR ''.'' # ?frac"
    unfolding s using plain by (intro trim_space_no_space) (auto simp: is_space_def)
  have split: "takeWhile (\<lambda>c. c \<noteq> CHR ''.'') (w @ CHR ''.'' # ?frac) = w"
    "dropWhile (\<lambda>c. c \<noteq> CHR ''.'') (w @ CHR ''.'' # ?frac) = CHR ''.'' # ?frac"
    using plain(1) by (simp_all add: takeWhile_append2 dropWhile_append2)
  have "parse_uint w = Some (of_nat (b div 10000))"
    unfolding w_def using assms by (intro parse_uint_show) (simp add: div_le_dividend le_less_trans)
  moreover have "parse_uint ?frac = Some (of_nat (b mod 10000))"
  proof -
    have "b mod 10000 < 2 ^ 64" using mod_less_divisor [of 10000 b] by simp
    moreover have "?frac \<noteq> []" by (simp add: f_def)
    ultimately show ?thesis unfolding parse_uint_def parse_digits_zeros by (simp add: f_def)
  qed
  moreover have "take 4 ?frac = ?frac" "length ?frac = 4" using lf by simp_all
  ultimately have "parseMultiplierBPS (show_multiplier b) fallback
      = of_nat (b div 10000) * 10000 + of_nat (b mod 10000)"
    unfolding parseMultiplierBPS_def t by (simp only: Let_def split list.sel option.simps) simp
  also have "\<dots> = of_nat (b div 10000 * 10000 + b mod 10000)"
    by (simp only: of_nat_add of_nat_mult of_nat_numeral)
  finally show ?thesis by (simp only: div_mult_mod_eq)
qed

theorem parseMultiplierBPS_roundtrip_witness:
  "parseMultiplierBPS (show_multiplier 12500) 1 = 12500"
  using parseMultiplierBPS_roundtrip [of 12500 1] by simp

text \<open>
  C35: the tradable universe is safe by construction: execution assets are exactly the configured,
  non-empty, known symbols, in sorted order and without repetition; adding market assets never makes
  one an execution asset, and every execution asset is a market asset, every market asset a known token.
\<close>

theorem execution_assets_isolated:
  "ExecutionAssets (m\<lparr>mMarketAssetNames := names\<rparr>) = ExecutionAssets m
   \<and> sorted (ExecutionAssets m) \<and> distinct (ExecutionAssets m)
   \<and> set (ExecutionAssets m) \<subseteq> set (MarketAssets m)
   \<and> set (MarketAssets m) \<subseteq> set (DiscoveryAssets m) - {''''}"
proof -
  have known: "set (known_symbols m xs) \<subseteq> fst ` set (mTokens m) - {''''}" for xs
    by (auto simp: known_symbols_def map_of_eq_None_iff)
  have kn: "known_symbols (m\<lparr>mMarketAssetNames := names\<rparr>) = known_symbols m"
    by (rule ext) (simp add: known_symbols_def)
  have e: "set (ExecutionAssets m) \<subseteq> fst ` set (mTokens m) - {''''}"
    using known by (simp add: ExecutionAssets_def Let_def)
  have "set (MarketAssets m) \<subseteq> fst ` set (mTokens m) - {''''}"
    using e known [of "mMarketAssetNames m"] by (simp add: MarketAssets_def)
  then show ?thesis
    by (simp add: ExecutionAssets_def MarketAssets_def DiscoveryAssets_def kn Let_def)
qed

lemma Validate_None_iff:
  "Validate c = None \<longleftrightarrow>
     cChainID c = 42161 \<and> cHTTPRPCURL c \<noteq> '''' \<and> cWSRPCURL c \<noteq> ''''
     \<and> list_all addressPattern [cFlashExecutorAddress c, cUniswapV3Adapter c, cCamelotV3Adapter c]
     \<and> (cProfitRecipient c = '''' \<or> addressPattern (cProfitRecipient c)) \<and> cPrivateKey c \<noteq> ''''
     \<and> cExecutionMode c \<in> {''live'', ''dry_run''}
     \<and> cSlippageBPS c \<le> 10000 \<and> cDeadlineSeconds c \<noteq> 0 \<and> 10000 \<le> cGasLimitMultiplierBPS c"
  by (auto simp: Validate_def ArbitrumOneChainID_def not_less)

end
