(* ===== verification/Pricing.thy ===== *)
theory Pricing
  imports Prelude
begin

text \<open>
  \<open>go/internal/pricing/pricing.go\<close>: the economics of an opportunity in raw base-token units. A
  missing amount counts as zero.
\<close>

record Inputs =
  AmountIn :: bigint
  AmountOut :: bigint
  AavePremium :: bigint
  L2Fee :: bigint
  L1DataFee :: bigint
  MinProfit :: bigint

record PricingResult =
  GrossProfit :: int
  ExpectedProfit :: int
  RequiredOutput :: int
  Profitable :: bool

definition Evaluate :: "Inputs \<Rightarrow> PricingResult" where
  "Evaluate inp =
     (let amountIn = big_or_zero (AmountIn inp); amountOut = big_or_zero (AmountOut inp);
          premium = big_or_zero (AavePremium inp); l2 = big_or_zero (L2Fee inp);
          l1 = big_or_zero (L1DataFee inp); minimum = big_or_zero (MinProfit inp);
          gross = amountOut - amountIn;
          net = gross - premium - l2 - l1;
          required = amountIn + premium + l2 + l1 + minimum
      in \<lparr>GrossProfit = gross, ExpectedProfit = net, RequiredOutput = required,
          Profitable = (net > minimum \<and> amountOut > 0)\<rparr>)"

lemma Evaluate_sel:
  "GrossProfit (Evaluate inp) = big_or_zero (AmountOut inp) - big_or_zero (AmountIn inp)"
  "ExpectedProfit (Evaluate inp) = GrossProfit (Evaluate inp) - big_or_zero (AavePremium inp)
     - big_or_zero (L2Fee inp) - big_or_zero (L1DataFee inp)"
  "RequiredOutput (Evaluate inp) = big_or_zero (AmountIn inp) + big_or_zero (AavePremium inp)
     + big_or_zero (L2Fee inp) + big_or_zero (L1DataFee inp) + big_or_zero (MinProfit inp)"
  "Profitable (Evaluate inp) \<longleftrightarrow> ExpectedProfit (Evaluate inp) > big_or_zero (MinProfit inp)
     \<and> big_or_zero (AmountOut inp) > 0"
  by (simp_all add: Evaluate_def Let_def)

text \<open>
  C11: an opportunity counts as profitable exactly when its output is positive and strictly above the
  reported required output, and then the loan, the premium and both fees can be repaid with more than
  the minimum profit left; the margin over the required output is the expected profit less the minimum.
\<close>

theorem Evaluate_profitable_iff:
  "(Profitable (Evaluate inp) \<longleftrightarrow>
      0 < big_or_zero (AmountOut inp) \<and> RequiredOutput (Evaluate inp) < big_or_zero (AmountOut inp))
   \<and> big_or_zero (AmountOut inp) - RequiredOutput (Evaluate inp)
       = ExpectedProfit (Evaluate inp) - big_or_zero (MinProfit inp)"
  by (auto simp: Evaluate_sel)

text \<open>A dearer route never becomes profitable, a better output never unprofitable.\<close>

lemma Profitable_mono:
  assumes "Profitable (Evaluate inp)" "big_or_zero (AmountOut inp) \<le> out" "p \<le> big_or_zero (AavePremium inp)"
    "a \<le> big_or_zero (L2Fee inp)" "b \<le> big_or_zero (L1DataFee inp)"
  shows "Profitable (Evaluate (inp\<lparr>AmountOut := Some out, AavePremium := Some p, L2Fee := Some a, L1DataFee := Some b\<rparr>))"
  using assms by (simp add: Evaluate_def Let_def)

end
