(* ===== verification/Fees.thy ===== *)
theory Fees
  imports Pools
begin

text \<open>
  \<open>go/internal/fees/arbitrum.go\<close>: the Arbitrum fee estimate from the \<open>ArbGasInfo\<close> precompile, the
  \<open>NodeInterface\<close> and the ETH/USD feed. \<open>big.Rat\<close> is a rational; the timestamp is the clock of the world.
\<close>

definition NodeInterface :: string where
  "NodeInterface = ''0x00000000000000000000000000000000000000C8''"

definition feeDestination :: string where
  "feeDestination = ''0x000000000000000000000000000000000000dEaD''"

record FeeEstimate =
  fL2Cost :: int
  fL1Cost :: int
  fTotalWei :: int
  fTotalETH :: rat
  fTotalUSD :: rat
  fSafetyMarginWei :: int
  fTimestamp :: int

record 'w FeeService =
  fsCall :: "string \<Rightarrow> string \<Rightarrow> ('w, string) io"
  fsArbGasInfo :: string
  fsEthUSDFeed :: string
  fsSafetyBPS :: u64
  fsNow :: "'w \<Rightarrow> int"

text \<open>\<open>DecodeWords\<close> with the length check of the callers; the message carries the cause, if any.\<close>

definition decode_at_least :: "nat \<Rightarrow> string \<Rightarrow> string \<Rightarrow> bytes list result" where
  "decode_at_least n what raw =
     (case DecodeWords raw of
        Inl e \<Rightarrow> Inl (what @ e)
      | Inr ws \<Rightarrow> if length ws < n then Inl (what @ ''%!w(<nil>)'') else Inr ws)"

definition ethUSD :: "keccak \<Rightarrow> 'w FeeService \<Rightarrow> ('w, rat) io" where
  "ethUSD kk s =
     bindE (fsCall s (fsEthUSDFeed s) (StaticCall kk ''decimals()'' [])) (\<lambda>decRaw.
     bindE (lift_res (decode_at_least 1 ''feed decimals: '' decRaw)) (\<lambda>dec.
     bindE (fsCall s (fsEthUSDFeed s) (StaticCall kk ''latestRoundData()'' [])) (\<lambda>raw.
     bindE (lift_res (decode_at_least 5 ''latestRoundData: '' raw)) (\<lambda>words.
       let answer = WordInt (words ! 1) in
       if answer \<le> 0 then throw ''ETH/USD answer is non-positive''
       else ret (of_int answer / of_int (10 ^ nat (WordUint (dec ! 0))))))))"

definition Estimate :: "keccak \<Rightarrow> 'w FeeService \<Rightarrow> u64 \<Rightarrow> bytes \<Rightarrow> ('w, FeeEstimate) io" where
  "Estimate kk s gasLimit calldata =
     bindE (fsCall s (fsArbGasInfo s) (StaticCall kk ''getPricesInWei()'' [])) (\<lambda>pricesRaw.
     bindE (lift_res (decode_at_least 6 ''ArbGasInfo.getPricesInWei response: '' pricesRaw)) (\<lambda>prices.
       let l2 = WordUint (prices ! 0) + uint gasLimit * WordUint (prices ! 5) in
     bindE (lift_res (AddressWord feeDestination)) (\<lambda>dead.
     bindE (fsCall s NodeInterface (DynamicBytesCall kk ''gasEstimateComponents(address,bool,bytes)''
              [dead, BoolWord False] calldata)) (\<lambda>nodeRaw.
     bindE (lift_res (decode_at_least 4 ''NodeInterface response: '' nodeRaw)) (\<lambda>node.
       let l1 = WordUint (node ! 1) * WordUint (node ! 2);
           raw = l2 + l1;
           margin = big_div (raw * uint (fsSafetyBPS s)) 10000;
           total_wei = raw + margin
       in bindE (ethUSD kk s) (\<lambda>price.
          let eth = of_int total_wei / of_int (10 ^ 18) in
          (\<lambda>w. (Inr \<lparr>fL2Cost = l2, fL1Cost = l1, fTotalWei = total_wei, fTotalETH = eth,
                    fTotalUSD = eth * price, fSafetyMarginWei = margin, fTimestamp = fsNow s w\<rparr>, w))))))))"

lemma decode_at_leastD: "decode_at_least n what raw = Inr ws \<Longrightarrow> n \<le> length ws \<and> DecodeWords raw = Inr ws"
  by (auto simp: decode_at_least_def split: sum.splits if_splits)

lemma WordUint_nonneg [simp]: "0 \<le> WordUint w"
  using be_int_bounds [of w] by (simp add: WordUint_def)

lemma ethUSD_pos: "ethUSD kk s w = (Inr price, w') \<Longrightarrow> 0 < price"
  unfolding ethUSD_def
  by (auto elim!: bindE_InrE simp: Let_def split: if_splits)

text \<open>
  A fee estimate is consistent: its costs are non-negative, the total is both components plus the
  configured safety margin (rounded down), the amounts in ETH and USD are non-negative and describe
  exactly this total, and the ratio the callers use as the ETH price is the positive feed price.
\<close>

theorem Estimate_consistent:
  assumes "Estimate kk s gasLimit calldata w = (Inr est, w')"
  shows "0 \<le> fL2Cost est \<and> 0 \<le> fL1Cost est
    \<and> fSafetyMarginWei est = (fL2Cost est + fL1Cost est) * uint (fsSafetyBPS s) div 10000
    \<and> fTotalWei est = fL2Cost est + fL1Cost est + fSafetyMarginWei est
    \<and> fTotalETH est * 10 ^ 18 = of_int (fTotalWei est)
    \<and> (\<exists>price > 0. fTotalUSD est = fTotalETH est * price)"
proof -
  obtain prices node price w1 w2 where
    est: "est = \<lparr>fL2Cost = WordUint (prices ! 0) + uint gasLimit * WordUint (prices ! 5),
      fL1Cost = WordUint (node ! 1) * WordUint (node ! 2),
      fTotalWei = WordUint (prices ! 0) + uint gasLimit * WordUint (prices ! 5) + WordUint (node ! 1) * WordUint (node ! 2)
        + big_div ((WordUint (prices ! 0) + uint gasLimit * WordUint (prices ! 5)
            + WordUint (node ! 1) * WordUint (node ! 2)) * uint (fsSafetyBPS s)) 10000,
      fTotalETH = of_int (WordUint (prices ! 0) + uint gasLimit * WordUint (prices ! 5) + WordUint (node ! 1) * WordUint (node ! 2)
        + big_div ((WordUint (prices ! 0) + uint gasLimit * WordUint (prices ! 5)
            + WordUint (node ! 1) * WordUint (node ! 2)) * uint (fsSafetyBPS s)) 10000) / of_int (10 ^ 18),
      fTotalUSD = of_int (WordUint (prices ! 0) + uint gasLimit * WordUint (prices ! 5) + WordUint (node ! 1) * WordUint (node ! 2)
        + big_div ((WordUint (prices ! 0) + uint gasLimit * WordUint (prices ! 5)
            + WordUint (node ! 1) * WordUint (node ! 2)) * uint (fsSafetyBPS s)) 10000) / of_int (10 ^ 18) * price,
      fSafetyMarginWei = big_div ((WordUint (prices ! 0) + uint gasLimit * WordUint (prices ! 5)
            + WordUint (node ! 1) * WordUint (node ! 2)) * uint (fsSafetyBPS s)) 10000,
      fTimestamp = fsNow s w2\<rparr>" and price: "ethUSD kk s w1 = (Inr price, w2)"
    using assms unfolding Estimate_def by (auto elim!: bindE_InrE simp: Let_def)
  show ?thesis
    unfolding est using ethUSD_pos [OF price] by auto
qed

text \<open>A service whose every answer is six times the word 1.\<close>

definition six_ones :: string where
  "six_ones = ''0x'' @ hex_encode (concat (replicate 6 one_word))"

definition one_service :: "unit FeeService" where
  "one_service = \<lparr>fsCall = (\<lambda>_ _. ret six_ones), fsArbGasInfo = ''0x1'', fsEthUSDFeed = ''0x2'', fsSafetyBPS = 2000,
     fsNow = (\<lambda>_. 0)\<rparr>"

lemma six_ones_decode: "DecodeWords six_ones = Inr (replicate 6 one_word)"
  unfolding six_ones_def by (rule abi_words.dec_enc) (simp add: one_word_def)

lemma one_words: "WordInt one_word = 1" "WordUint one_word = 1"
  using one_provider(4) by (simp_all add: WordInt_def one_word_def Let_def nth_append)

lemma feeDestination_word: "AddressWord feeDestination = Inr (replicate 30 0 @ [222, 173])"
proof -
  have h: "hex_decode (replicate (2 * n) CHR ''0'' @ s) = Inr (replicate n 0 @ bs)" if "hex_decode s = Inr bs" for n s bs
    using that by (induction n) (auto simp: hexval_def)
  have d: "feeDestination = ''0x'' @ replicate (2 * 18) CHR ''0'' @ ''dEaD''"
    by (simp add: feeDestination_def numeral_eq_Suc)
  have "trim_space feeDestination = feeDestination"
    by (rule trim_space_no_space) (simp add: feeDestination_def is_space_def)
  then have "trim_prefix ''0x'' (trim_space feeDestination) = replicate (2 * 18) CHR ''0'' @ ''dEaD''"
    unfolding d by (simp only: trim_prefix_append)
  moreover have "hex_decode (replicate (2 * 18) CHR ''0'' @ ''dEaD'') = Inr (replicate 18 0 @ [222, 173])"
    by (rule h) (simp add: hexval_def)
  moreover have "replicate 12 0 @ replicate 18 0 @ [222, 173] = replicate 30 (0 :: byte) @ [222, 173]"
    by (simp flip: append_assoc replicate_add)
  ultimately show ?thesis by (simp add: AddressWord_def Let_def)
qed

definition one_fee where
  "one_fee = \<lparr>fL2Cost = 11, fL1Cost = 1, fTotalWei = 14, fTotalETH = 14 / 10 ^ 18, fTotalUSD = 14 / 10 ^ 18 * (1 / 10),
        fSafetyMarginWei = 2, fTimestamp = 0\<rparr>"

lemma one_estimate: "Estimate kk one_service 10 calldata () = (Inr one_fee, ())"
  by (simp add: one_fee_def Estimate_def ethUSD_def bindE_def one_service_def decode_at_least_def six_ones_decode
      one_words feeDestination_word Let_def)

theorem Estimate_consistent_witness: "(11 + 1) * uint (2000 :: u64) div 10000 = (2 :: int)"
  using Estimate_consistent [OF one_estimate] by (simp add: one_service_def one_fee_def)

end
