(* ===== verification/Quotes.thy ===== *)
theory Quotes
  imports Fees
begin

text \<open>
  \<open>go/internal/quotes/quotes.go\<close>: the read-only quote calls of the two venues and the bounded
  fan-out over a list of requests. The counters of \<open>metrics\<close> are not part of the state.
\<close>

record Request =
  qTokenIn :: string
  qTokenOut :: string
  qAmountIn :: bigint
  qPool :: Pool

record QuoteResult =
  qrAmountOut :: bigint
  qrEstimatedGas :: u64
  qrFee :: u32

definition zero_result :: QuoteResult where
  "zero_result = \<lparr>qrAmountOut = None, qrEstimatedGas = 0, qrFee = 0\<rparr>"

type_synonym 'w Quoter = "Request \<Rightarrow> ('w, QuoteResult) io"

text \<open>
  \<open>UintWord\<close> panics on a number of more than 256 bits; here the panic is an error like the others.
\<close>

definition UniswapV3_Quote :: "keccak \<Rightarrow> (string \<Rightarrow> string \<Rightarrow> ('w, string) io) \<Rightarrow> string \<Rightarrow> 'w Quoter" where
  "UniswapV3_Quote kk call address req =
     (if pDEX (qPool req) \<noteq> UniswapV3 \<or> pFee (qPool req) = 0
      then throw ''invalid Uniswap V3 quote request''
      else
        bindE (lift_res (AddressWord (qTokenIn req))) (\<lambda>inw.
        bindE (lift_res (AddressWord (qTokenOut req))) (\<lambda>outw.
        bindE (lift_res (UintWord (qAmountIn req))) (\<lambda>amountw.
        bindE (wrap_err ''uniswap quote: '' (call address
          (StaticCall kk ''quoteExactInputSingle((address,address,uint256,uint24,uint160))''
            [inw, outw, amountw, Uint64Word (ucast (pFee (qPool req))), Uint64Word 0]))) (\<lambda>raw.
        bindE (lift_res (decode_at_least 4 ''uniswap quote response: '' raw)) (\<lambda>words.
          ret \<lparr>qrAmountOut = Some (WordUint (words ! 0)), qrEstimatedGas = of_int (WordUint (words ! 3)),
               qrFee = pFee (qPool req)\<rparr>))))))"

definition Camelot_Quote :: "keccak \<Rightarrow> (string \<Rightarrow> string \<Rightarrow> ('w, string) io) \<Rightarrow> string \<Rightarrow> 'w Quoter" where
  "Camelot_Quote kk call address req =
     (if pDEX (qPool req) \<noteq> CamelotV3 then throw ''invalid Camelot quote request''
      else
        bindE (lift_res (AddressWord (qTokenIn req))) (\<lambda>inw.
        bindE (lift_res (AddressWord (qTokenOut req))) (\<lambda>outw.
        bindE (lift_res (UintWord (qAmountIn req))) (\<lambda>amountw.
        bindE (wrap_err ''camelot quote: '' (call address
          (StaticCall kk ''quoteExactInputSingle(address,address,uint256,uint160)''
            [inw, outw, amountw, Uint64Word 0]))) (\<lambda>raw.
        bindE (lift_res (decode_at_least 2 ''camelot quote response: '' raw)) (\<lambda>words.
          ret \<lparr>qrAmountOut = Some (WordUint (words ! 0)), qrEstimatedGas = 0,
               qrFee = ucast (of_int (WordUint (words ! 1)) :: u64)\<rparr>))))))"

text \<open>
  The venues' promise to the evaluation: a successful quote has an amount, which is not negative.
\<close>

locale quote_source =
  fixes quote_fn :: "Request \<Rightarrow> 'w \<Rightarrow> QuoteResult result \<times> 'w"
  assumes amount: "quote_fn req w = (Inr r, w') \<Longrightarrow> \<exists>a. qrAmountOut r = Some a \<and> 0 \<le> a"

interpretation uniswap: quote_source "UniswapV3_Quote kk call address" for kk call address
  by unfold_locales (auto simp: UniswapV3_Quote_def elim!: bindE_InrE split: if_splits)

interpretation camelot: quote_source "Camelot_Quote kk call address" for kk call address
  by unfold_locales (auto simp: Camelot_Quote_def elim!: bindE_InrE split: if_splits)

section \<open>Bounded fan-out\<close>

text \<open>
  \<open>QuoteMany\<close>: the producer offers the indices in order; at each one \<open>select\<close> either hands it to a
  worker or sees the cancelled context. The \<open>break\<close> there leaves the \<open>select\<close> only, so the producer
  goes on with the next index. \<open>taken\<close> lists which indices were handed over; the workers' quotes are
  the calls, and every slot that is not handed over or whose call fails keeps the zero result.
\<close>

fun quote_jobs :: "(Pool \<Rightarrow> 'w Quoter) \<Rightarrow> (Request \<times> bool) list \<Rightarrow> 'w \<Rightarrow> QuoteResult list \<times> 'w" where
  "quote_jobs selectQuoter [] w = ([], w)"
| "quote_jobs selectQuoter ((req, taken) # jobs) w =
     (if taken then
        (let (r, w1) = selectQuoter (qPool req) req w;
             (rs, w2) = quote_jobs selectQuoter jobs w1
         in ((case r of Inr v \<Rightarrow> v | Inl _ \<Rightarrow> zero_result) # rs, w2))
      else let (rs, w2) = quote_jobs selectQuoter jobs w in (zero_result # rs, w2))"

definition QuoteMany :: "Request list \<Rightarrow> (Pool \<Rightarrow> 'w Quoter) \<Rightarrow> bool list \<Rightarrow> 'w \<Rightarrow> QuoteResult list \<times> 'w" where
  "QuoteMany requests selectQuoter taken w = quote_jobs selectQuoter (zip requests taken) w"

lemma QuoteMany_length: "length taken = length requests \<Longrightarrow> length (fst (QuoteMany requests sel taken w)) = length requests"
proof -
  have "length (fst (quote_jobs sel jobs w)) = length jobs" for jobs w
    by (induction sel jobs w rule: quote_jobs.induct) (auto split: prod.splits)
  then show "length taken = length requests \<Longrightarrow> ?thesis" by (simp add: QuoteMany_def)
qed

end
