(* ===== verification/Optimizer.thy ===== *)
theory Optimizer
  imports Graph
begin

text \<open>
  \<open>go/internal/optimizer/optimizer.go\<close>: the loan-size search. The workers evaluate the candidate
  amounts concurrently and the collector folds over the outcomes in the order they arrive; the
  evaluator's answers are therefore a list of outcomes, one per amount that a worker took, in any order.
\<close>

record Evaluation =
  evAmount :: int
  evNetProfit :: bigint
  evExecutable :: bool
  evReason :: string
  evPriceImpactBPS :: u64

record Range =
  rgMin :: bigint
  rgMax :: bigint
  rgSamples :: int

record OptimalLoan =
  olAsset :: string
  olRoute :: Route
  olAmount :: bigint
  olNetProfit :: int
  olEvaluated :: int
  olConfidence :: string

definition candidates :: "int \<Rightarrow> int \<Rightarrow> int \<Rightarrow> int list" where
  "candidates mn mx samples =
     (let n = (if samples < 2 then 2 else samples); delta = mx - mn
      in sort_slice (<) (remdups (map (\<lambda>i. big_div (delta * i) (n - 1) + mn) [0 .. n - 1])))"

definition range_ok :: "Range \<Rightarrow> bool" where
  "range_ok r \<longleftrightarrow> (case (rgMin r, rgMax r) of
     (Some mn, Some mx) \<Rightarrow> 0 < mn \<and> mn \<le> mx | _ \<Rightarrow> False)"

definition absorb :: "Evaluation result \<Rightarrow> OptimalLoan \<Rightarrow> OptimalLoan" where
  "absorb out best0 =
     (let best = best0\<lparr>olEvaluated := olEvaluated best0 + 1\<rparr> in
      case out of
        Inl _ \<Rightarrow> best
      | Inr ev \<Rightarrow>
          (case evNetProfit ev of
             None \<Rightarrow> best
           | Some p \<Rightarrow>
               if olAmount best = None \<or> p > olNetProfit best
               then best\<lparr>olAmount := Some (evAmount ev), olNetProfit := p, olConfidence := ''quote_and_fee_screened''\<rparr>
               else best))"

definition no_loan :: "string \<Rightarrow> Route \<Rightarrow> OptimalLoan" where
  "no_loan asset route = \<lparr>olAsset = asset, olRoute = route, olAmount = None, olNetProfit = -1, olEvaluated = 0,
     olConfidence = ''''\<rparr>"

text \<open>
  \<open>schedule\<close> turns the candidate amounts into the amounts in the order their outcomes arrive; an amount
  that is not handed to a worker before the context is cancelled is missing.
\<close>

definition Optimize :: "(int \<Rightarrow> Evaluation result) \<Rightarrow> (int list \<Rightarrow> int list) \<Rightarrow> string \<Rightarrow> Route \<Rightarrow> Range
    \<Rightarrow> OptimalLoan result" where
  "Optimize evaluate schedule asset route r =
     (if \<not> range_ok r then Inl ''valid evaluator and positive size range are required''
      else let amounts = candidates (the (rgMin r)) (the (rgMax r)) (rgSamples r);
               best = fold absorb (map evaluate (schedule amounts)) (no_loan asset route)
           in if olAmount best = None then Inl ''no profitable executable size'' else Inr best)"

section \<open>The candidate sizes\<close>

lemma set_candidates:
  "set (candidates mn mx samples) =
     (let n = (if samples < 2 then 2 else samples) in (\<lambda>i. (mx - mn) * i div (n - 1) + mn) ` {0 .. n - 1})"
  by (auto simp: candidates_def Let_def)

text \<open>
  The sizes tried for a loan range are sorted, distinct, inside the range, include both ends, and
  are at most as many as the requested samples (two at least).
\<close>

theorem candidates_cover:
  assumes "mn \<le> mx"
  shows "sorted (candidates mn mx samples) \<and> distinct (candidates mn mx samples)
    \<and> list_all (\<lambda>a. mn \<le> a \<and> a \<le> mx) (candidates mn mx samples)
    \<and> mn \<in> set (candidates mn mx samples) \<and> mx \<in> set (candidates mn mx samples)
    \<and> int (length (candidates mn mx samples)) \<le> max 2 samples"
proof -
  define n where "n = (if samples < 2 then 2 else samples)"
  have n: "2 \<le> n" "n = max 2 samples" by (auto simp: n_def)
  let ?f = "\<lambda>i. (mx - mn) * i div (n - 1) + mn"
  have st: "set (candidates mn mx samples) = ?f ` {0 .. n - 1}"
    by (simp add: set_candidates n_def Let_def)
  have "mn \<le> ?f i \<and> ?f i \<le> mx" if "i \<in> {0 .. n - 1}" for i
  proof -
    have "0 \<le> (mx - mn) * i" "(mx - mn) * i \<le> (mx - mn) * (n - 1)"
      using that assms by (auto intro: mult_left_mono)
    then have "0 \<le> (mx - mn) * i div (n - 1)" "(mx - mn) * i div (n - 1) \<le> (mx - mn) * (n - 1) div (n - 1)"
      using n(1) zdiv_mono1 [of "(mx - mn) * i" "(mx - mn) * (n - 1)" "n - 1"]
      by (simp_all add: pos_imp_zdiv_nonneg_iff)
    then show ?thesis using n by simp
  qed
  then have "list_all (\<lambda>a. mn \<le> a \<and> a \<le> mx) (candidates mn mx samples)"
    by (auto simp: list_all_iff st)
  moreover have "?f 0 = mn" "?f (n - 1) = mx" using n by simp_all
  then have "mn \<in> ?f ` {0 .. n - 1}" "mx \<in> ?f ` {0 .. n - 1}"
    using n(1) by (intro image_eqI [where x = 0] image_eqI [where x = "n - 1"]; simp)+
  moreover have "sorted (candidates mn mx samples)"
    by (simp add: candidates_def Let_def)
  moreover have "int (length (candidates mn mx samples)) \<le> n"
  proof -
    have "length (candidates mn mx samples) \<le> length [0 .. n - 1]"
      using length_remdups_leq [of "map ?f [0 .. n - 1]"] n
      by (simp add: candidates_def Let_def n_def split: if_splits)
    then show ?thesis using n by simp
  qed
  moreover have "distinct (candidates mn mx samples)" by (simp add: candidates_def Let_def)
  ultimately show ?thesis unfolding st n(2) [symmetric] by blast
qed

theorem candidates_cover_witness:
  "sorted (candidates 10 20 3) \<and> 10 \<in> set (candidates 10 20 3) \<and> 20 \<in> set (candidates 10 20 3)"
  using candidates_cover [of 10 20 3] by simp

lemma candidates_length: "int (length (candidates mn mx samples)) \<le> max 2 samples"
proof -
  define n where "n = (if samples < 2 then 2 else samples)"
  have "length (candidates mn mx samples) \<le> length [0 .. n - 1]"
    using length_remdups_leq [of "map (\<lambda>i. big_div ((mx - mn) * i) (n - 1) + mn) [0 .. n - 1]"]
    by (simp add: candidates_def Let_def n_def split: if_splits)
  then show ?thesis by (simp add: n_def split: if_splits)
qed

section \<open>The best size\<close>

definition profits :: "Evaluation result list \<Rightarrow> (int \<times> int) list" where
  "profits outs = List.map_filter (\<lambda>out. case out of
     Inl _ \<Rightarrow> None | Inr ev \<Rightarrow> map_option (\<lambda>p. (evAmount ev, p)) (evNetProfit ev)) outs"

lemma profits_simps [simp]:
  "profits [] = []"
  "profits (Inl e # outs) = profits outs"
  "profits (Inr ev # outs) = (case evNetProfit ev of None \<Rightarrow> [] | Some p \<Rightarrow> [(evAmount ev, p)]) @ profits outs"
  by (simp_all add: profits_def List.map_filter_def split: option.splits)

lemma fold_absorb_best:
  assumes "best = fold absorb outs b0"
  shows "(olAmount best = None \<longleftrightarrow> olAmount b0 = None \<and> profits outs = [])"
    and "olAmount best = Some a \<Longrightarrow> (a, olNetProfit best) \<in> set (profits outs) \<or> olAmount b0 = Some a \<and> olNetProfit best = olNetProfit b0"
    and "\<forall>x\<in>set (profits outs). snd x \<le> olNetProfit best"
    and "olAmount b0 \<noteq> None \<Longrightarrow> olNetProfit b0 \<le> olNetProfit best"
    and "olEvaluated best = olEvaluated b0 + int (length outs)"
proof -
  have "(olAmount best = None \<longleftrightarrow> olAmount b0 = None \<and> profits outs = [])
    \<and> (\<forall>a. olAmount best = Some a \<longrightarrow> (a, olNetProfit best) \<in> set (profits outs) \<or> olAmount b0 = Some a \<and> olNetProfit best = olNetProfit b0)
    \<and> (\<forall>x\<in>set (profits outs). snd x \<le> olNetProfit best)
    \<and> (olAmount b0 \<noteq> None \<longrightarrow> olNetProfit b0 \<le> olNetProfit best)
    \<and> olEvaluated best = olEvaluated b0 + int (length outs)"
    using assms
  proof (induction outs arbitrary: b0)
    case Nil
    then show ?case by simp
  next
    case (Cons out outs)
    show ?case
    proof (cases out)
      case (Inl e)
      then show ?thesis using Cons.IH [of "absorb out b0"] Cons.prems by (auto simp: absorb_def Let_def)
    next
      case (Inr ev)
      show ?thesis
      proof (cases "evNetProfit ev")
        case None
        then show ?thesis
          using Cons.IH [of "absorb out b0"] Cons.prems Inr by (auto simp: absorb_def Let_def)
      next
        case (Some p)
        then show ?thesis
          using Cons.IH [of "absorb out b0"] Cons.prems Inr
          by (cases "olAmount b0 = None \<or> p > olNetProfit b0") (auto simp: absorb_def Let_def)
      qed
    qed
  qed
  then show "(olAmount best = None \<longleftrightarrow> olAmount b0 = None \<and> profits outs = [])"
    "olAmount best = Some a \<Longrightarrow> (a, olNetProfit best) \<in> set (profits outs) \<or> olAmount b0 = Some a \<and> olNetProfit best = olNetProfit b0"
    "\<forall>x\<in>set (profits outs). snd x \<le> olNetProfit best"
    "olAmount b0 \<noteq> None \<Longrightarrow> olNetProfit b0 \<le> olNetProfit best"
    "olEvaluated best = olEvaluated b0 + int (length outs)" by auto
qed

text \<open>
  C22: whatever order the workers' outcomes arrive in, the optimizer returns an evaluated amount whose
  net profit is the largest of all evaluated amounts; it fails only if no amount could be evaluated.
\<close>

theorem Optimize_best:
  assumes "range_ok r"
  shows "(let outs = map evaluate (schedule (candidates (the (rgMin r)) (the (rgMax r)) (rgSamples r))) in
    case Optimize evaluate schedule asset route r of
      Inl _ \<Rightarrow> profits outs = []
    | Inr best \<Rightarrow> (\<exists>a. olAmount best = Some a \<and> (a, olNetProfit best) \<in> set (profits outs))
        \<and> list_all (\<lambda>x. snd x \<le> olNetProfit best) (profits outs)
        \<and> olEvaluated best = int (length outs))"
proof -
  let ?outs = "map evaluate (schedule (candidates (the (rgMin r)) (the (rgMax r)) (rgSamples r)))"
  let ?best = "fold absorb ?outs (no_loan asset route)"
  note b = fold_absorb_best [of ?best ?outs "no_loan asset route", OF refl]
  show ?thesis
  proof (cases "olAmount ?best")
    case None
    then show ?thesis using b(1) assms by (simp add: Optimize_def Let_def no_loan_def)
  next
    case (Some a)
    then show ?thesis
      using b(2) [OF Some] b(3,5) assms by (auto simp: Optimize_def Let_def no_loan_def list_all_iff)
  qed
qed

text \<open>An evaluator for which every size loses its tenth and none is executable.\<close>

definition losing :: "int \<Rightarrow> Evaluation result" where
  "losing a = Inr \<lparr>evAmount = a, evNetProfit = Some (- (a div 10)), evExecutable = False, evReason = ''loss'',
     evPriceImpactBPS = 0\<rparr>"

definition demo_range :: Range where
  "demo_range = \<lparr>rgMin = Some 10, rgMax = Some 30, rgSamples = 3\<rparr>"

lemma demo_candidates: "candidates 10 30 3 = [10, 20, 30]"
  by (simp add: candidates_def Let_def upto_rec1)

theorem Optimize_best_witness:
  "range_ok demo_range \<and> (case Optimize losing rev ''A'' (mk_route [] []) demo_range of
     Inl _ \<Rightarrow> False | Inr best \<Rightarrow> list_all (\<lambda>x. snd x \<le> olNetProfit best) [(30, -3), (20, -2), (10, -1)])"
proof -
  have ok: "range_ok demo_range" by (simp add: range_ok_def demo_range_def)
  show ?thesis
    using ok Optimize_best [OF ok, of losing rev "''A''" "mk_route [] []"]
    by (simp add: demo_range_def demo_candidates losing_def Let_def split: sum.splits)
qed

text \<open>
  The error text says that no profitable executable size exists, but neither the sign of the profit nor
  \<open>Executable\<close> is looked at: a size that loses and is not executable is returned as the optimal loan.
\<close>

lemma Optimize_returns_loss:
  "\<exists>best. Optimize losing id ''A'' (mk_route [] []) demo_range = Inr best
     \<and> olNetProfit best < 0 \<and> olAmount best = Some 10"
  by (simp add: Optimize_def range_ok_def demo_range_def demo_candidates losing_def no_loan_def absorb_def Let_def)

end
