(* ===== verification/Opportunity.thy ===== *)
theory Opportunity
  imports Quotes Config Pricing Graph "HOL-Library.AList"
begin

text \<open>
  \<open>go/internal/opportunity/engine.go\<close>: the evaluation of a route at a loan amount, with the quote
  cache, the quote budget, the premium cache and the cost models. The engine's mutable fields are a
  record; the venues, the cost model, the clock and the RPC provider are parameters. A call runs on the
  pair of the engine state and the world. Metrics counters are left out.
\<close>

section \<open>Data\<close>

datatype EventType = Found | Rejected | QuoteFailed | PoolUpdated

record Hop =
  hPool :: Pool
  hAmountIn :: int
  hAmountOut :: int
  hQuoteGas :: u64
  hFee :: u32

record Opportunity =
  oRoute :: Route
  oAmountIn :: int
  oAmountOut :: int
  oHops :: "Hop list"
  oSourceBlock :: u64
  oGrossProfit :: int
  oAavePremium :: int
  oExpectedProfit :: int
  oGasEstimate :: int
  oL1DataFee :: int
  oMinProfit :: int
  oConfidence :: string
  oTimestamp :: int

record Event =
  evType :: EventType
  evOpportunity :: "Opportunity option"
  evReason :: string
  evTimestamp :: int

text \<open>A cache entry without outcome is in flight: its \<open>ready\<close> channel is open.\<close>

record quoteCacheEntry =
  ceOutcome :: "QuoteResult result option"
  cePool :: string

record Engine =
  premiumBPS :: bigint
  premiumExpiry :: int
  quoteBlock :: u64
  quotePersistent :: bool
  quoteCache :: "(string \<times> quoteCacheEntry) list"
  quoteHits :: u64
  quoteDedup :: u64
  quoteMisses :: u64
  quoteInvalidations :: u64
  quoteBudget :: int
  quoteBudgetUsed :: int
  quoteBudgetDropped :: u64
  Events :: "Event list"

type_synonym 'w CostModel = "Token \<Rightarrow> Route \<Rightarrow> Hop list \<Rightarrow> ('w, int \<times> int) io"

text \<open>
  \<open>vAwait\<close> is what a goroutine receives that waits for another one's quote of the same key.
\<close>

record 'w Env =
  vCall :: "string \<Rightarrow> string \<Rightarrow> ('w, string) io"
  vMarket :: MarketConfig
  vUni :: "Request \<Rightarrow> ('w, QuoteResult) io"
  vCamelot :: "Request \<Rightarrow> ('w, QuoteResult) io"
  vCost :: "'w CostModel"
  vMinProfit :: int
  vNow :: "'w \<Rightarrow> int"
  vAwait :: "string \<Rightarrow> ('w, QuoteResult) io"

type_synonym ('w, 'a) eio = "(Engine \<times> 'w, 'a) io"

definition on_world :: "('w, 'a) io \<Rightarrow> ('w, 'a) eio" where
  "on_world m = (\<lambda>(e, w). let (r, w') = m w in (r, (e, w')))"

section \<open>Cost models\<close>

definition StaticCostModel :: "bigint \<Rightarrow> bigint \<Rightarrow> 'w CostModel" where
  "StaticCostModel l2fee l1fee asset route hops =
     (case (l2fee, l1fee) of
        (Some l2, Some l1) \<Rightarrow> ret (l2, l1)
      | _ \<Rightarrow> throw ''L2 and L1/data fee estimates are required'')"

definition feeToBaseRaw :: "int \<Rightarrow> rat \<Rightarrow> rat \<Rightarrow> nat \<Rightarrow> int" where
  "feeToBaseRaw component totalUSD totalETH decimals =
     (if component = 0 \<or> totalETH = 0 then 0
      else let componentETH = of_int component / of_int (10 ^ 18);
               price = totalUSD / totalETH;
               v = componentETH * price * of_int (10 ^ decimals);
               (num, denom) = quotient_of v
           in big_quo num denom)"

definition ArbitrumCostModel :: "keccak \<Rightarrow> 'w FeeService \<Rightarrow> 'w CostModel" where
  "ArbitrumCostModel kk s asset route hops =
     bindE (Fees.Estimate kk s 5000000 (replicate (4 + 160 + 256 * length hops) 0)) (\<lambda>est.
       ret (feeToBaseRaw (fL2Cost est) (fTotalUSD est) (fTotalETH est) (unat (tDecimals asset)),
            feeToBaseRaw (fL1Cost est) (fTotalUSD est) (fTotalETH est) (unat (tDecimals asset))))"

record cachedCostEntry =
  ccL2 :: int
  ccL1 :: int
  ccUntil :: int

type_synonym cost_cache = "string \<rightharpoonup> cachedCostEntry"

definition cost_key :: "Token \<Rightarrow> Hop list \<Rightarrow> string" where
  "cost_key asset hops =
     tAddress asset @ '':'' @ show_nat (unat (tDecimals asset)) @ '':'' @ show_nat (length hops)"

text \<open>\<open>CachedCostModel.Estimate\<close> for one caller at a time (no call in flight); the cache is the first
  component of the world.\<close>

definition CachedCostModel :: "'w CostModel option \<Rightarrow> int \<Rightarrow> ('w \<Rightarrow> int) \<Rightarrow> (cost_cache \<times> 'w) CostModel" where
  "CachedCostModel base ttl now asset route hops = (\<lambda>(cache, w).
     case base of
       None \<Rightarrow> (Inl ''cached cost model requires a base model'', (cache, w))
     | Some estimate \<Rightarrow>
         if ttl \<le> 0 then (let (r, w') = estimate asset route hops w in (r, (cache, w')))
         else
           let key = cost_key asset hops in
           case (case cache key of Some entry \<Rightarrow> if now w < ccUntil entry then Some entry else None | None \<Rightarrow> None) of
             Some entry \<Rightarrow> (Inr (ccL2 entry, ccL1 entry), (cache, w))
           | None \<Rightarrow>
               (case estimate asset route hops w of
                  (Inl err, w') \<Rightarrow> (Inl err, (cache, w'))
                | (Inr (l2, l1), w') \<Rightarrow>
                    (Inr (l2, l1), (cache(key \<mapsto> \<lparr>ccL2 = l2, ccL1 = l1, ccUntil = now w' + ttl\<rparr>), w'))))"

section \<open>The quote cache\<close>

definition ResetQuoteCache :: "u64 \<Rightarrow> Engine \<Rightarrow> Engine" where
  "ResetQuoteCache block e =
     e\<lparr>quoteBlock := block, quoteCache := [], quoteHits := 0, quoteDedup := 0, quoteMisses := 0,
       quoteInvalidations := 0, quoteBudgetUsed := 0, quoteBudgetDropped := 0\<rparr>"

definition PrepareQuoteCache :: "u64 \<Rightarrow> string set \<Rightarrow> bool \<Rightarrow> Engine \<Rightarrow> Engine" where
  "PrepareQuoteCache block dirty persistent e =
     (let e1 = e\<lparr>quoteBlock := block, quotePersistent := persistent, quoteHits := 0, quoteDedup := 0,
                quoteMisses := 0, quoteInvalidations := 0, quoteBudgetUsed := 0, quoteBudgetDropped := 0\<rparr> in
      if \<not> persistent then e1\<lparr>quoteCache := []\<rparr>
      else
        let kept = filter (\<lambda>(key, entry). cePool entry \<notin> dirty) (quoteCache e1);
            e2 = e1\<lparr>quoteCache := kept,
                    quoteInvalidations := of_nat (length (quoteCache e1) - length kept)\<rparr>
        in if length kept > 32768
           then e2\<lparr>quoteInvalidations := quoteInvalidations e2 + of_nat (length kept), quoteCache := []\<rparr>
           else e2)"

definition SetQuoteBudget :: "int \<Rightarrow> Engine \<Rightarrow> Engine" where
  "SetQuoteBudget limit e = e\<lparr>quoteBudget := limit, quoteBudgetUsed := 0, quoteBudgetDropped := 0\<rparr>"

definition quoteKey :: "Engine \<Rightarrow> Request \<Rightarrow> string" where
  "quoteKey e req =
     (case qAmountIn req of
        None \<Rightarrow> ''''
      | Some amountIn \<Rightarrow>
          if trim_space (pAddress (qPool req)) = '''' then ''''
          else let stateVersion = (if quotePersistent e \<and> pLastUpdatedBlock (qPool req) > 0
                                   then pLastUpdatedBlock (qPool req) else quoteBlock e)
               in join ''|'' [show_nat (unat stateVersion), to_lower (pAddress (qPool req)), pDEX (qPool req),
                    show_nat (unat (pFee (qPool req))), to_lower (qTokenIn req), to_lower (qTokenOut req),
                    show_int amountIn])"

datatype quote_start = Hit "QuoteResult result" | Wait | Dropped | Fresh

text \<open>The first critical section of \<open>quote\<close>, and the second one.\<close>

definition quote_begin :: "string \<Rightarrow> Request \<Rightarrow> Engine \<Rightarrow> quote_start \<times> Engine" where
  "quote_begin key req e =
     (case map_of (quoteCache e) key of
        Some entry \<Rightarrow>
          (case ceOutcome entry of
             None \<Rightarrow> (Wait, e\<lparr>quoteDedup := quoteDedup e + 1\<rparr>)
           | Some r \<Rightarrow> (Hit r, e\<lparr>quoteHits := quoteHits e + 1\<rparr>))
      | None \<Rightarrow>
          if quoteBudget e > 0 \<and> quoteBudgetUsed e \<ge> quoteBudget e
          then (Dropped, e\<lparr>quoteBudgetDropped := quoteBudgetDropped e + 1\<rparr>)
          else (Fresh, e\<lparr>quoteBudgetUsed := quoteBudgetUsed e + 1,
                 quoteCache := AList.update key \<lparr>ceOutcome = None, cePool = to_lower (pAddress (qPool req))\<rparr> (quoteCache e),
                 quoteMisses := quoteMisses e + 1\<rparr>))"

definition quote_finish :: "string \<Rightarrow> QuoteResult result \<Rightarrow> Engine \<Rightarrow> Engine" where
  "quote_finish key r e =
     e\<lparr>quoteCache := map (\<lambda>(k, entry). if k = key then (k, entry\<lparr>ceOutcome := Some r\<rparr>) else (k, entry)) (quoteCache e)\<rparr>"

definition quote :: "'w Env \<Rightarrow> (Request \<Rightarrow> ('w, QuoteResult) io) \<Rightarrow> Request \<Rightarrow> ('w, QuoteResult) eio" where
  "quote v quoter req = (\<lambda>(e, w).
     let key = quoteKey e req in
     if key = '''' then on_world (quoter req) (e, w)
     else case quote_begin key req e of
            (Hit r, e') \<Rightarrow> (r, (e', w))
          | (Wait, e') \<Rightarrow> on_world (vAwait v key) (e', w)
          | (Dropped, e') \<Rightarrow> (Inl ''fresh quote budget exhausted'', (e', w))
          | (Fresh, e') \<Rightarrow> let (r, w') = quoter req w in (r, (quote_finish key r e', w')))"

section \<open>Premium and events\<close>

definition aavePremiumBPS :: "keccak \<Rightarrow> 'w Env \<Rightarrow> ('w, int) eio" where
  "aavePremiumBPS kk v = (\<lambda>(e, w).
     case (case premiumBPS e of Some bps \<Rightarrow> if vNow v w < premiumExpiry e then Some bps else None | None \<Rightarrow> None) of
       Some bps \<Rightarrow> (Inr bps, (e, w))
     | None \<Rightarrow>
         (case bindE (vCall v (mAavePool (vMarket v)) (StaticCall kk ''FLASHLOAN_PREMIUM_TOTAL()'' []))
                 (\<lambda>raw. lift_res (DecodeWords raw)) w of
            (Inl err, w') \<Rightarrow> (Inl err, (e, w'))
          | (Inr words, w') \<Rightarrow>
              (Inr (WordUint (hd words)),
               (e\<lparr>premiumBPS := Some (WordUint (hd words)), premiumExpiry := vNow v w' + 10 * 10 ^ 9\<rparr>, w'))))"

definition aavePremium :: "keccak \<Rightarrow> 'w Env \<Rightarrow> int \<Rightarrow> ('w, int) eio" where
  "aavePremium kk v amount = bindE (aavePremiumBPS kk v) (\<lambda>bps. ret (big_div (amount * bps) 10000))"

text \<open>The event channel has room for 4096 events; a full channel drops the event.\<close>

definition emit :: "Event \<Rightarrow> Engine \<Rightarrow> Engine" where
  "emit event e = (if length (Events e) < 4096 then e\<lparr>Events := Events e @ [event]\<rparr> else e)"

definition routeSourceBlock :: "Route \<Rightarrow> u64" where
  "routeSourceBlock route =
     fold (\<lambda>pool source. if pLastUpdatedBlock pool = 0 then source
                         else if source = 0 \<or> pLastUpdatedBlock pool < source then pLastUpdatedBlock pool else source)
       (rHops route) 0"

section \<open>Evaluation\<close>

definition bounded_route :: "Route \<Rightarrow> bool" where
  "bounded_route route \<longleftrightarrow> 2 \<le> length (rHops route) \<and> length (rHops route) \<le> 4
     \<and> length (rSymbols route) = length (rHops route) + 1"

definition hop_quoter :: "'w Env \<Rightarrow> Pool \<Rightarrow> (Request \<Rightarrow> ('w, QuoteResult) io) result" where
  "hop_quoter v pool =
     (if pDEX pool = UniswapV3 then Inr (vUni v)
      else if pDEX pool = CamelotV3 then Inr (vCamelot v)
      else Inl ''unsupported DEX'')"

definition hop_request :: "'w Env \<Rightarrow> Route \<Rightarrow> string \<Rightarrow> string \<Rightarrow> Pool \<Rightarrow> int
    \<Rightarrow> ((Request \<Rightarrow> ('w, QuoteResult) io) \<times> Request) result" where
  "hop_request v route symIn symOut pool current =
     (case token (vMarket v) symIn of
        None \<Rightarrow> Inl (''unknown token '' @ symIn)
      | Some tin \<Rightarrow>
          (case token (vMarket v) symOut of
             None \<Rightarrow> Inl (''unknown token '' @ symOut)
           | Some tout \<Rightarrow>
               if \<not> Supports pool (tAddress tin) (tAddress tout)
               then Inl (''pool does not support '' @ Route_String route)
               else (case hop_quoter v pool of
                       Inl err \<Rightarrow> Inl err
                     | Inr quoter \<Rightarrow>
                         Inr (quoter, \<lparr>qTokenIn = tAddress tin, qTokenOut = tAddress tout,
                                       qAmountIn = Some current, qPool = pool\<rparr>))))"

definition mk_hop :: "Pool \<Rightarrow> int \<Rightarrow> int \<Rightarrow> QuoteResult \<Rightarrow> Hop" where
  "mk_hop pool amountIn amountOut r = \<lparr>hPool = pool, hAmountIn = amountIn, hAmountOut = amountOut,
     hQuoteGas = qrEstimatedGas r, hFee = qrFee r\<rparr>"

text \<open>
  The loops over the hops. A quote without an amount would dereference a nil pointer; here it is an
  error value.
\<close>

fun silent_hops :: "'w Env \<Rightarrow> Route \<Rightarrow> string list \<Rightarrow> Pool list \<Rightarrow> int \<Rightarrow> ('w, Hop list \<times> int) eio" where
  "silent_hops v route (symIn # symOut # syms) (pool # pools) current =
     bindE (lift_res (hop_request v route symIn symOut pool current)) (\<lambda>(quoter, req).
     bindE (quote v quoter req) (\<lambda>r.
       case qrAmountOut r of
         None \<Rightarrow> throw ''nil pointer dereference''
       | Some out \<Rightarrow>
           bindE (silent_hops v route (symOut # syms) pools out) (\<lambda>(hops, final).
             ret (mk_hop pool current out r # hops, final))))"
| "silent_hops v route syms pools current = ret ([], current)"

definition EvaluateSilent :: "keccak \<Rightarrow> 'w Env \<Rightarrow> Route \<Rightarrow> int \<Rightarrow> ('w, Opportunity) eio" where
  "EvaluateSilent kk v route amount =
     (if \<not> bounded_route route then throw ''invalid bounded route''
      else case token (vMarket v) (hd (rSymbols route)) of
             None \<Rightarrow> throw ''route must start and end in configured loan asset''
           | Some asset \<Rightarrow>
               if last (rSymbols route) \<noteq> hd (rSymbols route)
               then throw ''route must start and end in configured loan asset''
               else
                 bindE (silent_hops v route (rSymbols route) (rHops route) amount) (\<lambda>(hops, current).
                 bindE (aavePremium kk v amount) (\<lambda>premium.
                 bindE (on_world (vCost v asset route hops)) (\<lambda>(l2, l1).
                   let result = Pricing.Evaluate \<lparr>AmountIn = Some amount, AmountOut = Some current,
                         AavePremium = Some premium, L2Fee = Some l2, L1DataFee = Some l1,
                         MinProfit = Some (vMinProfit v)\<rparr>
                   in (\<lambda>(e, w). (Inr \<lparr>oRoute = route, oAmountIn = amount, oAmountOut = current, oHops = hops,
                         oSourceBlock = 0, oGrossProfit = GrossProfit result, oAavePremium = premium,
                         oExpectedProfit = ExpectedProfit result, oGasEstimate = l2, oL1DataFee = l1,
                         oMinProfit = vMinProfit v, oConfidence = ''optimizer_sample'', oTimestamp = vNow v w\<rparr>,
                       (e, w)))))))"

definition quote_or_event :: "'w Env \<Rightarrow> (Request \<Rightarrow> ('w, QuoteResult) io) \<Rightarrow> Request \<Rightarrow> ('w, QuoteResult) eio" where
  "quote_or_event v quoter req s =
     (case quote v quoter req s of
        (Inl err, (e, w)) \<Rightarrow>
          (Inl err, (emit \<lparr>evType = QuoteFailed, evOpportunity = None, evReason = err, evTimestamp = vNow v w\<rparr> e, w))
      | (Inr r, s') \<Rightarrow> (Inr r, s'))"

fun eval_hops :: "'w Env \<Rightarrow> Route \<Rightarrow> string list \<Rightarrow> Pool list \<Rightarrow> int \<Rightarrow> ('w, Hop list \<times> int) eio" where
  "eval_hops v route (symIn # symOut # syms) (pool # pools) current =
     bindE (lift_res (hop_request v route symIn symOut pool current)) (\<lambda>(quoter, req).
     bindE (quote_or_event v quoter req) (\<lambda>r.
       case qrAmountOut r of
         None \<Rightarrow> throw ''nil pointer dereference''
       | Some out \<Rightarrow>
           bindE (eval_hops v route (symOut # syms) pools out) (\<lambda>(hops, final).
             ret (mk_hop pool current out r # hops, final))))"
| "eval_hops v route syms pools current = ret ([], current)"

definition Evaluate :: "keccak \<Rightarrow> 'w Env \<Rightarrow> Route \<Rightarrow> int \<Rightarrow> ('w, Opportunity) eio" where
  "Evaluate kk v route amount =
     (if \<not> bounded_route route then throw ''invalid bounded route''
      else case token (vMarket v) (hd (rSymbols route)) of
             None \<Rightarrow> throw ''route must start and end in a configured loan asset''
           | Some asset \<Rightarrow>
               if last (rSymbols route) \<noteq> hd (rSymbols route)
               then throw ''route must start and end in a configured loan asset''
               else
                 bindE (eval_hops v route (rSymbols route) (rHops route) amount) (\<lambda>(hops, current).
                 bindE (aavePremium kk v amount) (\<lambda>premium.
                 bindE (on_world (vCost v asset route hops)) (\<lambda>(l2, l1).
                   let result = Pricing.Evaluate \<lparr>AmountIn = Some amount, AmountOut = Some current,
                         AavePremium = Some premium, L2Fee = Some l2, L1DataFee = Some l1,
                         MinProfit = Some (vMinProfit v)\<rparr>
                   in (\<lambda>(e, w).
                     let opportunity = \<lparr>oRoute = route, oAmountIn = amount, oAmountOut = current, oHops = hops,
                           oSourceBlock = routeSourceBlock route, oGrossProfit = GrossProfit result,
                           oAavePremium = premium, oExpectedProfit = ExpectedProfit result, oGasEstimate = l2,
                           oL1DataFee = l1, oMinProfit = vMinProfit v, oConfidence = ''pre_simulation'',
                           oTimestamp = vNow v w\<rparr>;
                         event = (if Profitable result
                           then \<lparr>evType = Found, evOpportunity = Some opportunity, evReason = '''',
                                 evTimestamp = oTimestamp opportunity\<rparr>
                           else \<lparr>evType = Rejected, evOpportunity = Some opportunity,
                                 evReason = ''profitability threshold not met'', evTimestamp = oTimestamp opportunity\<rparr>)
                     in (Inr opportunity, (emit event e, w)))))))"

text \<open>\<open>EvaluateMany\<close> in the order in which the workers take the routes; results are dropped.\<close>

definition EvaluateMany :: "keccak \<Rightarrow> 'w Env \<Rightarrow> Route list \<Rightarrow> int \<Rightarrow> Engine \<times> 'w \<Rightarrow> Engine \<times> 'w" where
  "EvaluateMany kk v rs amount s = fold (\<lambda>route s. snd (Evaluate kk v route amount s)) rs s"

section \<open>Evaluation and silent evaluation agree\<close>

definition keeps_events :: "('w, 'a) eio \<Rightarrow> bool" where
  "keeps_events m \<longleftrightarrow> (\<forall>s. Events (fst (snd (m s))) = Events (fst s))"

lemma keeps_eventsD: "keeps_events m \<Longrightarrow> m (e, w) = (r, (e', w')) \<Longrightarrow> Events e' = Events e"
  unfolding keeps_events_def by (metis fst_conv snd_conv)

lemma keeps_events_basic [simp]:
  "keeps_events (Pair r)" "keeps_events (ret a)" "keeps_events (throw err)" "keeps_events (lift_res r)"
  "keeps_events (on_world m)"
  by (auto simp: keeps_events_def on_world_def split: prod.splits)

lemma keeps_events_bind:
  assumes "keeps_events m" "\<And>a. keeps_events (f a)"
  shows "keeps_events (bindE m f)"
  using assms by (auto simp: keeps_events_def bindE_def split: prod.splits sum.splits) (metis fst_conv snd_conv)+

lemma quote_begin_events: "quote_begin key req e = (o1, e') \<Longrightarrow> Events e' = Events e"
  by (auto simp: quote_begin_def split: option.splits if_splits)

lemma keeps_events_quote [simp]: "keeps_events (quote v q req)"
  by (auto simp: keeps_events_def quote_def on_world_def quote_finish_def Let_def
      split: prod.splits quote_start.splits dest: quote_begin_events)

lemma keeps_events_premium [simp]: "keeps_events (aavePremium kk v amount)"
proof -
  have "keeps_events (aavePremiumBPS kk v)"
    by (auto simp: keeps_events_def aavePremiumBPS_def split: prod.splits sum.splits option.splits)
  then show ?thesis unfolding aavePremium_def by (rule keeps_events_bind) simp
qed

lemma keeps_events_silent_hops [simp]: "keeps_events (silent_hops v route syms pools current)"
  by (induction v route syms pools current rule: silent_hops.induct)
     (auto intro!: keeps_events_bind split: option.splits)

lemma eval_hops_silent:
  "eval_hops v route syms pools current (e, w) = (r1, (e1, w1)) \<Longrightarrow>
   silent_hops v route syms pools current (e, w) = (r2, (e2, w2)) \<Longrightarrow>
   r1 = r2 \<and> w1 = w2 \<and> (case r1 of Inr _ \<Rightarrow> e1 = e2 | Inl _ \<Rightarrow> e1\<lparr>Events := Events e\<rparr> = e2)"
proof (induction v route syms pools current arbitrary: e w r1 e1 w1 r2 e2 w2 rule: eval_hops.induct)
  case (1 v route symIn symOut syms pool pools current)
  show ?case
  proof (cases "hop_request v route symIn symOut pool current")
    case (Inl err)
    then show ?thesis using "1.prems" by (auto simp: bindE_def)
  next
    case (Inr x)
    obtain quoter req where x: "x = (quoter, req)" by (cases x)
    obtain r e' w' where q: "quote v quoter req (e, w) = (r, (e', w'))" by (metis surj_pair)
    have ev: "Events e' = Events e" using keeps_eventsD [OF keeps_events_quote q] .
    show ?thesis
    proof (cases r)
      case (Inl err)
      then show ?thesis using "1.prems" Inr x q ev
        by (auto simp: bindE_def quote_or_event_def emit_def)
    next
      case (Inr qr)
      show ?thesis
      proof (cases "qrAmountOut qr")
        case None
        then show ?thesis using "1.prems" Inr x q ev \<open>hop_request _ _ _ _ _ _ = Inr x\<close>
          by (auto simp: bindE_def quote_or_event_def)
      next
        case (Some out)
        obtain r3 e3 w3 where n1: "eval_hops v route (symOut # syms) pools out (e', w') = (r3, (e3, w3))"
          by (metis surj_pair)
        obtain r4 e4 w4 where n2: "silent_hops v route (symOut # syms) pools out (e', w') = (r4, (e4, w4))"
          by (metis surj_pair)
        have ih: "r3 = r4 \<and> w3 = w4 \<and> (case r3 of Inr _ \<Rightarrow> e3 = e4 | Inl _ \<Rightarrow> e3\<lparr>Events := Events e'\<rparr> = e4)"
          using "1.IH" [OF Some n1 n2] x by auto
        then show ?thesis
          using "1.prems" Inr x q ev Some n1 n2 \<open>hop_request _ _ _ _ _ _ = Inr x\<close>
          by (auto simp: bindE_def quote_or_event_def split: sum.splits prod.splits)
      qed
    qed
  qed
qed (auto)

definition same_but_events :: "Engine \<Rightarrow> Engine \<Rightarrow> bool" where
  "same_but_events e1 e2 \<longleftrightarrow> e1\<lparr>Events := Events e2\<rparr> = e2"

lemma same_but_events_refl [simp]: "same_but_events e e"
  by (simp add: same_but_events_def)

lemma same_but_events_emit [simp]: "Events e = es \<Longrightarrow> same_but_events (emit ev e) e"
  by (simp add: same_but_events_def emit_def)

text \<open>The part of both evaluations after the hops.\<close>

definition price_route :: "keccak \<Rightarrow> 'w Env \<Rightarrow> Token \<Rightarrow> Route \<Rightarrow> int \<Rightarrow> Hop list \<Rightarrow> int
    \<Rightarrow> ('w, int \<times> int \<times> int) eio" where
  "price_route kk v asset route amount hops current =
     bindE (aavePremium kk v amount) (\<lambda>premium.
     bindE (on_world (vCost v asset route hops)) (\<lambda>(l2, l1). ret (premium, l2, l1)))"

lemma keeps_events_price_route: "keeps_events (price_route kk v asset route amount hops current)"
  unfolding price_route_def by (intro keeps_events_bind) (auto intro!: keeps_events_bind)

text \<open>
  C9: the silent evaluation used for size sampling computes exactly what the event-emitting evaluation
  computes: from any engine state both succeed or both fail, leave the same world and the same engine
  but for the event queue, which the silent one never touches, and return the same economics; they differ
  in the confidence label and the source block only.
\<close>

theorem Evaluate_silent_agree:
  "(case (Opportunity.Evaluate kk v route amount (e, w), EvaluateSilent kk v route amount (e, w)) of
      ((Inr o1, (e1, w1)), (Inr o2, (e2, w2))) \<Rightarrow>
        o1 = o2\<lparr>oSourceBlock := routeSourceBlock route, oConfidence := ''pre_simulation''\<rparr>
        \<and> w1 = w2 \<and> same_but_events e1 e2 \<and> Events e2 = Events e
    | ((Inl _, (e1, w1)), (Inl _, (e2, w2))) \<Rightarrow> w1 = w2 \<and> same_but_events e1 e2 \<and> Events e2 = Events e
    | _ \<Rightarrow> False)"
proof (cases "bounded_route route \<and> token (vMarket v) (hd (rSymbols route)) \<noteq> None
    \<and> last (rSymbols route) = hd (rSymbols route)")
  case False
  then show ?thesis by (auto simp: Opportunity.Evaluate_def EvaluateSilent_def split: option.splits)
next
  case True
  then obtain asset where guard: "bounded_route route" "token (vMarket v) (hd (rSymbols route)) = Some asset"
    "last (rSymbols route) = hd (rSymbols route)" by auto
  obtain r1 e1 w1 where h1: "eval_hops v route (rSymbols route) (rHops route) amount (e, w) = (r1, (e1, w1))"
    by (metis surj_pair)
  obtain r2 e2 w2 where h2: "silent_hops v route (rSymbols route) (rHops route) amount (e, w) = (r2, (e2, w2))"
    by (metis surj_pair)
  have hh: "r1 = r2 \<and> w1 = w2 \<and> (case r1 of Inr _ \<Rightarrow> e1 = e2 | Inl _ \<Rightarrow> e1\<lparr>Events := Events e\<rparr> = e2)"
    using eval_hops_silent [OF h1 h2] .
  have ev2: "Events e2 = Events e" using keeps_eventsD [OF keeps_events_silent_hops h2] .
  show ?thesis
  proof (cases r1)
    case (Inl err)
    then show ?thesis
      using guard h1 h2 hh ev2
      by (auto simp: Opportunity.Evaluate_def EvaluateSilent_def bindE_def same_but_events_def)
  next
    case (Inr x)
    obtain hops current where x: "x = (hops, current)" by (cases x)
    obtain r3 e3 w3 where p: "price_route kk v asset route amount hops current (e2, w2) = (r3, (e3, w3))"
      by (metis surj_pair)
    have ev3: "Events e3 = Events e" using keeps_eventsD [OF keeps_events_price_route p] ev2 by simp
    show ?thesis
      using guard h1 h2 hh Inr x p ev3
      by (auto simp: Opportunity.Evaluate_def EvaluateSilent_def price_route_def bindE_def Let_def
          split: sum.splits prod.splits if_splits)
  qed
qed

section \<open>What a successful evaluation returns\<close>

text \<open>The hops carry the amount of one to the next.\<close>

fun hop_chain :: "int \<Rightarrow> Hop list \<Rightarrow> int \<Rightarrow> bool" where
  "hop_chain amount [] out = (amount = out)"
| "hop_chain amount (h # hs) out = (hAmountIn h = amount \<and> hop_chain (hAmountOut h) hs out)"

lemma eval_hops_chain:
  "eval_hops v route syms pools current s = (Inr (hops, out), s') \<Longrightarrow> length syms = Suc (length pools) \<Longrightarrow>
   hop_chain current hops out \<and> map hPool hops = pools"
proof (induction v route syms pools current arbitrary: s s' hops out rule: eval_hops.induct)
  case (1 v route symIn symOut syms pool pools current)
  from "1.prems"(1) obtain quoter req qr amountOut hops' s1 s2 where
    h: "hop_request v route symIn symOut pool current = Inr (quoter, req)"
    and a: "qrAmountOut qr = Some amountOut"
    and n: "eval_hops v route (symOut # syms) pools amountOut s1 = (Inr (hops', out), s2)"
    and hops: "hops = mk_hop pool current amountOut qr # hops'"
    by (auto elim!: bindE_InrE split: option.splits)
  show ?case using "1.IH" [OF a n] "1.prems"(2) by (simp add: hops mk_hop_def)
qed auto


section \<open>The quote budget under concurrency\<close>

text \<open>
  The two critical sections of \<open>quote\<close> interleave freely; the second component of the state lists the
  keys whose on-chain quote is running.
\<close>

inductive quote_step :: "Engine \<times> string list \<Rightarrow> Engine \<times> string list \<Rightarrow> bool" where
  fresh: "quote_begin key req e = (Fresh, e') \<Longrightarrow> quote_step (e, fl) (e', key # fl)"
| other: "quote_begin key req e = (start, e') \<Longrightarrow> start \<noteq> Fresh \<Longrightarrow> quote_step (e, fl) (e', fl)"
| finish: "key \<in> set fl \<Longrightarrow> quote_step (e, fl) (quote_finish key r e, remove1 key fl)"

inductive_cases quote_stepE: "quote_step s t"

definition pending :: "Engine \<Rightarrow> string set" where
  "pending e = {k. \<exists>entry. map_of (quoteCache e) k = Some entry \<and> ceOutcome entry = None}"

definition quote_inv :: "int \<Rightarrow> nat \<Rightarrow> Engine \<times> string list \<Rightarrow> bool" where
  "quote_inv B n s \<longleftrightarrow>
     (let (e, fl) = s in
      quoteBudget e = B \<and> distinct fl \<and> set fl = pending e \<and> 0 \<le> quoteBudgetUsed e
      \<and> (0 < B \<longrightarrow> quoteBudgetUsed e \<le> B)
      \<and> distinct (map fst (quoteCache e)) \<and> length (quoteCache e) = n + nat (quoteBudgetUsed e))"

definition quote_init :: "int \<Rightarrow> nat \<Rightarrow> Engine \<times> string list \<Rightarrow> bool" where
  "quote_init B n s \<longleftrightarrow>
     (let (e, fl) = s in quoteBudget e = B \<and> quoteBudgetUsed e = 0 \<and> fl = [] \<and> pending e = {}
      \<and> distinct (map fst (quoteCache e)) \<and> length (quoteCache e) = n)"

lemma quote_begin_Fresh:
  assumes "quote_begin key req e = (Fresh, e')"
  shows "map_of (quoteCache e) key = None" "\<not> (quoteBudget e > 0 \<and> quoteBudgetUsed e \<ge> quoteBudget e)"
    "quoteBudget e' = quoteBudget e" "quoteBudgetUsed e' = quoteBudgetUsed e + 1"
    "quoteCache e' = quoteCache e @ [(key, \<lparr>ceOutcome = None, cePool = to_lower (pAddress (qPool req))\<rparr>)]"
proof -
  have upd: "map_of xs k = None \<Longrightarrow> AList.update k x xs = xs @ [(k, x)]" for k :: string and x and xs :: "(string \<times> quoteCacheEntry) list"
    by (induction xs) (auto split: if_splits)
  show "map_of (quoteCache e) key = None" "\<not> (quoteBudget e > 0 \<and> quoteBudgetUsed e \<ge> quoteBudget e)"
    "quoteBudget e' = quoteBudget e" "quoteBudgetUsed e' = quoteBudgetUsed e + 1"
    "quoteCache e' = quoteCache e @ [(key, \<lparr>ceOutcome = None, cePool = to_lower (pAddress (qPool req))\<rparr>)]"
    using assms by (auto simp: quote_begin_def upd split: option.splits if_splits)
qed

lemma quote_begin_other:
  "quote_begin key req e = (start, e') \<Longrightarrow> start \<noteq> Fresh \<Longrightarrow>
   quoteBudget e' = quoteBudget e \<and> quoteBudgetUsed e' = quoteBudgetUsed e \<and> quoteCache e' = quoteCache e"
  by (auto simp: quote_begin_def split: option.splits if_splits)

lemma map_of_finish:
  "map_of (quoteCache (quote_finish key r e)) k =
     (if k = key then map_option (\<lambda>entry. entry\<lparr>ceOutcome := Some r\<rparr>) (map_of (quoteCache e) k)
      else map_of (quoteCache e) k)"
proof -
  have "map_of (map (\<lambda>(k, entry). if k = key then (k, entry\<lparr>ceOutcome := Some r\<rparr>) else (k, entry)) xs) k =
     (if k = key then map_option (\<lambda>entry. entry\<lparr>ceOutcome := Some r\<rparr>) (map_of xs k) else map_of xs k)"
    for xs :: "(string \<times> quoteCacheEntry) list"
    by (induction xs) auto
  then show ?thesis by (simp add: quote_finish_def)
qed

lemma map_fst_finish [simp]: "map fst (quoteCache (quote_finish key r e)) = map fst (quoteCache e)"
  by (auto simp: quote_finish_def comp_def split: prod.splits intro!: map_cong)

lemma length_finish [simp]: "length (quoteCache (quote_finish key r e)) = length (quoteCache e)"
  by (simp add: quote_finish_def)

lemma quote_inv_step:
  assumes inv: "quote_inv B n s" and st: "quote_step s t"
  shows "quote_inv B n t"
proof -
  from st show "quote_inv B n t"
  proof cases
    case (fresh key req e e' fl)
    note f = quote_begin_Fresh [OF fresh(3)]
    have "pending e' = insert key (pending e)"
      using f(1) by (auto simp: pending_def f(5) map_add_Some_iff map_of_eq_None_iff split: if_splits)
    moreover have "key \<notin> pending e" using f(1) by (simp add: pending_def)
    moreover have "key \<notin> fst ` set (quoteCache e)" using f(1) by (simp add: map_of_eq_None_iff)
    ultimately show ?thesis
      using inv f(2-5) by (auto simp: quote_inv_def fresh(1,2) nat_add_distrib)
  next
    case (other key req e start e' fl)
    then show ?thesis
      using inv quote_begin_other [OF other(3,4)] by (simp add: quote_inv_def pending_def)
  next
    case (finish key fl e r)
    have "pending (quote_finish key r e) = pending e - {key}"
      by (auto simp: pending_def map_of_finish)
    moreover have "quoteBudget (quote_finish key r e) = quoteBudget e"
      "quoteBudgetUsed (quote_finish key r e) = quoteBudgetUsed e"
      by (simp_all add: quote_finish_def)
    ultimately show ?thesis
      using inv by (auto simp: quote_inv_def finish(1,2))
  qed
qed

interpretation quote_sys: step_system "quote_init B n" quote_step "quote_inv B n" for B n
proof
  show "quote_init B n s \<Longrightarrow> quote_inv B n s" for s by (auto simp: quote_init_def quote_inv_def)
qed (rule quote_inv_step)

text \<open>
  C6: whatever the interleaving of concurrent evaluations, a positive quote budget is never exceeded:
  the fresh on-chain quotes of a cycle are at most the budget, each adds exactly one cache entry, and no
  key is ever quoted by two goroutines at once.
\<close>

theorem quote_budget_respected:
  assumes "quote_init B n s\<^sub>0" and "quote_step\<^sup>*\<^sup>* s\<^sub>0 (e, inflight)"
  shows "(0 < B \<longrightarrow> quoteBudgetUsed e \<le> B) \<and> distinct inflight \<and> set inflight = pending e
    \<and> length (quoteCache e) = n + nat (quoteBudgetUsed e)"
  using quote_sys.inv_reachable [OF assms] by (simp add: quote_inv_def)

section \<open>The cache key\<close>

lemma char_lower_bar [simp]: "char_lower c = CHR ''|'' \<longleftrightarrow> c = CHR ''|''"
proof -
  have iff: "d = CHR ''|'' \<longleftrightarrow> (of_char d :: nat) = 124" for d
    using of_char_eq_iff [of d "CHR ''|''", where 'a = nat] by simp
  show ?thesis unfolding iff of_char_lower Let_def by auto
qed

lemma join_bar_inj:
  "length xs = length ys \<Longrightarrow> \<forall>x\<in>set xs \<union> set ys. CHR ''|'' \<notin> set x \<Longrightarrow> join ''|'' xs = join ''|'' ys \<Longrightarrow> xs = ys"
proof (induction xs ys rule: list_induct2)
  case (Cons x xs y ys)
  have tw: "takeWhile (\<lambda>c. c \<noteq> CHR ''|'') (z @ CHR ''|'' # r) = z" "dropWhile (\<lambda>c. c \<noteq> CHR ''|'') (z @ CHR ''|'' # r) = CHR ''|'' # r"
    if "CHR ''|'' \<notin> set z" for z r
    using that by (induction z) auto
  show ?case
  proof (cases xs)
    case Nil
    then show ?thesis using Cons by auto
  next
    case (Cons a xs')
    then obtain b ys' where ys: "ys = b # ys'" using Cons.hyps by (cases ys) auto
    have eq: "x @ CHR ''|'' # join ''|'' xs = y @ CHR ''|'' # join ''|'' ys"
      using Cons.prems(2) Cons ys by simp
    have nx: "CHR ''|'' \<notin> set x" "CHR ''|'' \<notin> set y" using Cons.prems(1) by auto
    have "x = y" using arg_cong [OF eq, of "takeWhile (\<lambda>c. c \<noteq> CHR ''|'')"] tw nx by simp
    moreover have "join ''|'' xs = join ''|'' ys"
      using arg_cong [OF eq, of "dropWhile (\<lambda>c. c \<noteq> CHR ''|'')"] tw nx by simp
    ultimately show ?thesis using Cons.IH Cons.prems(1) by auto
  qed
qed simp

definition plain_request :: "Request \<Rightarrow> bool" where
  "plain_request req \<longleftrightarrow>
     list_all (\<lambda>s. CHR ''|'' \<notin> set s) [pAddress (qPool req), pDEX (qPool req), qTokenIn req, qTokenOut req]"

lemma show_no_bar [simp]: "CHR ''|'' \<notin> set (show_nat n)" "CHR ''|'' \<notin> set (show_int i)"
  using show_nat_digits [of "CHR ''|''"] by (auto simp: show_int_def)

text \<open>
  C31: the cache never answers one request with the quote of another: two requests without the separator
  in their names that have the same non-empty key have the same amount, pool address (up to case), venue,
  fee tier and tokens.
\<close>

theorem quoteKey_identifies:
  assumes "quoteKey e r1 = quoteKey e r2" and "quoteKey e r1 \<noteq> ''''"
    and "plain_request r1" and "plain_request r2"
  shows "qAmountIn r1 = qAmountIn r2 \<and> equal_fold (pAddress (qPool r1)) (pAddress (qPool r2))
    \<and> pDEX (qPool r1) = pDEX (qPool r2) \<and> pFee (qPool r1) = pFee (qPool r2)
    \<and> equal_fold (qTokenIn r1) (qTokenIn r2) \<and> equal_fold (qTokenOut r1) (qTokenOut r2)"
proof -
  have bar: "CHR ''|'' \<notin> set (to_lower s)" if "CHR ''|'' \<notin> set s" for s
    using that by (auto simp: to_lower_def dest: char_lower_bar [THEN iffD1, OF sym])
  obtain a1 a2 where a: "qAmountIn r1 = Some a1" "qAmountIn r2 = Some a2"
    using assms(1,2) by (auto simp: quoteKey_def split: option.splits)
  define parts where "parts r a = (let p = qPool r in [show_nat (unat (if quotePersistent e \<and> pLastUpdatedBlock p > 0
      then pLastUpdatedBlock p else quoteBlock e)), to_lower (pAddress p), pDEX p, show_nat (unat (pFee p)),
      to_lower (qTokenIn r), to_lower (qTokenOut r), show_int a])" for r :: Request and a
  have "quoteKey e r1 = join ''|'' (parts r1 a1)" "quoteKey e r2 = join ''|'' (parts r2 a2)"
    using assms(1,2) a by (auto simp: quoteKey_def parts_def Let_def split: if_splits)
  then have j: "join ''|'' (parts r1 a1) = join ''|'' (parts r2 a2)" using assms(1) by simp
  have "parts r1 a1 = parts r2 a2"
    by (rule join_bar_inj [OF _ _ j]) (use assms(3,4) in \<open>auto simp: parts_def Let_def plain_request_def bar\<close>)
  then show ?thesis
    by (auto simp: parts_def Let_def a equal_fold_def dest: unsigned_word_eqI)
qed

section \<open>Preparing the cache\<close>


lemma quoteKey_cong:
  "quotePersistent e = quotePersistent e' \<Longrightarrow> quoteBlock e = quoteBlock e' \<Longrightarrow> quoteKey e req = quoteKey e' req"
  by (simp only: quoteKey_def)

text \<open>
  A failed quote is cached like a good one: the next request of the key gets the old error without a call.
  With persistence the error also survives \<open>PrepareQuoteCache\<close> as long as the pool is not dirty.
\<close>

lemma quote_error_cached:
  assumes "map_of (quoteCache e) (quoteKey e req) = None" and "quoteKey e req \<noteq> ''''"
    and "quoteBudget e \<le> 0" and "quoter1 req w = (Inl err, w')"
  shows "fst (quote v quoter2 req (snd (quote v quoter1 req (e, w)))) = Inl err"
proof -
  let ?k = "quoteKey e req"
  obtain e' where b: "quote_begin ?k req e = (Fresh, e')"
    using assms(1,3) by (simp add: quote_begin_def)
  let ?e = "quote_finish ?k (Inl err) e'"
  have "quotePersistent ?e = quotePersistent e" "quoteBlock ?e = quoteBlock e"
    using b by (auto simp: quote_finish_def quote_begin_def split: option.splits if_splits)
  then have key: "quoteKey ?e req = ?k" by (rule quoteKey_cong)
  have "map_of (quoteCache ?e) ?k = Some \<lparr>ceOutcome = Some (Inl err), cePool = to_lower (pAddress (qPool req))\<rparr>"
    using quote_begin_Fresh(1,5) [OF b] by (simp add: map_of_finish map_add_def)
  then have "fst (quote_begin ?k req ?e) = Hit (Inl err)" by (simp add: quote_begin_def)
  then have "fst (quote v quoter2 req (?e, w')) = Inl err"
    using assms(2) by (auto simp: quote_def Let_def key split: prod.splits)
  moreover have "quote v quoter1 req (e, w) = (Inl err, (?e, w'))"
    using assms(2,4) b by (simp add: quote_def Let_def)
  ultimately show ?thesis by simp
qed

section \<open>Concrete evaluation\<close>

definition demo_token :: "string \<Rightarrow> string \<Rightarrow> Token" where
  "demo_token symbol address = \<lparr>tSymbol = symbol, tAddress = address, tDecimals = 6, tUSDFeed = ''''\<rparr>"

definition demo_market :: MarketConfig where
  "demo_market = \<lparr>mAavePool = ''0xaa'', mUniswapFactory = '''', mUniswapSwapRouter = '''', mUniswapQuoterV2 = '''',
     mCamelotFactory = '''', mCamelotSwapRouter = '''', mCamelotQuoter = '''', mETHUSDFeed = '''', mSequencerUptimeFeed = '''',
     mArbGasInfo = '''', mExecutionAssetNames = [''A'', ''B''], mMarketAssetNames = [], mBaseAsset = ''A'',
     mIntermediateTokens = [''B''], mUniswapFeeTiers = [500],
     mTokens = [(''A'', demo_token ''A'' ''0x1''), (''B'', demo_token ''B'' ''0x2'')]\<rparr>"

text \<open>Every quote gives ten units more than it takes.\<close>

definition plus_ten :: "Request \<Rightarrow> (unit, QuoteResult) io" where
  "plus_ten req = ret \<lparr>qrAmountOut = map_option (\<lambda>a. a + 10) (qAmountIn req), qrEstimatedGas = 0, qrFee = 500\<rparr>"

definition demo_env :: "unit Env" where
  "demo_env = \<lparr>vCall = (\<lambda>_ _. throw ''''), vMarket = demo_market, vUni = plus_ten, vCamelot = plus_ten,
     vCost = StaticCostModel (Some 1) (Some 1), vMinProfit = 5, vNow = (\<lambda>_. 0), vAwait = (\<lambda>_. throw '''')\<rparr>"

definition idle_engine :: Engine where
  "idle_engine = \<lparr>premiumBPS = Some 5, premiumExpiry = 1, quoteBlock = 7, quotePersistent = False, quoteCache = [],
     quoteHits = 0, quoteDedup = 0, quoteMisses = 0, quoteInvalidations = 0, quoteBudget = 0, quoteBudgetUsed = 0,
     quoteBudgetDropped = 0, Events = []\<rparr>"

definition ab_route :: Route where
  "ab_route = mk_route [''A'', ''B'', ''A''] [ab_pool ''0xa'', ab_pool ''0xb'']"

lemma demo_evaluation:
  "\<exists>o1 e'. Opportunity.Evaluate kk demo_env ab_route 10000 (idle_engine, ()) = (Inr o1, (e', ()))
     \<and> oExpectedProfit o1 = 13 \<and> Events idle_engine = [] \<and> oMinProfit o1 = 5 \<and> 0 < oAmountOut o1"
  by (simp add: Opportunity.Evaluate_def bounded_route_def ab_route_def demo_env_def demo_market_def demo_token_def
      hop_request_def hop_quoter_def ab_pool_def Supports_def equal_fold_def quote_or_event_def quote_def quoteKey_def
      quote_begin_def quote_finish_def plus_ten_def idle_engine_def aavePremium_def aavePremiumBPS_def
      StaticCostModel_def on_world_def Pricing.Evaluate_sel bindE_def Let_def mk_hop_def emit_def
      show_nat.simps show_int_def digit_def trim_space_def is_space_def fold_eval)


definition demo_request :: "string \<Rightarrow> Request" where
  "demo_request address = \<lparr>qTokenIn = ''0x1'', qTokenOut = ''0x2'', qAmountIn = Some 10, qPool = ab_pool address\<rparr>"

theorem quote_budget_respected_witness:
  "quoteBudgetUsed (snd (quote_begin ''k'' (demo_request ''0xa'') \<lparr>premiumBPS = None, premiumExpiry = 0, quoteBlock = 0, quotePersistent = False,
     quoteCache = [], quoteHits = 0, quoteDedup = 0, quoteMisses = 0, quoteInvalidations = 0, quoteBudget = 1,
     quoteBudgetUsed = 0, quoteBudgetDropped = 0, Events = []\<rparr>)) \<le> 1"
proof -
  let ?e = "\<lparr>premiumBPS = None, premiumExpiry = 0, quoteBlock = 0, quotePersistent = False,
     quoteCache = [], quoteHits = 0, quoteDedup = 0, quoteMisses = 0, quoteInvalidations = 0, quoteBudget = 1,
     quoteBudgetUsed = 0, quoteBudgetDropped = 0, Events = []\<rparr> :: Engine"
  have "quote_begin ''k'' (demo_request ''0xa'') ?e = (Fresh, snd (quote_begin ''k'' (demo_request ''0xa'') ?e))" by (simp add: quote_begin_def)
  then have "quote_step\<^sup>*\<^sup>* (?e, []) (snd (quote_begin ''k'' (demo_request ''0xa'') ?e), [''k''])"
    by (intro r_into_rtranclp quote_step.fresh)
  moreover have "quote_init 1 0 (?e, [])" by (simp add: quote_init_def pending_def)
  ultimately show ?thesis using quote_budget_respected by fastforce
qed

theorem quoteKey_identifies_witness:
  "equal_fold (pAddress (qPool (demo_request ''0xA''))) (pAddress (qPool (demo_request ''0xa'')))"
proof -
  have "quoteKey idle_engine (demo_request ''0xA'') = ''7|0xa|uniswap_v3|500|0x1|0x2|10''"
    "quoteKey idle_engine (demo_request ''0xa'') = ''7|0xa|uniswap_v3|500|0x1|0x2|10''"
    by (simp_all add: quoteKey_def demo_request_def ab_pool_def idle_engine_def UniswapV3_def Let_def
        show_nat.simps show_int_def digit_def trim_space_def is_space_def fold_eval)
  then show ?thesis
    using quoteKey_identifies [of idle_engine "demo_request ''0xA''" "demo_request ''0xa''"]
    by (simp add: plain_request_def demo_request_def ab_pool_def UniswapV3_def)
qed

end
