(* ===== verification/PoolCache.thy ===== *)
theory PoolCache
  imports Pools
begin

text \<open>
  \<open>go/internal/cache/pool_cache.go\<close>: the block-aware pool cache. The map is a partial function from the
  pool address; every method holds the lock for its whole effect, so each is one state transformer, and
  \<open>Refresh\<close> is the sequence of its \<open>Put\<close> calls. Cache-hit counters are left out.
\<close>

section \<open>The interface: a store that keeps the newest version\<close>

text \<open>
  What the market engine relies on: a \<open>put\<close> stores the item or keeps a strictly newer one of the same
  key, and touches no other key. Inside the locale this is lifted to any sequence of puts.
\<close>

locale versioned_store =
  fixes key :: "'v \<Rightarrow> 'k" and version :: "'v \<Rightarrow> 'n :: linorder" and put :: "'v \<Rightarrow> 's \<Rightarrow> 's"
    and lookup :: "'s \<Rightarrow> 'k \<Rightarrow> 'v option"
  assumes put_same: "lookup (put v s) (key v) =
      (case lookup s (key v) of Some u \<Rightarrow> if version v < version u then Some u else Some v | None \<Rightarrow> Some v)"
    and put_other: "k \<noteq> key v \<Longrightarrow> lookup (put v s) k = lookup s k"
begin

lemma put_lookup_cases:
  "lookup (put v s) k = Some u \<Longrightarrow> u = v \<and> k = key v \<or> lookup s k = Some u"
  by (cases "k = key v") (auto simp: put_same put_other split: option.splits if_splits)

lemma put_monotone:
  assumes "lookup s k = Some u"
  shows "\<exists>u'. lookup (put v s) k = Some u' \<and> version u \<le> version u'"
  using assms by (cases "k = key v") (auto simp: put_same put_other not_less)

lemma puts_lookup:
  "lookup (fold put vs s) k = Some u \<Longrightarrow> u \<in> set vs \<and> k = key u \<or> lookup s k = Some u"
  by (induction vs arbitrary: s) (auto dest!: put_lookup_cases)

lemma puts_monotone:
  "lookup s k = Some u \<Longrightarrow> \<exists>u'. lookup (fold put vs s) k = Some u' \<and> version u \<le> version u'"
proof (induction vs arbitrary: s u)
  case (Cons v vs)
  from put_monotone [OF Cons.prems, of v] obtain u1
    where "lookup (put v s) k = Some u1" "version u \<le> version u1" by blast
  with Cons.IH [of "put v s" u1] show ?case by fastforce
qed simp

lemma puts_newest:
  "v \<in> set vs \<Longrightarrow> \<exists>u. lookup (fold put vs s) (key v) = Some u \<and> version v \<le> version u"
proof (induction vs arbitrary: s)
  case (Cons x vs)
  show ?case
  proof (cases "v = x")
    case True
    have "\<exists>u. lookup (put v s) (key v) = Some u \<and> version v \<le> version u"
      by (auto simp: put_same not_less split: option.splits)
    then obtain u where u: "lookup (put v s) (key v) = Some u" "version v \<le> version u" by blast
    from puts_monotone [OF u(1), of vs] u(2) True show ?thesis by fastforce
  next
    case False
    with Cons show ?thesis by simp
  qed
qed simp

end

section \<open>The cache\<close>

type_synonym pool_cache = "string \<rightharpoonup> Pool"

definition NewPoolCache :: pool_cache where
  "NewPoolCache = Map.empty"

text \<open>\<open>Get\<close> returns the pool (Go's zero value when absent) and whether it is fresh.\<close>

definition Get :: "pool_cache \<Rightarrow> string \<Rightarrow> u64 \<Rightarrow> Pool option \<times> bool" where
  "Get c address minimumBlock =
     (c address, (case c address of Some p \<Rightarrow> minimumBlock \<le> pLastUpdatedBlock p | None \<Rightarrow> False))"

definition Put :: "Pool \<Rightarrow> pool_cache \<Rightarrow> pool_cache" where
  "Put pool c =
     (case c (pAddress pool) of
        None \<Rightarrow> c(pAddress pool \<mapsto> pool)
      | Some current \<Rightarrow>
          if pLastUpdatedBlock current \<le> pLastUpdatedBlock pool then c(pAddress pool \<mapsto> pool) else c)"

definition Snapshot :: "pool_cache \<Rightarrow> Pool set" where
  "Snapshot c = ran c"

definition Replace :: "Pool list \<Rightarrow> pool_cache \<Rightarrow> pool_cache" where
  "Replace updated c = fold (\<lambda>pool m. m(pAddress pool \<mapsto> pool)) updated Map.empty"

definition Refresh :: "('w, Pool list) io \<Rightarrow> pool_cache \<Rightarrow> 'w \<Rightarrow> string option \<times> pool_cache \<times> 'w" where
  "Refresh load c w =
     (case load w of
        (Inl err, w') \<Rightarrow> (Some err, c, w')
      | (Inr updated, w') \<Rightarrow> (None, fold Put updated c, w'))"

interpretation pool_store: versioned_store pAddress pLastUpdatedBlock Put "\<lambda>c k. c k"
  by unfold_locales (auto simp: Put_def not_less split: option.splits)

text \<open>
  C21: after any sequence of \<open>Put\<close> calls, in whatever order the refresh workers deliver the pools, the
  cache answers for an address with one of the delivered pools of that address (or the older entry) and
  none delivered for it is newer; the block of an entry never goes back; \<open>Get\<close> reports a pool as fresh
  only at or above the requested block.
\<close>

theorem pool_cache_newest:
  "(case fold Put ps c a of
      None \<Rightarrow> c a = None \<and> list_all (\<lambda>p. pAddress p \<noteq> a) ps
    | Some q \<Rightarrow> (q \<in> set ps \<and> pAddress q = a \<or> c a = Some q)
        \<and> list_all (\<lambda>p. pLastUpdatedBlock p \<le> pLastUpdatedBlock q) (filter (\<lambda>p. pAddress p = a) ps)
        \<and> (case c a of None \<Rightarrow> True | Some old \<Rightarrow> pLastUpdatedBlock old \<le> pLastUpdatedBlock q)
        \<and> (snd (Get (fold Put ps c) a b) \<longleftrightarrow> b \<le> pLastUpdatedBlock q))"
proof (cases "fold Put ps c a")
  case None
  have "c a = None" using pool_store.puts_monotone [of c a _ ps] None by fastforce
  moreover have "pAddress p \<noteq> a" if "p \<in> set ps" for p
    using pool_store.puts_newest [OF that, of c] None by auto
  ultimately show ?thesis using None by (simp add: list_all_iff)
next
  case (Some q)
  have "pLastUpdatedBlock p \<le> pLastUpdatedBlock q" if "p \<in> set ps" "pAddress p = a" for p
    using pool_store.puts_newest [OF that(1), of c] that(2) Some by auto
  moreover have "pLastUpdatedBlock old \<le> pLastUpdatedBlock q" if "c a = Some old" for old
    using pool_store.puts_monotone [of c a old ps, OF that] Some by auto
  ultimately show ?thesis
    using Some pool_store.puts_lookup [OF Some] by (auto simp: list_all_iff Get_def split: option.splits)
qed

text \<open>A reconciled universe is installed as a whole: afterwards the cache holds exactly its pools, the last of each address.\<close>

lemma Replace_dom: "dom (Replace ps c) = pAddress ` set ps"
proof -
  have "dom (fold (\<lambda>pool m. m(pAddress pool \<mapsto> pool)) ps m) = dom m \<union> pAddress ` set ps" for m
    by (induction ps arbitrary: m) auto
  then show ?thesis by (simp add: Replace_def)
qed

lemma Replace_distinct:
  assumes "distinct (map pAddress ps)"
  shows "Snapshot (Replace ps c) = set ps"
proof -
  have "ran (fold (\<lambda>pool m. m(pAddress pool \<mapsto> pool)) ps m) = ran m \<union> set ps"
    if "distinct (map pAddress ps)" "dom m \<inter> pAddress ` set ps = {}" for m
    using that
  proof (induction ps arbitrary: m)
    case (Cons p ps)
    have r: "ran (m(pAddress p \<mapsto> p)) = insert p (ran m)"
      using Cons.prems(2) by (intro ran_map_upd) (auto simp: dom_def)
    have "ran (fold (\<lambda>pool m. m(pAddress pool \<mapsto> pool)) ps (m(pAddress p \<mapsto> p)))
        = ran (m(pAddress p \<mapsto> p)) \<union> set ps"
    proof (rule Cons.IH)
      show "distinct (map pAddress ps)" using Cons.prems(1) by simp
      show "dom (m(pAddress p \<mapsto> p)) \<inter> pAddress ` set ps = {}"
        unfolding dom_fun_upd using Cons.prems by auto
    qed
    then show ?case by (simp only: fold_Cons comp_apply r) auto
  qed simp
  then show ?thesis using assms by (simp add: Snapshot_def Replace_def)
qed

end
