(* ===== verification/Scheduler.thy ===== *)
theory Scheduler
  imports Prelude
begin

text \<open>
  \<open>go/internal/scheduler/latest.go\<close>: the coalescing trigger scheduler. Submitters and the runner are
  goroutines; the atomic operations of the code (the compare-and-swap on \<open>latest\<close>, the critical section
  on \<open>pending\<close>, the non-blocking send on \<open>wake\<close>, \<open>take\<close>) are the steps of a transition relation, so
  every interleaving is covered. The state remembers the submitters between two of their operations and
  the triggers handed to the handler.
\<close>

section \<open>State and steps\<close>

record Trigger =
  Block :: u64
  Hash :: string
  ObservedAt :: int

datatype runner = Idle | Draining

record Latest =
  pending :: "Trigger option"
  wake :: bool
  coalesced :: u64
  latest :: u64
  won :: "Trigger list"
  signalling :: nat
  runner :: runner
  handled :: "Trigger list"

definition New :: Latest where
  "New = \<lparr>pending = None, wake = False, coalesced = 0, latest = 0, won = [], signalling = 0, runner = Idle, handled = []\<rparr>"

text \<open>The three atomic parts of \<open>Submit\<close>.\<close>

definition submit_cas :: "Trigger \<Rightarrow> Latest \<Rightarrow> Latest" where
  "submit_cas t s = (if Block t \<le> latest s then s else s\<lparr>latest := Block t, won := won s @ [t]\<rparr>)"

definition submit_lock :: "Trigger \<Rightarrow> Latest \<Rightarrow> Latest" where
  "submit_lock t s =
     s\<lparr>coalesced := (if pending s \<noteq> None then coalesced s + 1 else coalesced s), pending := Some t,
       won := remove1 t (won s), signalling := signalling s + 1\<rparr>"

definition submit_wake :: "Latest \<Rightarrow> Latest" where
  "submit_wake s = s\<lparr>wake := True, signalling := signalling s - 1\<rparr>"

text \<open>\<open>Submit\<close> by a submitter that is not interrupted.\<close>

definition Submit :: "Trigger \<Rightarrow> Latest \<Rightarrow> Latest" where
  "Submit t s = (if Block t \<le> latest s then s else submit_wake (submit_lock t (submit_cas t s)))"

definition take_pending :: "Latest \<Rightarrow> Trigger option \<times> Latest" where
  "take_pending s = (pending s, s\<lparr>pending := None\<rparr>)"

text \<open>The steps of \<open>Run\<close>: receive from \<open>wake\<close>, then take and handle until nothing is pending.\<close>

inductive run_step :: "Latest \<Rightarrow> Latest \<Rightarrow> bool" where
  wakeup: "runner s = Idle \<Longrightarrow> wake s \<Longrightarrow> run_step s (s\<lparr>wake := False, runner := Draining\<rparr>)"
| handle: "runner s = Draining \<Longrightarrow> take_pending s = (Some t, s') \<Longrightarrow> run_step s (s'\<lparr>handled := handled s @ [t]\<rparr>)"
| drained: "runner s = Draining \<Longrightarrow> take_pending s = (None, s') \<Longrightarrow> run_step s (s'\<lparr>runner := Idle\<rparr>)"

inductive step :: "Latest \<Rightarrow> Latest \<Rightarrow> bool" where
  cas: "step s (submit_cas t s)"
| lock: "t \<in> set (won s) \<Longrightarrow> step s (submit_lock t s)"
| signal: "0 < signalling s \<Longrightarrow> step s (submit_wake s)"
| run: "run_step s s' \<Longrightarrow> step s s'"

text \<open>One submitter at a time.\<close>

inductive serial_step :: "Latest \<Rightarrow> Latest \<Rightarrow> bool" where
  submit: "serial_step s (Submit t s)"
| run: "run_step s s' \<Longrightarrow> serial_step s s'"

inductive_cases run_stepE: "run_step s s'"

section \<open>No wakeup is lost\<close>

definition no_lost_wakeup :: "Latest \<Rightarrow> bool" where
  "no_lost_wakeup s \<longleftrightarrow> (pending s = None \<or> wake s \<or> 0 < signalling s \<or> runner s = Draining)"

definition quiescent :: "Latest \<Rightarrow> bool" where
  "quiescent s \<longleftrightarrow> won s = [] \<and> signalling s = 0 \<and> \<not> wake s \<and> runner s = Idle"

lemma no_lost_wakeup_run: "no_lost_wakeup s \<Longrightarrow> run_step s s' \<Longrightarrow> no_lost_wakeup s'"
  by (auto simp: no_lost_wakeup_def take_pending_def elim!: run_stepE)

lemma no_lost_wakeup_step: "no_lost_wakeup s \<Longrightarrow> step s s' \<Longrightarrow> no_lost_wakeup s'"
proof (erule step.cases, goal_cases)
  case (4 s s')
  then show ?case using no_lost_wakeup_run by blast
qed (auto simp: no_lost_wakeup_def submit_cas_def submit_lock_def submit_wake_def)

interpretation wakeups: step_system "\<lambda>s. s = New" step no_lost_wakeup
proof
  show "s = New \<Longrightarrow> no_lost_wakeup s" for s by (simp add: no_lost_wakeup_def New_def)
qed (rule no_lost_wakeup_step)

text \<open>
  C14: under every interleaving of any number of submitters with the runner no wakeup is lost: whenever all
  submitters have returned and the runner sleeps with nothing to wake it, no trigger is left pending.
\<close>

theorem scheduler_no_lost_trigger:
  assumes "step\<^sup>*\<^sup>* New s" and "quiescent s"
  shows "pending s = None"
  using wakeups.inv_reachable [OF refl assms(1)] assms(2) by (auto simp: no_lost_wakeup_def quiescent_def)

section \<open>One submitter at a time\<close>

text \<open>
  With serial submissions the handled blocks increase strictly and the newest block is pending or handled
  last.
\<close>

definition serial_inv :: "Latest \<Rightarrow> bool" where
  "serial_inv s \<longleftrightarrow>
     sorted_wrt (<) (map Block (handled s)) \<and> (\<forall>t\<in>set (handled s). Block t \<le> latest s)
     \<and> (case pending s of
          Some t \<Rightarrow> Block t = latest s \<and> (\<forall>u\<in>set (handled s). Block u < Block t) \<and> (wake s \<or> runner s = Draining)
        | None \<Rightarrow> latest s = 0 \<or> handled s \<noteq> [] \<and> Block (last (handled s)) = latest s)"

lemma serial_inv_run:
  assumes "serial_inv s" "run_step s s'"
  shows "serial_inv s'"
  using assms(2)
proof cases
  case wakeup
  then show ?thesis using assms(1) by (auto simp: serial_inv_def split: option.splits)
next
  case (handle t s'')
  then show ?thesis using assms(1) by (auto simp: serial_inv_def take_pending_def sorted_wrt_append)
next
  case (drained s'')
  then show ?thesis using assms(1) by (auto simp: serial_inv_def take_pending_def)
qed

lemma serial_inv_submit: "serial_inv s \<Longrightarrow> serial_inv (Submit t s)"
  by (auto simp: serial_inv_def Submit_def submit_wake_def submit_lock_def submit_cas_def not_le
      split: option.splits intro: le_less_trans)

interpretation serial: step_system "\<lambda>s. s = New" serial_step serial_inv
proof
  show "s = New \<Longrightarrow> serial_inv s" for s by (simp add: serial_inv_def New_def)
  show "serial_inv s \<Longrightarrow> serial_step s t \<Longrightarrow> serial_inv t" for s t
    by (erule serial_step.cases) (auto intro: serial_inv_run serial_inv_submit)
qed

text \<open>
  When triggers are submitted one at a time, the handler sees strictly increasing blocks, and whenever
  the runner sleeps with nothing pending the last block it handled is the newest one submitted.
\<close>

theorem scheduler_serial_latest:
  assumes "serial_step\<^sup>*\<^sup>* New s"
  shows "sorted_wrt (<) (map Block (handled s))
    \<and> (runner s = Idle \<and> \<not> wake s \<longrightarrow> latest s = 0 \<or> handled s \<noteq> [] \<and> Block (last (handled s)) = latest s)"
  using serial.inv_reachable [OF refl assms] by (auto simp: serial_inv_def split: option.splits)

section \<open>Concurrent submitters can lose the newest block\<close>

definition trig :: "u64 \<Rightarrow> Trigger" where
  "trig b = \<lparr>Block = b, Hash = '''', ObservedAt = 0\<rparr>"

text \<open>
  Two submitters: 5 passes the compare-and-swap, then 6 does and stores its trigger, then 5 stores its
  older one. The runner handles 5 only; block 6, the newest, is lost.
\<close>

definition race1 :: Latest where "race1 = submit_cas (trig 6) (submit_cas (trig 5) New)"
definition race2 :: Latest where "race2 = submit_wake (submit_wake (submit_lock (trig 5) (submit_lock (trig 6) race1)))"

lemma scheduler_race:
  "\<exists>s. step\<^sup>*\<^sup>* New s \<and> quiescent s \<and> latest s = 6 \<and> map Block (handled s) = [5]"
proof -
  note defs = race1_def race2_def submit_cas_def submit_lock_def submit_wake_def New_def trig_def take_pending_def
  let ?d = "race2\<lparr>wake := False, runner := Draining\<rparr>"
  let ?h = "?d\<lparr>pending := None, handled := [trig 5]\<rparr>"
  let ?i = "?h\<lparr>runner := Idle\<rparr>"
  have "step\<^sup>*\<^sup>* New race1"
    unfolding race1_def by (rule converse_rtranclp_into_rtranclp, rule step.cas, rule r_into_rtranclp, rule step.cas)
  also have "step race1 (submit_lock (trig 6) race1)" by (rule step.lock) (simp add: defs)
  also have "step (submit_lock (trig 6) race1) (submit_lock (trig 5) (submit_lock (trig 6) race1))"
    by (rule step.lock) (simp add: defs)
  also have "step (submit_lock (trig 5) (submit_lock (trig 6) race1))
      (submit_wake (submit_lock (trig 5) (submit_lock (trig 6) race1)))"
    by (rule step.signal) (simp add: defs)
  also have "step (submit_wake (submit_lock (trig 5) (submit_lock (trig 6) race1))) race2"
    unfolding race2_def by (rule step.signal) (simp add: defs)
  also have "step race2 ?d" by (rule step.run, rule run_step.wakeup) (simp_all add: defs)
  also have "step ?d ?h"
    using run_step.handle [of ?d "trig 5" "?d\<lparr>pending := None\<rparr>"] by (intro step.run) (simp add: defs)
  also have "step ?h ?i"
    using run_step.drained [of ?h ?h] by (intro step.run) (simp add: defs)
  finally have "step\<^sup>*\<^sup>* New ?i" .
  moreover have "quiescent ?i \<and> latest ?i = 6 \<and> map Block (handled ?i) = [5]"
    by (simp add: quiescent_def defs)
  ultimately show ?thesis by (intro exI [where x = ?i] conjI) simp_all
qed

theorem scheduler_no_lost_trigger_witness: "\<exists>s. quiescent s \<and> pending s = None \<and> latest s = 6"
  using scheduler_race scheduler_no_lost_trigger by blast

theorem scheduler_serial_latest_witness:
  "sorted_wrt (<) (map Block (handled (Submit (trig 7) (Submit (trig 5) New))))"
proof -
  have "serial_step\<^sup>*\<^sup>* New (Submit (trig 7) (Submit (trig 5) New))"
    by (rule converse_rtranclp_into_rtranclp, rule serial_step.submit, rule r_into_rtranclp, rule serial_step.submit)
  from scheduler_serial_latest [OF this] show ?thesis by simp
qed

end
