(* ===== verification/Wallet.thy ===== *)
theory Wallet
  imports Prelude
begin

text \<open>
  \<open>go/internal/wallet/wallet.go\<close>: the reservation of pending nonces. \<open>Next\<close> and \<open>Release\<close> hold the
  mutex for their whole body, so every interleaving is a sequence of these two transformers. The chain's
  pending transaction count is a parameter of each call. Key handling and signing are calls of
  \<open>go-ethereum\<close> and are not modelled.
\<close>

text \<open>The only mutable field, \<open>next\<close>, a pointer that may be nil.\<close>

type_synonym NonceManager = "u64 option"

definition Next :: "u64 result \<Rightarrow> NonceManager \<Rightarrow> u64 result \<times> NonceManager" where
  "Next transactionCount m =
     (case transactionCount of
        Inl err \<Rightarrow> (Inl err, m)
      | Inr pending \<Rightarrow>
          let n = (case m of None \<Rightarrow> pending | Some nx \<Rightarrow> if pending > nx then pending else nx)
          in (Inr n, Some (n + 1)))"

definition Release :: "u64 \<Rightarrow> NonceManager \<Rightarrow> NonceManager" where
  "Release nonce m = (case m of Some nx \<Rightarrow> if nx = nonce + 1 then Some nonce else m | None \<Rightarrow> m)"

section \<open>Outstanding nonces\<close>

text \<open>
  A run of the wallet: reservations that succeed or fail, and releases of an outstanding nonce. The state
  adds the nonces that are reserved and not released. The last possible nonce is never reached.
\<close>

inductive nonce_step :: "NonceManager \<times> u64 list \<Rightarrow> NonceManager \<times> u64 list \<Rightarrow> bool" where
  reserve: "Next (Inr pending) m = (Inr n, m') \<Longrightarrow> n < - 1 \<Longrightarrow> nonce_step (m, out) (m', n # out)"
| failed: "Next (Inl err) m = (Inl err, m') \<Longrightarrow> nonce_step (m, out) (m', out)"
| release: "n \<in> set out \<Longrightarrow> nonce_step (m, out) (Release n m, remove1 n out)"

definition nonce_inv :: "NonceManager \<times> u64 list \<Rightarrow> bool" where
  "nonce_inv s \<longleftrightarrow> distinct (snd s)
     \<and> (case fst s of None \<Rightarrow> snd s = [] | Some nx \<Rightarrow> list_all (\<lambda>n. n < nx) (snd s))"

lemma less_Suc_word: "(n :: u64) < - 1 \<Longrightarrow> (x < n + 1 \<longleftrightarrow> x \<le> n) \<and> n < n + 1"
proof -
  assume "n < - 1"
  from unat_Suc_of_less [OF this] show ?thesis by (auto simp: word_less_nat_alt word_le_nat_alt)
qed

lemma nonce_inv_step:
  assumes "nonce_inv s" "nonce_step s t"
  shows "nonce_inv t"
  using assms(2)
proof cases
  case (reserve pending m n m' out)
  have m': "m' = Some (n + 1)" and fresh: "\<forall>k\<in>set out. k < n"
    using reserve assms(1)
    by (auto simp: Next_def nonce_inv_def Let_def list_all_iff split: option.splits if_splits intro: less_trans)
  then show ?thesis
    using reserve assms(1) less_Suc_word [OF reserve(4)] by (auto simp: nonce_inv_def list_all_iff)
next
  case (failed err m m' out)
  then show ?thesis using assms(1) by (simp add: Next_def nonce_inv_def)
next
  case (release n out m)
  obtain nx where nx: "m = Some nx" "\<forall>k\<in>set out. k < nx"
    using release assms(1) by (cases m) (auto simp: nonce_inv_def list_all_iff)
  have d: "distinct out" using release assms(1) by (simp add: nonce_inv_def)
  have "\<forall>k\<in>set (remove1 n out). k < n" if "nx = n + 1"
  proof
    fix k assume k: "k \<in> set (remove1 n out)"
    then have "k \<noteq> n" "k < n + 1" using d nx that by (auto dest: notin_set_remove1)
    moreover have "n < n + 1" using nx that release(3) by auto
    ultimately show "k < n"
      using unat_Suc_of_less [of n "n + 1"] by (auto simp: word_less_nat_alt less_Suc_eq dest: unsigned_word_eqI)
  qed
  then show ?thesis
    using release nx d by (auto simp: nonce_inv_def Release_def list_all_iff dest: notin_set_remove1)
qed

interpretation nonces: step_system "\<lambda>s. s = (None, [])" nonce_step nonce_inv
proof
  show "s = (None, []) \<Longrightarrow> nonce_inv s" for s by (simp add: nonce_inv_def)
qed (rule nonce_inv_step)

text \<open>
  C24: no nonce is ever held by two transactions: whatever the order of reservations, failures and releases
  and whatever pending counts the chain reports, the outstanding nonces are pairwise distinct and below the
  next one to be handed out.
\<close>

theorem nonces_distinct:
  assumes "nonce_step\<^sup>*\<^sup>* (None, []) (m, outstanding)"
  shows "distinct outstanding \<and> list_all (\<lambda>n. \<exists>nx. m = Some nx \<and> n < nx) outstanding"
  using nonces.inv_reachable [OF refl assms] by (auto simp: nonce_inv_def list_all_iff split: option.splits)

theorem nonces_distinct_witness: "distinct [6, 5 :: u64]"
proof -
  have "nonce_step\<^sup>*\<^sup>* (None, []) (Some 7, [6, 5])"
  proof (rule rtranclp.rtrancl_into_rtrancl, rule r_into_rtranclp)
    show "nonce_step (None, []) (Some 6, [5])" by (rule nonce_step.reserve [of 5]) (simp_all add: Next_def)
    show "nonce_step (Some 6, [5]) (Some 7, [6, 5])" by (rule nonce_step.reserve [of 5]) (simp_all add: Next_def)
  qed
  from nonces_distinct [OF this] show ?thesis by simp
qed

text \<open>
  A release below the top leaves a hole: two reservations 5 and 6, released in this order, make 6 the next
  nonce although the chain still expects 5, so the transaction sent with it cannot be mined before another
  one fills the hole.
\<close>

lemma release_leaves_hole:
  "fst (Next (Inr 5) (Release 6 (Release 5 (snd (Next (Inr 5) (snd (Next (Inr 5) None))))))) = Inr 6"
  by (simp add: Next_def Release_def)

end
