(* ===== verification/Safety.thy ===== *)
theory Safety
  imports Fees
begin

text \<open>
  \<open>go/internal/safety/oracle.go\<close> and \<open>go/internal/simulation/simulation.go\<close>: the oracle and sequencer
  gate and the mandatory pre-broadcast simulation. Instants are nanoseconds since the epoch, durations
  nanoseconds; \<open>time.Sub\<close> saturates at the 64-bit range.
\<close>

section \<open>Oracle gate\<close>

record 'w Gate =
  gCall :: "string \<Rightarrow> string \<Rightarrow> ('w, string) io"
  gEthUSD :: string
  gSequencer :: string
  gMaxStaleness :: int
  gRecoveryGrace :: int

record round =
  answer :: int
  startedAt :: int
  updatedAt :: int

text \<open>\<open>big.Int.Int64()\<close> keeps the low 64 bits.\<close>

definition int64_of :: "int \<Rightarrow> int" where
  "int64_of x = sint (of_int x :: u64)"

definition latest :: "keccak \<Rightarrow> 'w Gate \<Rightarrow> string \<Rightarrow> ('w, round) io" where
  "latest kk g to =
     (if to = '''' then throw ''feed address missing''
      else
        bindE (gCall g to (StaticCall kk ''latestRoundData()'' [])) (\<lambda>raw.
        case DecodeWords raw of
          Inl _ \<Rightarrow> throw ''invalid latestRoundData response''
        | Inr ws \<Rightarrow>
            if length ws < 5 then throw ''invalid latestRoundData response''
            else if WordUint (ws ! 3) \<le> 0 then throw ''updatedAt missing''
            else ret \<lparr>answer = WordInt (ws ! 1), startedAt = int64_of (WordUint (ws ! 2)),
                      updatedAt = int64_of (WordUint (ws ! 3))\<rparr>))"

definition time_sub :: "int \<Rightarrow> int \<Rightarrow> int" where
  "time_sub now seconds =
     (let d = now - seconds * 10 ^ 9 in
      if d > 2 ^ 63 - 1 then 2 ^ 63 - 1 else if d < - (2 ^ 63) then - (2 ^ 63) else d)"

definition Check :: "keccak \<Rightarrow> 'w Gate option \<Rightarrow> int \<Rightarrow> ('w, unit) io" where
  "Check kk gate now =
     (case gate of
        None \<Rightarrow> throw ''oracle gate missing''
      | Some g \<Rightarrow>
          bindE (wrap_err ''ETH/USD: '' (latest kk g (gEthUSD g))) (\<lambda>feed.
          if answer feed \<le> 0 then throw ''ETH/USD answer is non-positive''
          else if gMaxStaleness g > 0 \<and> time_sub now (updatedAt feed) > gMaxStaleness g
          then throw ''ETH/USD price is stale''
          else
            bindE (wrap_err ''sequencer: '' (latest kk g (gSequencer g))) (\<lambda>seq.
            if answer seq \<noteq> 0 then throw ''sequencer is down''
            else if gRecoveryGrace g > 0 \<and> time_sub now (startedAt seq) < gRecoveryGrace g
            then throw ''sequencer recovery grace period active''
            else ret ())))"

text \<open>
  C25: the gate fails closed: it lets an execution pass only if both feeds answered with well-formed rounds,
  the price is positive and not older than the configured bound, and the sequencer is up and has been up
  for the grace period; a missing gate, a missing address or any malformed answer rejects.
\<close>

theorem Check_fails_closed:
  assumes "Check kk gate now w = (Inr (), w')"
  shows "\<exists>g feed seq w1. gate = Some g
    \<and> latest kk g (gEthUSD g) w = (Inr feed, w1) \<and> latest kk g (gSequencer g) w1 = (Inr seq, w')
    \<and> 0 < answer feed \<and> (0 < gMaxStaleness g \<longrightarrow> time_sub now (updatedAt feed) \<le> gMaxStaleness g)
    \<and> answer seq = 0 \<and> (0 < gRecoveryGrace g \<longrightarrow> gRecoveryGrace g \<le> time_sub now (startedAt seq))
    \<and> gEthUSD g \<noteq> '''' \<and> gSequencer g \<noteq> ''''"
proof -
  have addr: "to \<noteq> ''''" if "latest kk g to v = (Inr r, v')" for g to v r v'
    using that by (auto simp: latest_def split: if_splits)
  obtain g where g: "gate = Some g" using assms by (auto simp: Check_def split: option.splits)
  then show ?thesis
    using assms addr
    by (fastforce simp: Check_def not_less elim!: bindE_InrE split: if_splits)
qed

text \<open>A price with a time stamp in the future passes the staleness test: its age is negative.\<close>

lemma future_price_is_fresh: "now \<le> seconds * 10 ^ 9 \<Longrightarrow> 0 < bound \<Longrightarrow> time_sub now seconds \<le> bound"
  by (auto simp: time_sub_def Let_def)

section \<open>Simulation\<close>

record CallMessage =
  cmFrom :: string
  cmTo :: string
  cmData :: string
  cmValue :: string

record 'w SimCaller =
  scEthCall :: "CallMessage \<Rightarrow> ('w, string) io"
  scEstimateGas :: "CallMessage \<Rightarrow> ('w, u64) io"

record SimResult =
  srGasEstimate :: u64
  srFee :: FeeEstimate

definition sim_message :: "string \<Rightarrow> string \<Rightarrow> bytes \<Rightarrow> bigint \<Rightarrow> CallMessage" where
  "sim_message from to calldata v =
     \<lparr>cmFrom = from, cmTo = to, cmData = ''0x'' @ hex_encode calldata,
      cmValue = (case v of Some x \<Rightarrow> if x > 0 then ''0x'' @ hex_digits (nat x) else '''' | None \<Rightarrow> '''')\<rparr>"

definition Simulate :: "keccak \<Rightarrow> 'w SimCaller \<Rightarrow> 'w FeeService \<Rightarrow> string \<Rightarrow> string \<Rightarrow> bytes \<Rightarrow> bigint \<Rightarrow> ('w, SimResult) io" where
  "Simulate kk client feeService from to calldata v =
     (if length calldata < 4 then throw ''missing calldata''
      else
        let call = sim_message from to calldata v in
        bindE (wrap_err ''eth_call: '' (scEthCall client call)) (\<lambda>_.
        bindE (wrap_err ''eth_estimateGas: '' (scEstimateGas client call)) (\<lambda>gas.
        bindE (wrap_err ''Arbitrum fee repricing: '' (Fees.Estimate kk feeService gas calldata)) (\<lambda>fee.
        ret \<lparr>srGasEstimate = gas, srFee = fee\<rparr>))))"

text \<open>A simulation succeeds only after the call and the gas estimate of the same message succeeded.\<close>

lemma Simulate_Inr:
  assumes "Simulate kk client s from to calldata v w = (Inr r, w')"
  obtains out w1 w2 where "4 \<le> length calldata"
    "scEthCall client (sim_message from to calldata v) w = (Inr out, w1)"
    "scEstimateGas client (sim_message from to calldata v) w1 = (Inr (srGasEstimate r), w2)"
    "Fees.Estimate kk s (srGasEstimate r) calldata w2 = (Inr (srFee r), w')"
  using assms unfolding Simulate_def Let_def
  by (auto elim!: bindE_InrE split: if_splits)

section \<open>A passing gate\<close>

definition round_words :: "int \<Rightarrow> int \<Rightarrow> int \<Rightarrow> bytes list" where
  "round_words ans started updated = [be_bytes 32 1, be_bytes 32 ans, be_bytes 32 started, be_bytes 32 updated, be_bytes 32 1]"

definition demo_gate :: "unit Gate" where
  "demo_gate = \<lparr>gCall = (\<lambda>to _. ret (''0x'' @ hex_encode (concat
       (if to = ''0xf'' then round_words 2000 5 90 else round_words 0 5 5)))),
     gEthUSD = ''0xf'', gSequencer = ''0xe'', gMaxStaleness = 60 * 10 ^ 9, gRecoveryGrace = 60 * 10 ^ 9\<rparr>"

lemma round_decode:
  assumes "0 \<le> ans" "ans < 2 ^ 255" "0 \<le> st" "st < 2 ^ 63" "0 < up" "up < 2 ^ 63" "to \<noteq> ''''"
    "gCall g to = (\<lambda>_. ret (''0x'' @ hex_encode (concat (round_words ans st up))))"
  shows "latest kk g to w = (Inr \<lparr>answer = ans, startedAt = st, updatedAt = up\<rparr>, w)"
proof -
  have d: "DecodeWords (''0x'' @ hex_encode (concat (round_words ans st up))) = Inr (round_words ans st up)"
    by (rule abi_words.dec_enc) (auto simp: round_words_def)
  have u: "WordUint (be_bytes 32 x) = x" if "0 \<le> x" "x < 2 ^ 255" for x
    using uint_word.dec_enc [of x] that by simp
  have i: "WordInt (be_bytes 32 x) = x" if "0 \<le> x" "x < 2 ^ 255" for x
    using u [OF that] that msb_iff [of "be_bytes 32 x"] by (simp add: WordInt_def WordUint_def Let_def)
  have s: "int64_of x = x" if "0 \<le> x" "x < 2 ^ 63" for x
    using that by (simp add: int64_of_def signed_of_int take_bit_int_eq_self signed_take_bit_int_eq_self)
  show ?thesis
    using assms d u i s by (simp add: latest_def bindE_def round_words_def)
qed

lemma demo_gate_passes: "Check kk (Some demo_gate) (100 * 10 ^ 9) () = (Inr (), ())"
proof -
  have f: "latest kk demo_gate ''0xf'' () = (Inr \<lparr>answer = 2000, startedAt = 5, updatedAt = 90\<rparr>, ())"
    by (rule round_decode) (simp_all add: demo_gate_def)
  have s: "latest kk demo_gate ''0xe'' () = (Inr \<lparr>answer = 0, startedAt = 5, updatedAt = 5\<rparr>, ())"
    by (rule round_decode) (simp_all add: demo_gate_def)
  have sel: "gEthUSD demo_gate = ''0xf''" "gSequencer demo_gate = ''0xe''" "gMaxStaleness demo_gate = 60 * 10 ^ 9"
    "gRecoveryGrace demo_gate = 60 * 10 ^ 9" by (simp_all add: demo_gate_def)
  show ?thesis by (simp add: Check_def bindE_def wrap_err_def sel f s time_sub_def)
qed

theorem Check_fails_closed_witness:
  "\<exists>feed w1. latest (\<lambda>_. replicate 32 0) demo_gate (gEthUSD demo_gate) () = (Inr feed, w1) \<and> 0 < answer feed"
  using Check_fails_closed [OF demo_gate_passes] by auto

end
