(* ===== verification/Tx.thy ===== *)
theory Tx
  imports Dex
begin

text \<open>
  \<open>go/internal/tx/manager.go\<close>: classification of broadcast errors, the broadcast itself and the wait for
  a receipt. Signing and the transaction encoding of \<open>go-ethereum\<close>, the RPC client and the ticker are
  parameters.
\<close>

datatype Classification = NonceTooLow | ReplacementUnderpriced | Timeout | Reverted | OutOfGas | Unknown | NoClass

record Receipt =
  rcStatus :: string
  rcTransactionHash :: string

record TxResult =
  trHash :: string
  trReceipt :: "Receipt option"
  trClassification :: Classification
  trErr :: "string option"

definition Classify :: "string option \<Rightarrow> Classification" where
  "Classify err =
     (case err of
        None \<Rightarrow> Unknown
      | Some msg \<Rightarrow>
          let s = to_lower msg in
          if contains ''nonce too low'' s then NonceTooLow
          else if contains ''replacement'' s \<and> contains ''underpriced'' s then ReplacementUnderpriced
          else if contains ''out of gas'' s then OutOfGas
          else if contains ''timeout'' s \<or> contains ''deadline'' s then Timeout
          else Unknown)"

section \<open>Broadcast\<close>

record DynamicFeeTx =
  txChainID :: int
  txNonce :: u64
  txTo :: string
  txGas :: u64
  txGasFeeCap :: int
  txGasTipCap :: int
  txData :: bytes

text \<open>\<open>sign\<close> is \<open>wallet.Sign\<close> followed by \<open>MarshalBinary\<close>; \<open>send\<close> is \<open>SendRawTransaction\<close>.\<close>

definition Broadcast :: "(DynamicFeeTx \<Rightarrow> bytes result) option \<Rightarrow> (string \<Rightarrow> ('w, string) io) \<Rightarrow> int \<Rightarrow> u64 \<Rightarrow> u64 \<Rightarrow> bigint
    \<Rightarrow> bigint \<Rightarrow> string \<Rightarrow> bytes \<Rightarrow> ('w, string) io" where
  "Broadcast signer send chainID nonce gas maxFeePerGas maxPriorityFeePerGas to data =
     (case signer of
        None \<Rightarrow> throw ''signer required''
      | Some sign \<Rightarrow>
          (case maxFeePerGas of
             None \<Rightarrow> throw ''max fee per gas is required''
           | Some fee \<Rightarrow>
               if fee \<le> 0 then throw ''max fee per gas is required''
               else
                 let tip = (case maxPriorityFeePerGas of Some p \<Rightarrow> if p < 0 then 0 else p | None \<Rightarrow> 0);
                     transaction = \<lparr>txChainID = chainID, txNonce = nonce, txTo = to, txGas = gas, txGasFeeCap = fee,
                                    txGasTipCap = tip, txData = data\<rparr>
                 in bindE (lift_res (sign transaction)) (\<lambda>raw. send (''0x'' @ hex_encode raw))))"

text \<open>
  Without a signer or a positive fee cap nothing is sent: the outcome does not depend on the client.
\<close>

lemma Broadcast_refused:
  assumes "signer = None \<or> \<not> big_pos maxFee"
  shows "\<exists>err. Broadcast signer send chainID nonce gas maxFee tip to data w = (Inl err, w)"
  using assms by (auto simp: Broadcast_def split: option.splits)

section \<open>Waiting for the receipt\<close>

text \<open>
  The loop polls until it sees a receipt, an error or the cancelled context; \<open>tick\<close> is the \<open>select\<close>
  between the ticker and the context. The number of polls is bounded by \<open>fuel\<close>; running out of it is the
  value \<open>None\<close>.
\<close>

fun wait_receipt :: "nat \<Rightarrow> (string \<Rightarrow> ('w, Receipt option) io) \<Rightarrow> ('w \<Rightarrow> string option \<times> 'w) \<Rightarrow> string \<Rightarrow> 'w
    \<Rightarrow> (TxResult \<times> 'w) option" where
  "wait_receipt 0 poll tick hash w = None"
| "wait_receipt (Suc fuel) poll tick hash w =
     (case poll hash w of
        (Inl err, w1) \<Rightarrow>
          Some (\<lparr>trHash = hash, trReceipt = None, trClassification = Classify (Some err), trErr = Some err\<rparr>, w1)
      | (Inr (Some receipt), w1) \<Rightarrow>
          if rcStatus receipt = ''0x0''
          then Some (\<lparr>trHash = hash, trReceipt = Some receipt, trClassification = Reverted,
                      trErr = Some ''transaction reverted''\<rparr>, w1)
          else Some (\<lparr>trHash = hash, trReceipt = Some receipt, trClassification = NoClass, trErr = None\<rparr>, w1)
      | (Inr None, w1) \<Rightarrow>
          (case tick w1 of
             (Some err, w2) \<Rightarrow>
               Some (\<lparr>trHash = hash, trReceipt = None, trClassification = Timeout, trErr = Some err\<rparr>, w2)
           | (None, w2) \<Rightarrow> wait_receipt fuel poll tick hash w2))"

text \<open>The result of waiting is a success exactly when a receipt with another status than \<open>0x0\<close> was seen.\<close>

lemma wait_receipt_success:
  "wait_receipt fuel poll tick hash w = Some (r, w') \<Longrightarrow>
   trHash r = hash \<and> (trErr r = None \<longleftrightarrow> (\<exists>receipt. trReceipt r = Some receipt \<and> rcStatus receipt \<noteq> ''0x0''))
   \<and> (trClassification r = Reverted \<longleftrightarrow> (\<exists>receipt. trReceipt r = Some receipt \<and> rcStatus receipt = ''0x0''))"
proof (induction fuel arbitrary: w)
  case (Suc fuel)
  have nr: "Classify e \<noteq> Reverted" for e by (simp add: Classify_def Let_def split: option.splits)
  show ?case using Suc nr by (auto split: prod.splits sum.splits option.splits if_splits)
qed simp

text \<open>More fuel never changes a result, and a receipt that is available after \<open>n\<close> polls is found with \<open>n + 1\<close>.\<close>

lemma wait_receipt_mono:
  "wait_receipt fuel poll tick hash w = Some x \<Longrightarrow> fuel \<le> fuel' \<Longrightarrow> wait_receipt fuel' poll tick hash w = Some x"
proof (induction fuel arbitrary: w fuel')
  case (Suc fuel)
  then obtain k where k: "fuel' = Suc k" "fuel \<le> k" by (cases fuel') auto
  show ?case using Suc k by (auto split: prod.splits sum.splits option.splits)
qed simp

fun polls_empty :: "nat \<Rightarrow> (string \<Rightarrow> ('w, Receipt option) io) \<Rightarrow> ('w \<Rightarrow> string option \<times> 'w) \<Rightarrow> string \<Rightarrow> 'w \<Rightarrow> 'w option" where
  "polls_empty 0 poll tick hash w = Some w"
| "polls_empty (Suc n) poll tick hash w =
     (case poll hash w of
        (Inr None, w1) \<Rightarrow> (case tick w1 of (None, w2) \<Rightarrow> polls_empty n poll tick hash w2 | _ \<Rightarrow> None)
      | _ \<Rightarrow> None)"

text \<open>
  C39: the wait ends: if \<open>n\<close> polls find nothing (and the context stays alive) and the next one answers with a
  receipt or an error, then \<open>n + 1\<close> polls are enough, and the answer is classified: an error by its text, a
  receipt with status \<open>0x0\<close> as reverted, any other as success.
\<close>

theorem wait_receipt_returns:
  assumes "polls_empty n poll tick hash w = Some v" and "poll hash v = (a, v')" and "a \<noteq> Inr None"
  shows "\<exists>r. wait_receipt (Suc n) poll tick hash w = Some (r, v') \<and> trHash r = hash
    \<and> (case a of
         Inl err \<Rightarrow> trErr r = Some err \<and> trClassification r = Classify (Some err)
       | Inr None \<Rightarrow> False
       | Inr (Some receipt) \<Rightarrow> trReceipt r = Some receipt
           \<and> (trErr r = None \<longleftrightarrow> rcStatus receipt \<noteq> ''0x0'') \<and> (trClassification r = Reverted \<longleftrightarrow> rcStatus receipt = ''0x0''))"
  using assms(1)
proof (induction n arbitrary: w)
  case 0
  then show ?case using assms(2,3) by (auto split: sum.splits option.splits)
next
  case (Suc n)
  then obtain w1 w2 where "poll hash w = (Inr None, w1)" "tick w1 = (None, w2)" "polls_empty n poll tick hash w2 = Some v"
    by (auto split: prod.splits sum.splits option.splits)
  then show ?case using Suc.IH [of w2] by simp
qed

theorem wait_receipt_returns_witness:
  "\<exists>r. wait_receipt 3 (\<lambda>_ w. (Inr (if w < 2 then None else Some \<lparr>rcStatus = ''0x1'', rcTransactionHash = ''h''\<rparr>), w))
     (\<lambda>w. (None, w + 1)) ''h'' (0 :: nat) = Some (r, 2) \<and> trErr r = None"
  using wait_receipt_returns [of 2 "\<lambda>_ w. (Inr (if w < 2 then None else Some \<lparr>rcStatus = ''0x1'', rcTransactionHash = ''h''\<rparr>), w)"
      "\<lambda>w. (None, w + 1)" "''h''" "0 :: nat" 2]
  by (simp add: numeral_eq_Suc)

end
