(* ===== verification/Execution.thy ===== *)
theory Execution
  imports Opportunity Safety Tx Wallet
begin

text \<open>
  \<open>go/internal/execution\<close>: the request for the executor contract (\<open>builder.go\<close>), the deployment check
  (\<open>preflight.go\<close>) and the pipeline that takes a candidate through every gate to the broadcast
  (\<open>pipeline.go\<close>). The address and ABI functions of \<open>go-ethereum\<close>, the chain client, the signer and the
  profit tracker are parameters; metrics are left out. \<open>DecodeError\<close> and \<open>RealizedProfit\<close> only unpack ABI
  data and are not modelled.
\<close>

section \<open>Requests\<close>

type_synonym address = bytes

definition zero_address :: address where
  "zero_address = replicate 20 0"

record SwapStep =
  ssAdapter :: address
  ssTokenIn :: address
  ssTokenOut :: address
  ssAmountOutMinimum :: bigint
  ssData :: bytes

record ExecRequest =
  erAsset :: address
  erAmount :: bigint
  erSteps :: "SwapStep list"
  erDeadline :: bigint
  erMinProfit :: bigint

fun check_steps :: "nat \<Rightarrow> address option \<Rightarrow> SwapStep list \<Rightarrow> string option" where
  "check_steps i previous [] = None"
| "check_steps i previous (step # steps) =
     (if ssAdapter step = zero_address \<or> ssTokenIn step = zero_address \<or> ssTokenOut step = zero_address
         \<or> \<not> big_pos (ssAmountOutMinimum step)
      then Some (''invalid step '' @ show_nat i)
      else if previous \<noteq> None \<and> previous \<noteq> Some (ssTokenIn step)
      then Some (''token discontinuity at step '' @ show_nat i)
      else check_steps (Suc i) (Some (ssTokenOut step)) steps)"

definition Request_Validate :: "ExecRequest \<Rightarrow> string option" where
  "Request_Validate r =
     (if erAsset r = zero_address \<or> \<not> big_pos (erAmount r) then Some ''asset and amount are required''
      else if length (erSteps r) < 2 \<or> length (erSteps r) > 4 then Some ''route requires 2 to 4 hops''
      else if \<not> big_pos (erDeadline r) \<or> \<not> big_pos (erMinProfit r)
      then Some ''positive deadline and minProfit are required''
      else if ssTokenIn (hd (erSteps r)) \<noteq> erAsset r \<or> ssTokenOut (last (erSteps r)) \<noteq> erAsset r
      then Some ''route must begin and end in borrowed asset''
      else check_steps 0 None (erSteps r))"

definition Calldata :: "(ExecRequest \<Rightarrow> bytes result) \<Rightarrow> ExecRequest \<Rightarrow> bytes result" where
  "Calldata pack r = (case Request_Validate r of Some err \<Rightarrow> Inl err | None \<Rightarrow> pack r)"

definition EncodeUniswapFee :: "u32 \<Rightarrow> bytes result" where
  "EncodeUniswapFee fee =
     (if fee > 0xFFFFFF then Inl ''uint24 fee out of range''
      else Inr ((replicate 32 0)[29 := ucast (drop_bit 16 fee), 30 := ucast (drop_bit 8 fee), 31 := ucast fee]))"

section \<open>Pipeline\<close>

record 'w Chain =
  chTransactionCount :: "string \<Rightarrow> string \<Rightarrow> ('w, u64) io"
  chGasPrice :: "('w, int) io"
  chMaxPriorityFeePerGas :: "('w, int) io"
  chSendRawTransaction :: "string \<Rightarrow> ('w, string) io"
  chTransactionReceipt :: "string \<Rightarrow> ('w, Receipt option) io"
  chEthCall :: "CallMessage \<Rightarrow> ('w, string) io"
  chEstimateGas :: "CallMessage \<Rightarrow> ('w, u64) io"
  chBlockTimestamp :: "('w, string) io option"
  chTick :: "'w \<Rightarrow> string option \<times> 'w"

record 'w Pipeline =
  pConfig :: Config
  pMarket :: MarketConfig
  pChain :: "'w Chain"
  pFees :: "'w FeeService"
  pWalletAddress :: string
  pSign :: "(DynamicFeeTx \<Rightarrow> bytes result) option"
  pGate :: "'w Gate option"
  pMinProfit :: int
  pLatestObservedBlock :: "('w \<Rightarrow> u64) option"
  pMaxCandidateStalenessBlocks :: u64
  pNow :: "'w \<Rightarrow> int"
  pRecord :: "string \<Rightarrow> Opportunity option \<Rightarrow> string \<Rightarrow> bigint \<Rightarrow> bigint \<Rightarrow> string \<Rightarrow> 'w \<Rightarrow> 'w"
  pIsHexAddress :: "string \<Rightarrow> bool"
  pHexToAddress :: "string \<Rightarrow> address"
  pPack :: "ExecRequest \<Rightarrow> bytes result"

record Outcome =
  ocDecision :: string
  ocReason :: string
  ocRequest :: "ExecRequest option"
  ocSimulation :: "SimResult option"
  ocFinalProfit :: bigint
  ocTxHash :: string
  ocReceipt :: "Receipt option"

definition outcome :: "string \<Rightarrow> string \<Rightarrow> ExecRequest option \<Rightarrow> SimResult option \<Rightarrow> bigint \<Rightarrow> string \<Rightarrow> Receipt option \<Rightarrow> Outcome" where
  "outcome decision reason req sim final hash receipt = \<lparr>ocDecision = decision, ocReason = reason, ocRequest = req,
     ocSimulation = sim, ocFinalProfit = final, ocTxHash = hash, ocReceipt = receipt\<rparr>"

definition NewPipeline_checks :: "bigint \<Rightarrow> 'w Gate option \<Rightarrow> string option" where
  "NewPipeline_checks minProfit gate =
     (if \<not> big_pos minProfit then Some ''positive raw minProfit is required''
      else if gate = None then Some ''oracle/sequencer safety gate is required'' else None)"

definition candidateBlockLag :: "u64 \<Rightarrow> u64 \<Rightarrow> u64" where
  "candidateBlockLag sourceBlock latestObservedBlock =
     (if sourceBlock = 0 \<or> latestObservedBlock \<le> sourceBlock then 0 else latestObservedBlock - sourceBlock)"

definition candidateIsFresh :: "u64 \<Rightarrow> u64 \<Rightarrow> u64 \<Rightarrow> bool" where
  "candidateIsFresh sourceBlock latestObservedBlock maxStalenessBlocks \<longleftrightarrow>
     sourceBlock = 0 \<or> candidateBlockLag sourceBlock latestObservedBlock \<le> maxStalenessBlocks"

definition latestTimestamp :: "'w Pipeline \<Rightarrow> ('w, u64) io" where
  "latestTimestamp p =
     (case chBlockTimestamp (pChain p) of
        None \<Rightarrow> throw ''chain does not expose eth_getBlockByNumber''
      | Some call \<Rightarrow>
          bindE call (\<lambda>timestamp.
          case parse_hex (trim_prefix ''0x'' timestamp) of
            None \<Rightarrow> throw ''invalid block timestamp''
          | Some v \<Rightarrow> ret (of_int \<bar>v\<bar>)))"

text \<open>Looking up a symbol that is not configured gives Go's zero token.\<close>

definition token_or_zero :: "MarketConfig \<Rightarrow> string \<Rightarrow> Token" where
  "token_or_zero m symbol =
     (case token m symbol of Some t \<Rightarrow> t | None \<Rightarrow> \<lparr>tSymbol = '''', tAddress = '''', tDecimals = 0, tUSDFeed = ''''\<rparr>)"

definition min_out :: "Config \<Rightarrow> int \<Rightarrow> int" where
  "min_out c amountOut = big_div (amountOut * uint (10000 - cSlippageBPS c)) 10000"

definition build_step :: "'w Pipeline \<Rightarrow> nat \<Rightarrow> string \<Rightarrow> string \<Rightarrow> Hop \<Rightarrow> SwapStep result" where
  "build_step p i symIn symOut hop =
     (let tin = token_or_zero (pMarket p) symIn;
          tout = token_or_zero (pMarket p) symOut;
          camelot = (pDEX (hPool hop) = ''camelot_v3'');
          adapter = (if camelot then cCamelotV3Adapter (pConfig p) else cUniswapV3Adapter (pConfig p))
      in case (if camelot then Inr [] else EncodeUniswapFee (hFee hop)) of
           Inl err \<Rightarrow> Inl err
         | Inr data \<Rightarrow>
             if \<not> pIsHexAddress p adapter \<or> \<not> pIsHexAddress p (tAddress tin) \<or> \<not> pIsHexAddress p (tAddress tout)
             then Inl ''invalid configured adapter or token address''
             else let minimum = min_out (pConfig p) (hAmountOut hop) in
                  if minimum \<le> 0 then Inl (''step '' @ show_nat i @ '' minOut is zero'')
                  else Inr \<lparr>ssAdapter = pHexToAddress p adapter, ssTokenIn = pHexToAddress p (tAddress tin),
                            ssTokenOut = pHexToAddress p (tAddress tout), ssAmountOutMinimum = Some minimum, ssData = data\<rparr>)"

fun build_steps :: "'w Pipeline \<Rightarrow> nat \<Rightarrow> string list \<Rightarrow> Hop list \<Rightarrow> SwapStep list result" where
  "build_steps p i (symIn # symOut # syms) (hop # hops) =
     (case build_step p i symIn symOut hop of
        Inl err \<Rightarrow> Inl err
      | Inr step \<Rightarrow>
          (case build_steps p (Suc i) (symOut # syms) hops of Inl err \<Rightarrow> Inl err | Inr steps \<Rightarrow> Inr (step # steps)))"
| "build_steps p i syms hops = Inr []"

definition BuildRequest :: "'w Pipeline \<Rightarrow> Opportunity option \<Rightarrow> ('w, ExecRequest) io" where
  "BuildRequest p opp =
     (case opp of
        None \<Rightarrow> throw ''invalid opportunity''
      | Some o1 \<Rightarrow>
          let symbols = rSymbols (oRoute o1) in
          if length (oHops o1) < 2 \<or> length (oHops o1) > 4 \<or> length symbols \<noteq> length (oHops o1) + 1
          then throw ''invalid opportunity''
          else
            (case token (pMarket p) (hd symbols) of
               None \<Rightarrow> throw (''loan asset '' @ hd symbols @ '' not configured'')
             | Some asset \<Rightarrow>
                 if last symbols \<noteq> hd symbols then throw ''route must return to its loan asset''
                 else
                   bindE (lift_res (build_steps p 0 symbols (oHops o1))) (\<lambda>steps.
                   bindE (latestTimestamp p) (\<lambda>block.
                   ret \<lparr>erAsset = pHexToAddress p (tAddress asset), erAmount = Some (oAmountIn o1), erSteps = steps,
                        erDeadline = Some (uint (block + cDeadlineSeconds (pConfig p))),
                        erMinProfit = Some (pMinProfit p)\<rparr>))))"

definition aavePremium_exec :: "keccak \<Rightarrow> 'w Pipeline \<Rightarrow> int \<Rightarrow> ('w, int) io" where
  "aavePremium_exec kk p amount =
     bindE (chEthCall (pChain p) \<lparr>cmFrom = '''', cmTo = mAavePool (pMarket p),
              cmData = StaticCall kk ''FLASHLOAN_PREMIUM_TOTAL()'' [], cmValue = ''''\<rparr>) (\<lambda>raw.
     bindE (lift_res (decode_at_least 1 ''Aave premium read: '' raw)) (\<lambda>words.
     ret (big_div (amount * WordUint (words ! 0)) 10000)))"

text \<open>What the gates leave for the broadcast.\<close>

record Prepared =
  ppRequest :: ExecRequest
  ppCalldata :: bytes
  ppSimulation :: SimResult
  ppPremium :: int
  ppEconomics :: PricingResult

definition sim_caller :: "'w Chain \<Rightarrow> 'w SimCaller" where
  "sim_caller c = \<lparr>scEthCall = chEthCall c, scEstimateGas = chEstimateGas c\<rparr>"

text \<open>
  \<open>ProcessWithObserver\<close> up to the broadcast decision: an outcome, or everything the broadcast needs. The
  observer is told about the simulation.
\<close>

definition stale_candidate :: "'w Pipeline \<Rightarrow> Opportunity option \<Rightarrow> 'w \<Rightarrow> bool" where
  "stale_candidate p opp w \<longleftrightarrow>
     (case (opp, pLatestObservedBlock p) of
        (Some o1, Some latest_block) \<Rightarrow>
          \<not> candidateIsFresh (oSourceBlock o1) (latest_block w) (pMaxCandidateStalenessBlocks p)
      | _ \<Rightarrow> False)"

definition notify :: "(string \<Rightarrow> 'w \<Rightarrow> 'w) option \<Rightarrow> string \<Rightarrow> 'w \<Rightarrow> 'w" where
  "notify observer event w = (case observer of None \<Rightarrow> w | Some f \<Rightarrow> f event w)"

definition reject :: "string \<Rightarrow> ExecRequest option \<Rightarrow> SimResult option \<Rightarrow> bigint \<Rightarrow> Outcome" where
  "reject reason req sim final = outcome ''reject'' reason req sim final '''' None"

definition price_final :: "'w Pipeline \<Rightarrow> Token \<Rightarrow> Opportunity \<Rightarrow> ExecRequest \<Rightarrow> SimResult \<Rightarrow> int \<Rightarrow> PricingResult" where
  "price_final p asset o1 req sim premium =
     (let fee = srFee sim;
          l2 = feeToBaseRaw (fL2Cost fee) (fTotalUSD fee) (fTotalETH fee) (unat (tDecimals asset));
          l1 = feeToBaseRaw (fL1Cost fee) (fTotalUSD fee) (fTotalETH fee) (unat (tDecimals asset))
      in Pricing.Evaluate \<lparr>AmountIn = erAmount req, AmountOut = Some (hAmountOut (last (oHops o1))),
           AavePremium = Some premium, L2Fee = Some l2, L1DataFee = Some l1, MinProfit = erMinProfit req\<rparr>)"

definition broadcast_disabled :: "Config \<Rightarrow> bool" where
  "broadcast_disabled c \<longleftrightarrow> cDryRun c \<or> cExecutionMode c \<noteq> ''live'' \<or> \<not> cBroadcastEnabled c"

definition pre_broadcast :: "keccak \<Rightarrow> 'w Pipeline \<Rightarrow> (string \<Rightarrow> 'w \<Rightarrow> 'w) option \<Rightarrow> Opportunity option \<Rightarrow> 'w
    \<Rightarrow> (Outcome + Prepared) \<times> 'w" where
  "pre_broadcast kk p observer opp w =
     (if stale_candidate p opp w
      then (Inl (reject ''stale candidate: newer chain state observed'' None None None), w)
      else case Check kk (pGate p) (pNow p w) w of
        (Inl err, w1) \<Rightarrow> (Inl (reject (''safety gate: '' @ err) None None None), w1)
      | (Inr _, w1) \<Rightarrow>
        case BuildRequest p opp w1 of
          (Inl err, w2) \<Rightarrow> (Inl (reject err None None None), w2)
        | (Inr req, w2) \<Rightarrow>
          case Calldata (pPack p) req of
            Inl err \<Rightarrow> (Inl (reject err (Some req) None None), w2)
          | Inr calldata \<Rightarrow>
            case Simulate kk (sim_caller (pChain p)) (pFees p) (pWalletAddress p)
                   (cFlashExecutorAddress (pConfig p)) calldata None w2 of
              (Inl err, w3) \<Rightarrow>
                (Inl (reject err (Some req) None None), pRecord p ''trade_failed'' opp '''' None None err w3)
            | (Inr sim, w3) \<Rightarrow>
              case aavePremium_exec kk p (big_or_zero (erAmount req)) w3 of
                (Inl err, w4) \<Rightarrow> (Inl (reject err (Some req) (Some sim) None), w4)
              | (Inr premium, w4) \<Rightarrow>
                case token (pMarket p) (hd (rSymbols (oRoute (the opp)))) of
                  None \<Rightarrow> (Inl (reject ''loan asset not configured'' (Some req) (Some sim) None), w4)
                | Some asset \<Rightarrow>
                  let economics = price_final p asset (the opp) req sim premium;
                      final = Some (ExpectedProfit economics);
                      w5 = notify observer ''forced_trade_simulation'' w4
                  in if \<not> Profitable economics
                     then (Inl (reject ''unprofitable after final gas repricing'' (Some req) (Some sim) final),
                           pRecord p ''post_gas_rejected'' opp '''' final (Some premium) ''final gas repricing'' w5)
                     else if broadcast_disabled (pConfig p)
                     then (Inl (outcome ''simulated'' ''broadcast disabled'' (Some req) (Some sim) final '''' None),
                           pRecord p ''simulation_succeeded'' opp '''' final (Some premium) ''broadcast disabled'' w5)
                     else (Inr \<lparr>ppRequest = req, ppCalldata = calldata, ppSimulation = sim, ppPremium = premium,
                                ppEconomics = economics\<rparr>, w5))"

text \<open>The rest of \<open>ProcessWithObserver\<close>: nonce, fees, broadcast and receipt. \<open>None\<close> means still waiting.\<close>

definition send_stage :: "nat \<Rightarrow> 'w Pipeline \<Rightarrow> (string \<Rightarrow> 'w \<Rightarrow> 'w) option \<Rightarrow> Opportunity option \<Rightarrow> Prepared
    \<Rightarrow> NonceManager \<times> 'w \<Rightarrow> (Outcome \<times> NonceManager \<times> 'w) option" where
  "send_stage fuel p observer opp prep = (\<lambda>(m, w).
     let req = Some (ppRequest prep); sim = Some (ppSimulation prep);
         final = Some (ExpectedProfit (ppEconomics prep)); premium = Some (ppPremium prep);
         (count, w1) = chTransactionCount (pChain p) (pWalletAddress p) ''pending'' w
     in case Next count m of
          (Inl err, m1) \<Rightarrow> Some (reject err req sim final, m1, w1)
        | (Inr nonce, m1) \<Rightarrow>
          case chGasPrice (pChain p) w1 of
            (Inl err, w2) \<Rightarrow> Some (reject err req sim final, Release nonce m1, w2)
          | (Inr gasPrice, w2) \<Rightarrow>
            let (prio, w3) = chMaxPriorityFeePerGas (pChain p) w2;
                priorityFee = (case prio of Inl _ \<Rightarrow> 0 | Inr v \<Rightarrow> v);
                limit = srGasEstimate (ppSimulation prep) * cGasLimitMultiplierBPS (pConfig p) div 10000;
                w4 = notify observer ''forced_trade_ready'' w3
            in case Broadcast (pSign p) (chSendRawTransaction (pChain p)) (cChainID (pConfig p)) nonce limit
                      (Some gasPrice) (Some priorityFee) (cFlashExecutorAddress (pConfig p)) (ppCalldata prep) w4 of
                 (Inl err, w5) \<Rightarrow>
                   Some (reject err req sim final, Release nonce m1,
                         pRecord p ''trade_failed'' opp '''' final premium err w5)
               | (Inr hash, w5) \<Rightarrow>
                 let w6 = pRecord p ''trade_sent'' opp hash final premium '''' w5 in
                 case wait_receipt fuel (chTransactionReceipt (pChain p)) (chTick (pChain p)) hash w6 of
                   None \<Rightarrow> None
                 | Some (res, w7) \<Rightarrow>
                   (case trErr res of
                      Some err \<Rightarrow>
                        Some (outcome ''sent'' err req sim final hash (trReceipt res), m1,
                              pRecord p ''trade_failed'' opp hash final premium err w7)
                    | None \<Rightarrow>
                        Some (outcome ''confirmed'' '''' req sim final hash (trReceipt res), m1,
                              pRecord p ''trade_success'' opp hash final premium '''' w7)))"

definition ProcessWithObserver :: "nat \<Rightarrow> keccak \<Rightarrow> 'w Pipeline \<Rightarrow> (string \<Rightarrow> 'w \<Rightarrow> 'w) option \<Rightarrow> Opportunity option
    \<Rightarrow> NonceManager \<times> 'w \<Rightarrow> (Outcome \<times> NonceManager \<times> 'w) option" where
  "ProcessWithObserver fuel kk p observer opp = (\<lambda>(m, w).
     case pre_broadcast kk p observer opp w of
       (Inl out, w1) \<Rightarrow> Some (out, m, w1)
     | (Inr prep, w1) \<Rightarrow> send_stage fuel p observer opp prep (m, w1))"

definition Process :: "nat \<Rightarrow> keccak \<Rightarrow> 'w Pipeline \<Rightarrow> Opportunity option \<Rightarrow> NonceManager \<times> 'w
    \<Rightarrow> (Outcome \<times> NonceManager \<times> 'w) option" where
  "Process fuel kk p opp = ProcessWithObserver fuel kk p None opp"

section \<open>Deployment check\<close>

record 'w Verifier =
  vfEthCall :: "string \<Rightarrow> string \<Rightarrow> ('w, string) io"
  vfGetCode :: "string \<Rightarrow> ('w, string) io"
  vfPack :: "string \<Rightarrow> address option \<Rightarrow> bytes result"
  vfUnpackAddress :: "string \<Rightarrow> string \<Rightarrow> string option"
  vfUnpackBool :: "string \<Rightarrow> string \<Rightarrow> bool option"
  vfHexToAddress :: "string \<Rightarrow> address"

definition expectAddress :: "'w Verifier \<Rightarrow> string \<Rightarrow> string \<Rightarrow> string \<Rightarrow> ('w, unit) io" where
  "expectAddress c to method expected =
     bindE (lift_res (vfPack c method None)) (\<lambda>data.
     bindE (wrap_err (method @ '': '') (vfEthCall c to (''0x'' @ hex_encode data))) (\<lambda>raw.
     case vfUnpackAddress c method raw of
       None \<Rightarrow> throw (method @ '' invalid response'')
     | Some got \<Rightarrow> if equal_fold got expected then ret () else throw (method @ '' mismatch: got '' @ got)))"

definition expectBool :: "'w Verifier \<Rightarrow> string \<Rightarrow> string \<Rightarrow> address \<Rightarrow> bool \<Rightarrow> ('w, unit) io" where
  "expectBool c to method arg expected =
     bindE (lift_res (vfPack c method (Some arg))) (\<lambda>data.
     bindE (wrap_err (method @ '': '') (vfEthCall c to (''0x'' @ hex_encode data))) (\<lambda>raw.
     case vfUnpackBool c method raw of
       None \<Rightarrow> throw (method @ '' invalid response'')
     | Some got \<Rightarrow> if got = expected then ret () else throw (method @ '' mismatch'')))"

fun each :: "('a \<Rightarrow> ('w, unit) io) \<Rightarrow> 'a list \<Rightarrow> ('w, unit) io" where
  "each f [] = ret ()"
| "each f (x # xs) = bindE (f x) (\<lambda>_. each f xs)"

definition expect_code :: "'w Verifier \<Rightarrow> string \<Rightarrow> ('w, unit) io" where
  "expect_code c target =
     bindE (wrap_err (''code '' @ target @ '': '') (vfGetCode c target)) (\<lambda>code.
     if code = '''' \<or> code = ''0x'' then throw (''no bytecode at '' @ target) else ret ())"

definition expect_token :: "'w Verifier \<Rightarrow> Config \<Rightarrow> MarketConfig \<Rightarrow> string \<Rightarrow> ('w, unit) io" where
  "expect_token c cfg market symbol =
     (case token market symbol of
        None \<Rightarrow> throw (''configured execution token '' @ symbol @ '' is missing'')
      | Some t \<Rightarrow> expectBool c (cFlashExecutorAddress cfg) ''allowedTokens'' (vfHexToAddress c (tAddress t)) True)"

definition VerifyDeployment :: "'w Verifier \<Rightarrow> Config \<Rightarrow> MarketConfig \<Rightarrow> string \<Rightarrow> ('w, unit) io" where
  "VerifyDeployment c cfg market expectedExecutor =
     bindE (each (expect_code c) [cFlashExecutorAddress cfg, cUniswapV3Adapter cfg, cCamelotV3Adapter cfg]) (\<lambda>_.
     bindE (expectAddress c (cFlashExecutorAddress cfg) ''authorizedExecutor'' expectedExecutor) (\<lambda>_.
     bindE (if cProfitRecipient cfg \<noteq> ''''
            then expectAddress c (cFlashExecutorAddress cfg) ''profitRecipient'' (cProfitRecipient cfg) else ret ()) (\<lambda>_.
     bindE (expectAddress c (cFlashExecutorAddress cfg) ''AAVE_POOL'' (mAavePool market)) (\<lambda>_.
     bindE (expectAddress c (cUniswapV3Adapter cfg) ''ROUTER'' (mUniswapSwapRouter market)) (\<lambda>_.
     bindE (expectAddress c (cCamelotV3Adapter cfg) ''ROUTER'' (mCamelotSwapRouter market)) (\<lambda>_.
     bindE (each (\<lambda>adapter. expectBool c (cFlashExecutorAddress cfg) ''approvedAdapters'' (vfHexToAddress c adapter) True)
              [cUniswapV3Adapter cfg, cCamelotV3Adapter cfg]) (\<lambda>_.
     each (expect_token c cfg market) (ExecutionAssets market))))))))"

section \<open>Only a fully gated candidate can be broadcast\<close>

text \<open>The same pipeline with another client behind \<open>SendRawTransaction\<close>.\<close>

definition with_send :: "(string \<Rightarrow> ('w, string) io) \<Rightarrow> 'w Pipeline \<Rightarrow> 'w Pipeline" where
  "with_send f p = p\<lparr>pChain := (pChain p)\<lparr>chSendRawTransaction := f\<rparr>\<rparr>"

lemma with_send_simps [simp]:
  "pConfig (with_send f p) = pConfig p" "pMarket (with_send f p) = pMarket p" "pFees (with_send f p) = pFees p"
  "pWalletAddress (with_send f p) = pWalletAddress p" "pGate (with_send f p) = pGate p"
  "pMinProfit (with_send f p) = pMinProfit p" "pLatestObservedBlock (with_send f p) = pLatestObservedBlock p"
  "pMaxCandidateStalenessBlocks (with_send f p) = pMaxCandidateStalenessBlocks p" "pNow (with_send f p) = pNow p"
  "pRecord (with_send f p) = pRecord p" "pIsHexAddress (with_send f p) = pIsHexAddress p"
  "pHexToAddress (with_send f p) = pHexToAddress p" "pPack (with_send f p) = pPack p" "pSign (with_send f p) = pSign p"
  "chBlockTimestamp (pChain (with_send f p)) = chBlockTimestamp (pChain p)"
  "chEthCall (pChain (with_send f p)) = chEthCall (pChain p)"
  "sim_caller (pChain (with_send f p)) = sim_caller (pChain p)"
  by (simp_all add: with_send_def sim_caller_def)

lemma build_step_with_send [simp]: "build_step (with_send f p) i a b hop = build_step p i a b hop"
  unfolding build_step_def with_send_simps ..

lemma build_steps_with_send [simp]: "build_steps (with_send f p) i syms hops = build_steps p i syms hops"
  by (induction p i syms hops rule: build_steps.induct) (simp_all split: sum.split)

lemma latestTimestamp_with_send [simp]: "latestTimestamp (with_send f p) = latestTimestamp p"
  unfolding latestTimestamp_def with_send_simps ..

lemma BuildRequest_with_send [simp]: "BuildRequest (with_send f p) opp = BuildRequest p opp"
  unfolding BuildRequest_def with_send_simps build_steps_with_send latestTimestamp_with_send ..

lemma pre_broadcast_with_send: "pre_broadcast kk (with_send f p) observer opp = pre_broadcast kk p observer opp"
  unfolding pre_broadcast_def stale_candidate_def aavePremium_exec_def price_final_def with_send_simps
    BuildRequest_with_send ..

text \<open>Everything that must have happened before a broadcast.\<close>

definition gates_passed :: "keccak \<Rightarrow> 'w Pipeline \<Rightarrow> Opportunity option \<Rightarrow> 'w \<Rightarrow> bool" where
  "gates_passed kk p opp w \<longleftrightarrow>
     (\<exists>o1 asset req calldata sim premium w1 w2 w3 w4.
        opp = Some o1 \<and> \<not> stale_candidate p opp w
        \<and> Check kk (pGate p) (pNow p w) w = (Inr (), w1)
        \<and> BuildRequest p opp w1 = (Inr req, w2)
        \<and> Request_Validate req = None \<and> pPack p req = Inr calldata
        \<and> Simulate kk (sim_caller (pChain p)) (pFees p) (pWalletAddress p) (cFlashExecutorAddress (pConfig p))
            calldata None w2 = (Inr sim, w3)
        \<and> aavePremium_exec kk p (big_or_zero (erAmount req)) w3 = (Inr premium, w4)
        \<and> token (pMarket p) (hd (rSymbols (oRoute o1))) = Some asset
        \<and> Profitable (price_final p asset o1 req sim premium)
        \<and> \<not> cDryRun (pConfig p) \<and> cExecutionMode (pConfig p) = ''live'' \<and> cBroadcastEnabled (pConfig p))"

lemma BuildRequest_Some: "BuildRequest p opp w = (Inr req, w') \<Longrightarrow> \<exists>o1. opp = Some o1"
  by (auto simp: BuildRequest_def split: option.splits)

lemma pre_broadcast_gates:
  assumes "pre_broadcast kk p observer opp w = (Inr prep, w')"
  shows "gates_passed kk p opp w"
proof -
  have st: "\<not> stale_candidate p opp w" using assms by (auto simp: pre_broadcast_def)
  obtain rc w1 where c: "Check kk (pGate p) (pNow p w) w = (rc, w1)" by (metis surj_pair)
  obtain rb w2 where b: "BuildRequest p opp w1 = (rb, w2)" by (metis surj_pair)
  have rc: "rc = Inr ()" using assms st c by (cases rc) (simp_all add: pre_broadcast_def)
  obtain req where rb: "rb = Inr req" using assms st c rc b by (cases rb) (simp_all add: pre_broadcast_def)
  obtain o1 where o1: "opp = Some o1" using BuildRequest_Some [OF b [unfolded rb]] by (elim exE)
  obtain calldata where d: "Calldata (pPack p) req = Inr calldata"
    using assms st c rc b rb by (cases "Calldata (pPack p) req") (simp_all add: pre_broadcast_def)
  obtain rs w3 where s: "Simulate kk (sim_caller (pChain p)) (pFees p) (pWalletAddress p)
      (cFlashExecutorAddress (pConfig p)) calldata None w2 = (rs, w3)" by (metis surj_pair)
  obtain sim where rs: "rs = Inr sim" using assms st c rc b rb d s by (cases rs) (simp_all add: pre_broadcast_def)
  obtain ra w4 where a: "aavePremium_exec kk p (big_or_zero (erAmount req)) w3 = (ra, w4)" by (metis surj_pair)
  obtain premium where ra: "ra = Inr premium"
    using assms st c rc b rb d s rs a by (cases ra) (simp_all add: pre_broadcast_def)
  obtain asset where t: "token (pMarket p) (hd (rSymbols (oRoute o1))) = Some asset"
    using assms st c rc b rb d s rs a ra o1
    by (cases "token (pMarket p) (hd (rSymbols (oRoute o1)))") (simp_all add: pre_broadcast_def)
  have "Profitable (price_final p asset o1 req sim premium) \<and> \<not> broadcast_disabled (pConfig p)"
    using assms st c rc b rb d s rs a ra t o1 by (auto simp: pre_broadcast_def Let_def split: if_splits)
  moreover have "Request_Validate req = None" "pPack p req = Inr calldata"
    using d by (auto simp: Calldata_def split: option.splits)
  ultimately show ?thesis
    unfolding gates_passed_def broadcast_disabled_def
    using o1 st c [unfolded rc] b [unfolded rb] s [unfolded rs] a [unfolded ra] t by blast
qed

text \<open>
  C2: the pipeline hands a transaction to the network only when every gate has passed. Either the candidate
  is fresh, the oracle gate lets it through, the request is built and valid, the calldata is simulated
  successfully, the repriced route is profitable and all three live switches are set, or the run is the same
  whatever the client behind \<open>SendRawTransaction\<close> does: it is never used.
\<close>

theorem broadcast_gated:
  "gates_passed kk p opp w \<or>
   (\<forall>f g fuel m. ProcessWithObserver fuel kk (with_send f p) observer opp (m, w)
                 = ProcessWithObserver fuel kk (with_send g p) observer opp (m, w))"
proof (cases "pre_broadcast kk p observer opp w")
  case (Pair r w1)
  show ?thesis
  proof (cases r)
    case (Inl out)
    then show ?thesis using Pair by (simp add: ProcessWithObserver_def pre_broadcast_with_send)
  next
    case (Inr prep)
    have "gates_passed kk p opp w" by (rule pre_broadcast_gates) (use Pair Inr in simp)
    then show ?thesis ..
  qed
qed

section \<open>The request\<close>

lemma min_out_bounds:
  assumes "cSlippageBPS c \<le> 10000" "0 < min_out c amountOut"
  shows "min_out c amountOut = amountOut * (10000 - uint (cSlippageBPS c)) div 10000" "min_out c amountOut \<le> amountOut"
proof -
  let ?k = "10000 - uint (cSlippageBPS c)"
  have u: "uint (10000 - cSlippageBPS c) = ?k"
    using assms(1) by (simp add: uint_minus_simple_alt)
  have k: "0 \<le> ?k" "?k \<le> 10000" using assms(1) by (simp_all add: word_le_def)
  show e: "min_out c amountOut = amountOut * ?k div 10000" by (simp add: min_out_def u)
  have "0 < amountOut"
  proof (rule ccontr)
    assume "\<not> 0 < amountOut"
    then have "amountOut * ?k \<le> 0" using k(1) by (simp add: mult_nonpos_nonneg)
    then have "amountOut * ?k div 10000 \<le> 0" by (simp add: div_nonpos_pos_le0)
    then show False using assms(2) e by simp
  qed
  then have "amountOut * ?k \<le> amountOut * 10000" using k(2) by (intro mult_left_mono) auto
  then have "amountOut * ?k div 10000 \<le> amountOut * 10000 div 10000" by (rule zdiv_mono1) simp
  then show "min_out c amountOut \<le> amountOut" using e by simp
qed

definition step_for :: "'w Pipeline \<Rightarrow> SwapStep \<Rightarrow> Hop \<Rightarrow> bool" where
  "step_for p step hop \<longleftrightarrow> (\<exists>m. ssAmountOutMinimum step = Some m \<and> 0 < m \<and> m \<le> hAmountOut hop
     \<and> m = hAmountOut hop * (10000 - uint (cSlippageBPS (pConfig p))) div 10000)"

lemma build_step_sound:
  assumes "build_step p i a b hop = Inr step" "cSlippageBPS (pConfig p) \<le> 10000"
  shows "step_for p step hop" "ssTokenIn step = pHexToAddress p (tAddress (token_or_zero (pMarket p) a))"
    "ssTokenOut step = pHexToAddress p (tAddress (token_or_zero (pMarket p) b))"
proof -
  have m: "0 < min_out (pConfig p) (hAmountOut hop)" "ssAmountOutMinimum step = Some (min_out (pConfig p) (hAmountOut hop))"
    and t: "ssTokenIn step = pHexToAddress p (tAddress (token_or_zero (pMarket p) a))"
      "ssTokenOut step = pHexToAddress p (tAddress (token_or_zero (pMarket p) b))"
    using assms(1) by (auto simp: build_step_def Let_def split: sum.splits if_splits)
  show "step_for p step hop" unfolding step_for_def using m min_out_bounds [OF assms(2) m(1)] by auto
  show "ssTokenIn step = pHexToAddress p (tAddress (token_or_zero (pMarket p) a))"
    "ssTokenOut step = pHexToAddress p (tAddress (token_or_zero (pMarket p) b))" by (fact t)+
qed

text \<open>The steps follow the symbols: each leaves one token and arrives at the next.\<close>

lemma build_steps_sound:
  "build_steps p i syms hops = Inr steps \<Longrightarrow> length syms = Suc (length hops) \<Longrightarrow> cSlippageBPS (pConfig p) \<le> 10000 \<Longrightarrow>
   list_all2 (step_for p) steps hops
   \<and> map ssTokenIn steps = map (\<lambda>s. pHexToAddress p (tAddress (token_or_zero (pMarket p) s))) (butlast syms)
   \<and> map ssTokenOut steps = map (\<lambda>s. pHexToAddress p (tAddress (token_or_zero (pMarket p) s))) (tl syms)"
proof (induction p i syms hops arbitrary: steps rule: build_steps.induct)
  case (1 p i symIn symOut syms hop hops)
  then obtain step rest where s: "build_step p i symIn symOut hop = Inr step"
    and r: "build_steps p (Suc i) (symOut # syms) hops = Inr rest" and st: "steps = step # rest"
    by (auto split: sum.splits)
  show ?case
    using "1.IH" [OF s r] "1.prems" build_step_sound [OF s "1.prems"(3)] by (simp add: st)
qed (auto simp: length_Suc_conv)


section \<open>The fee argument\<close>

lemma be_bytes_zero: "be_bytes n 0 = replicate n 0"
  by (induction n) (simp_all add: replicate_append_same)

lemma ucast_drop_bit_byte: "(ucast (drop_bit n (fee :: u32)) :: byte) = of_int (uint fee div 2 ^ n)"
proof -
  have "take_bit 32 (uint fee) = uint fee" using unsigned_less [where 'a = int, of fee] by (simp add: take_bit_int_eq_self)
  then have "uint (drop_bit n fee) = uint fee div 2 ^ n"
    using unsigned_drop_bit_eq [where 'a = int, of n fee] by (simp add: drop_bit_eq_div)
  then show ?thesis by (simp only: ucast_eq)
qed

lemma EncodeUniswapFee_bytes:
  assumes "fee \<le> 0xFFFFFF"
  shows "EncodeUniswapFee fee = Inr (be_bytes 32 (uint fee))"
proof -
  have small: "uint fee div 256 div 256 div 256 = 0"
    using assms by (simp add: word_le_def zdiv_zmult2_eq [symmetric])
  have "be_bytes 32 (uint fee) = be_bytes 29 0 @ [of_int (uint fee div 256 div 256), of_int (uint fee div 256), of_int (uint fee)]"
    using small by (simp add: numeral_eq_Suc del: replicate_Suc)
  also have "\<dots> = replicate 29 0 @ [of_int (uint fee div 65536), of_int (uint fee div 256), of_int (uint fee)]"
    by (simp only: be_bytes_zero) (simp add: zdiv_zmult2_eq [symmetric])
  also have "\<dots> = (replicate 32 0)[29 := ucast (drop_bit 16 fee), 30 := ucast (drop_bit 8 fee), 31 := ucast fee]"
  proof -
    have "replicate 32 0 = replicate 29 0 @ [0, 0, 0 :: byte]" by (simp add: numeral_eq_Suc)
    then show ?thesis
      using ucast_drop_bit_byte [of 16 fee] ucast_drop_bit_byte [of 8 fee] ucast_drop_bit_byte [of 0 fee]
      by (simp add: list_update_append)
  qed
  finally show ?thesis using assms by (simp add: EncodeUniswapFee_def not_less)
qed

text \<open>
  The fee argument of a Uniswap step is the ABI word of the fee: 32 bytes that read back as the fee, for
  every fee that fits 24 bits, and an error for every other.
\<close>

theorem EncodeUniswapFee_word:
  "(case EncodeUniswapFee fee of
      Inl _ \<Rightarrow> 2 ^ 24 \<le> uint fee
    | Inr data \<Rightarrow> uint fee < 2 ^ 24 \<and> length data = 32 \<and> WordUint data = uint fee)"
proof (cases "fee \<le> 0xFFFFFF")
  case True
  then have "uint fee < 2 ^ 24" by (simp add: word_le_def)
  then show ?thesis
    using True by (simp add: EncodeUniswapFee_bytes WordUint_def be_int_be_bytes)
next
  case False
  then have "fee > 0xFFFFFF" "2 ^ 24 \<le> uint fee" by (simp_all add: word_le_def word_less_def not_le)
  then show ?thesis by (simp add: EncodeUniswapFee_def)
qed

section \<open>The deployment check\<close>

definition confirmed_bool :: "'w Verifier \<Rightarrow> string \<Rightarrow> string \<Rightarrow> address \<Rightarrow> bool" where
  "confirmed_bool c to method arg \<longleftrightarrow>
     (\<exists>data raw v v'. vfPack c method (Some arg) = Inr data \<and> vfEthCall c to (''0x'' @ hex_encode data) v = (Inr raw, v')
        \<and> vfUnpackBool c method raw = Some True)"

definition confirmed_address :: "'w Verifier \<Rightarrow> string \<Rightarrow> string \<Rightarrow> string \<Rightarrow> bool" where
  "confirmed_address c to method expected \<longleftrightarrow>
     (\<exists>data raw got v v'. vfPack c method None = Inr data \<and> vfEthCall c to (''0x'' @ hex_encode data) v = (Inr raw, v')
        \<and> vfUnpackAddress c method raw = Some got \<and> equal_fold got expected)"

lemma expectBool_confirms: "expectBool c to method arg True v = (Inr u, v') \<Longrightarrow> confirmed_bool c to method arg"
proof -
  assume "expectBool c to method arg True v = (Inr u, v')"
  then obtain data raw where "vfPack c method (Some arg) = Inr data"
    "vfEthCall c to (''0x'' @ hex_encode data) v = (Inr raw, v')" "vfUnpackBool c method raw = Some True"
    by (auto simp: expectBool_def elim!: bindE_InrE split: option.splits if_splits)
  then show ?thesis unfolding confirmed_bool_def by (intro exI conjI)
qed

lemma expectAddress_confirms: "expectAddress c to method expected v = (Inr u, v') \<Longrightarrow> confirmed_address c to method expected"
proof -
  assume "expectAddress c to method expected v = (Inr u, v')"
  then obtain data raw got where "vfPack c method None = Inr data"
    "vfEthCall c to (''0x'' @ hex_encode data) v = (Inr raw, v')" "vfUnpackAddress c method raw = Some got"
    "equal_fold got expected"
    by (auto simp: expectAddress_def elim!: bindE_InrE split: option.splits if_splits)
  then show ?thesis unfolding confirmed_address_def by (intro exI conjI)
qed

lemma each_Inr: "each f xs v = (Inr u, v') \<Longrightarrow> x \<in> set xs \<Longrightarrow> \<exists>v1 v2. f x v1 = (Inr (), v2)"
proof (induction xs arbitrary: v)
  case (Cons y ys)
  then obtain v1 where "f y v = (Inr (), v1)" "each f ys v1 = (Inr u, v')" by (auto elim!: bindE_InrE)
  then show ?case using Cons by auto
qed simp

text \<open>
  C36: the pipeline starts only on a deployment that was read back from the chain: a successful check means
  that the chain confirmed the operator as authorized executor, the Aave pool and both routers, approved both
  adapters and allows every token of the configured execution universe.
\<close>

theorem VerifyDeployment_confirms:
  assumes "VerifyDeployment c cfg market operator_address w = (Inr (), w')"
  shows "confirmed_address c (cFlashExecutorAddress cfg) ''authorizedExecutor'' operator_address
    \<and> confirmed_address c (cFlashExecutorAddress cfg) ''AAVE_POOL'' (mAavePool market)
    \<and> confirmed_address c (cUniswapV3Adapter cfg) ''ROUTER'' (mUniswapSwapRouter market)
    \<and> confirmed_address c (cCamelotV3Adapter cfg) ''ROUTER'' (mCamelotSwapRouter market)
    \<and> list_all (\<lambda>a. confirmed_bool c (cFlashExecutorAddress cfg) ''approvedAdapters'' (vfHexToAddress c a))
        [cUniswapV3Adapter cfg, cCamelotV3Adapter cfg]
    \<and> list_all (\<lambda>s. \<exists>t. token market s = Some t
        \<and> confirmed_bool c (cFlashExecutorAddress cfg) ''allowedTokens'' (vfHexToAddress c (tAddress t))) (ExecutionAssets market)"
proof -
  obtain u1 u2 u3 u4 u5 v1 v2 v3 v4 v5 v6 v7 where
    e: "expectAddress c (cFlashExecutorAddress cfg) ''authorizedExecutor'' operator_address v1 = (Inr u1, v2)"
    and a: "expectAddress c (cFlashExecutorAddress cfg) ''AAVE_POOL'' (mAavePool market) v3 = (Inr u2, v4)"
    and u: "expectAddress c (cUniswapV3Adapter cfg) ''ROUTER'' (mUniswapSwapRouter market) v4 = (Inr u3, v5)"
    and k: "expectAddress c (cCamelotV3Adapter cfg) ''ROUTER'' (mCamelotSwapRouter market) v5 = (Inr u4, v6)"
    and ad: "each (\<lambda>adapter. expectBool c (cFlashExecutorAddress cfg) ''approvedAdapters'' (vfHexToAddress c adapter) True)
        [cUniswapV3Adapter cfg, cCamelotV3Adapter cfg] v6 = (Inr u5, v7)"
    and tk: "each (expect_token c cfg market) (ExecutionAssets market) v7 = (Inr (), w')"
    using assms unfolding VerifyDeployment_def by (elim bindE_InrE) (rule that; assumption)
  have "\<exists>t. token market s = Some t \<and> confirmed_bool c (cFlashExecutorAddress cfg) ''allowedTokens'' (vfHexToAddress c (tAddress t))"
    if "s \<in> set (ExecutionAssets market)" for s
    using each_Inr [OF tk that] by (auto simp: expect_token_def split: option.splits dest: expectBool_confirms)
  moreover have "confirmed_bool c (cFlashExecutorAddress cfg) ''approvedAdapters'' (vfHexToAddress c x)"
    if "x \<in> set [cUniswapV3Adapter cfg, cCamelotV3Adapter cfg]" for x
    using each_Inr [OF ad that] by (auto dest: expectBool_confirms)
  ultimately show ?thesis
    using expectAddress_confirms [OF e] expectAddress_confirms [OF a] expectAddress_confirms [OF u]
      expectAddress_confirms [OF k] by (simp add: list_all_iff)
qed

section \<open>A concrete run\<close>

definition demo_config :: Config where
  "demo_config = \<lparr>cChainID = 42161, cHTTPRPCURL = ''h'', cWSRPCURL = ''w'', cRPCProviders = [], cRPCReadTargetRPS = 8,
     cRPCPremiumAggregateRPS = 6, cRPCMaxEthCallsPerMinute = 480, cRPCMaxHotCallsPerMinute = 360,
     cMaxCandidateStalenessBlocks = 2, cFlashExecutorAddress = ''0xe'', cUniswapV3Adapter = ''0xu'',
     cCamelotV3Adapter = ''0xc'', cProfitRecipient = '''', cPrivateKey = ''k'', cDryRun = False, cExecutionMode = ''live'',
     cBroadcastEnabled = True, cSlippageBPS = 50, cDeadlineSeconds = 120, cGasLimitMultiplierBPS = 12000,
     cPriceMaxStalenessSeconds = 3600, cSequencerGraceSeconds = 3600\<rparr>"

definition demo_chain :: "unit Chain" where
  "demo_chain = \<lparr>chTransactionCount = (\<lambda>_ _. ret 7), chGasPrice = ret 100, chMaxPriorityFeePerGas = throw '''',
     chSendRawTransaction = (\<lambda>_. ret ''0xhash''),
     chTransactionReceipt = (\<lambda>_. ret (Some \<lparr>rcStatus = ''0x1'', rcTransactionHash = ''0xhash''\<rparr>)),
     chEthCall = (\<lambda>_. ret six_ones), chEstimateGas = (\<lambda>_. ret 10), chBlockTimestamp = Some (ret ''0x64''),
     chTick = (\<lambda>w. (None, w))\<rparr>"

definition demo_pipeline :: "unit Pipeline" where
  "demo_pipeline = \<lparr>pConfig = demo_config, pMarket = demo_market, pChain = Execution.demo_chain, pFees = one_service,
     pWalletAddress = ''0xw'', pSign = Some (\<lambda>_. Inr [1]), pGate = Some demo_gate, pMinProfit = 5,
     pLatestObservedBlock = Some (\<lambda>_. 9), pMaxCandidateStalenessBlocks = 2, pNow = (\<lambda>_. 100 * 10 ^ 9),
     pRecord = (\<lambda>_ _ _ _ _ _ w. w), pIsHexAddress = (\<lambda>_. True), pHexToAddress = (\<lambda>s. replicate 20 (of_nat (length s))),
     pPack = (\<lambda>_. Inr [1, 2, 3, 4])\<rparr>"

definition demo_hop :: "string \<Rightarrow> int \<Rightarrow> int \<Rightarrow> Hop" where
  "demo_hop address i out = \<lparr>hPool = ab_pool address, hAmountIn = i, hAmountOut = out, hQuoteGas = 0, hFee = 500\<rparr>"

definition demo_opportunity :: Opportunity where
  "demo_opportunity = \<lparr>oRoute = ab_route, oAmountIn = 10000, oAmountOut = 10200,
     oHops = [demo_hop ''0xa'' 10000 10100, demo_hop ''0xb'' 10100 10200], oSourceBlock = 8, oGrossProfit = 200,
     oAavePremium = 1, oExpectedProfit = 197, oGasEstimate = 1, oL1DataFee = 1, oMinProfit = 5,
     oConfidence = ''pre_simulation'', oTimestamp = 0\<rparr>"

lemmas demo_pipeline_defs = demo_pipeline_def demo_config_def Execution.demo_chain_def demo_opportunity_def demo_hop_def
  demo_market_def demo_token_def ab_route_def ab_pool_def

definition demo_step :: "int \<Rightarrow> SwapStep" where
  "demo_step m = \<lparr>ssAdapter = replicate 20 3, ssTokenIn = replicate 20 3, ssTokenOut = replicate 20 3,
     ssAmountOutMinimum = Some m, ssData = be_bytes 32 500\<rparr>"

lemma demo_request_built:
  "BuildRequest demo_pipeline (Some demo_opportunity) () =
     (Inr \<lparr>erAsset = replicate 20 3, erAmount = Some 10000, erSteps = [demo_step 10049, demo_step 10149],
        erDeadline = Some 220, erMinProfit = Some 5\<rparr>, ())"
proof -
  have fee: "EncodeUniswapFee 500 = Inr (be_bytes 32 500)"
    using EncodeUniswapFee_bytes [of 500] by simp
  have dex: "UniswapV3 \<noteq> ''camelot_v3''" by (simp add: UniswapV3_def)
  have ts: "latestTimestamp demo_pipeline () = (Inr 100, ())"
    by (simp add: latestTimestamp_def demo_pipeline_defs bindE_def trim_prefix_def parse_hex_def Let_def hexval_def)
  have steps: "build_steps demo_pipeline 0 [''A'', ''B'', ''A''] (oHops demo_opportunity)
      = Inr [demo_step 10049, demo_step 10149]"
    by (simp add: build_step_def demo_pipeline_defs token_or_zero_def fee dex min_out_def Let_def Execution.demo_step_def
        numeral_eq_Suc [of "num.Bit1 num.One"])
  show ?thesis
    unfolding BuildRequest_def using steps ts
    by (simp add: demo_pipeline_defs bindE_def Let_def)
qed


text \<open>The gates are not vacuous: this candidate passes all of them and its transaction is confirmed.\<close>

lemma demo_gates:
  "pre_broadcast kk demo_pipeline None (Some demo_opportunity) () =
     (Inr \<lparr>ppRequest = \<lparr>erAsset = replicate 20 3, erAmount = Some 10000, erSteps = [demo_step 10049, demo_step 10149],
          erDeadline = Some 220, erMinProfit = Some 5\<rparr>, ppCalldata = [1, 2, 3, 4],
        ppSimulation = \<lparr>srGasEstimate = 10, srFee = one_fee\<rparr>,
        ppPremium = 1, ppEconomics = \<lparr>GrossProfit = 200, ExpectedProfit = 199, RequiredOutput = 10006, Profitable = True\<rparr>\<rparr>, ())"
proof -
  let ?req = "\<lparr>erAsset = replicate 20 3, erAmount = Some 10000, erSteps = [demo_step 10049, demo_step 10149],
      erDeadline = Some 220, erMinProfit = Some 5\<rparr>"
  have st: "\<not> stale_candidate demo_pipeline (Some demo_opportunity) ()"
    by (simp add: stale_candidate_def demo_pipeline_defs candidateIsFresh_def candidateBlockLag_def)
  have c: "Check kk (pGate demo_pipeline) (pNow demo_pipeline ()) () = (Inr (), ())"
    using demo_gate_passes by (simp add: demo_pipeline_def)
  have v: "Calldata (pPack demo_pipeline) ?req = Inr [1, 2, 3, 4]"
    by (simp add: Calldata_def Request_Validate_def demo_pipeline_def Execution.demo_step_def zero_address_def)
  have s: "Simulate kk (sim_caller (pChain demo_pipeline)) (pFees demo_pipeline) (pWalletAddress demo_pipeline)
      (cFlashExecutorAddress (pConfig demo_pipeline)) [1, 2, 3, 4] None () = (Inr \<lparr>srGasEstimate = 10, srFee = one_fee\<rparr>, ())"
    by (simp add: Simulate_def sim_caller_def demo_pipeline_def Execution.demo_chain_def bindE_def wrap_err_def one_estimate)
  have a: "aavePremium_exec kk demo_pipeline 10000 () = (Inr 1, ())"
    by (simp add: aavePremium_exec_def demo_pipeline_def Execution.demo_chain_def bindE_def decode_at_least_def
        six_ones_decode one_words)
  have t: "token (pMarket demo_pipeline) (hd (rSymbols (oRoute demo_opportunity))) = Some (demo_token ''A'' ''0x1'')"
    by (simp add: demo_pipeline_defs)
  have fees: "feeToBaseRaw (fL2Cost one_fee) (fTotalUSD one_fee) (fTotalETH one_fee) 6 = 0"
    "feeToBaseRaw (fL1Cost one_fee) (fTotalUSD one_fee) (fTotalETH one_fee) 6 = 0"
    by (simp_all add: one_fee_def feeToBaseRaw_def big_quo_quotient_of floor_eq_iff)
  have e: "price_final demo_pipeline (demo_token ''A'' ''0x1'') demo_opportunity ?req \<lparr>srGasEstimate = 10, srFee = one_fee\<rparr> 1
      = \<lparr>GrossProfit = 200, ExpectedProfit = 199, RequiredOutput = 10006, Profitable = True\<rparr>"
    using fees by (simp add: price_final_def demo_token_def demo_opportunity_def demo_hop_def Pricing.Evaluate_def Let_def)
  have live: "\<not> broadcast_disabled (pConfig demo_pipeline)"
    by (simp add: broadcast_disabled_def demo_pipeline_def demo_config_def)
  show ?thesis
    unfolding pre_broadcast_def using st live
    by (simp add: c demo_request_built v s a t e notify_def Let_def)
qed

definition demo_verifier :: "unit Verifier" where
  "demo_verifier = \<lparr>vfEthCall = (\<lambda>_ _. ret ''0x01''), vfGetCode = (\<lambda>_. ret ''0x60''), vfPack = (\<lambda>_ _. Inr [1, 2, 3, 4]),
     vfUnpackAddress = (\<lambda>m _. Some (if m = ''AAVE_POOL'' then ''0xAA'' else if m = ''ROUTER'' then '''' else ''0xw'')),
     vfUnpackBool = (\<lambda>_ _. Some True), vfHexToAddress = (\<lambda>s. replicate 20 (of_nat (length s)))\<rparr>"

lemma demo_assets: "ExecutionAssets demo_market = [''A'', ''B'']"
  by code_simp

lemma demo_deployment: "VerifyDeployment demo_verifier demo_config demo_market ''0xw'' () = (Inr (), ())"
proof -
  have fold: "to_lower ''0xAA'' = to_lower ''0xaa''" by code_simp
  have tokens: "token demo_market ''A'' = Some (demo_token ''A'' ''0x1'')" "token demo_market ''B'' = Some (demo_token ''B'' ''0x2'')"
    and market: "mAavePool demo_market = ''0xaa''" "mUniswapSwapRouter demo_market = ''''" "mCamelotSwapRouter demo_market = ''''"
    by (simp_all add: demo_market_def)
  show ?thesis
    by (simp add: VerifyDeployment_def demo_verifier_def demo_config_def demo_assets tokens market expectAddress_def
        expectBool_def expect_code_def expect_token_def bindE_def wrap_err_def fold equal_fold_def)
qed

theorem VerifyDeployment_confirms_witness:
  "confirmed_address demo_verifier ''0xe'' ''AAVE_POOL'' ''0xaa''"
  using VerifyDeployment_confirms [OF demo_deployment] by (simp add: demo_config_def demo_market_def)

end
