(* ===== verification/RpcErrors.thy ===== *)
theory RpcErrors
  imports Dex
begin

text \<open>
  \<open>go/internal/rpc/client.go\<close>: the errors of the RPC client, how the answer of a provider becomes a result or
  an error (\<open>callProvider\<close> after the HTTP exchange), and which errors count against the provider. Go's
  error chains are a datatype: \<open>errors.Is\<close> and \<open>errors.As\<close> walk the wrapped error. The HTTP exchange and
  \<open>encoding/json\<close> are parameters: an exchange ends in one of the four ways of \<open>HttpReply\<close>, and decoding a body
  gives an envelope or the text of a syntax error.
\<close>

datatype ErrorKind = NetworkKind | TimeoutKind | RPCKind | HTTPKind

datatype GoErr =
    Canceled
  | DeadlineExceeded
  | Plain string
  | UrlError string GoErr
  | RpcError ErrorKind GoErr int int string

fun err_text :: "GoErr \<Rightarrow> string" where
  "err_text Canceled = ''context canceled''"
| "err_text DeadlineExceeded = ''context deadline exceeded''"
| "err_text (Plain s) = s"
| "err_text (UrlError prefix e) = prefix @ err_text e"
| "err_text (RpcError kind e status code message) = err_text e"

fun is_canceled :: "GoErr \<Rightarrow> bool" where
  "is_canceled Canceled = True"
| "is_canceled (UrlError prefix e) = is_canceled e"
| "is_canceled (RpcError kind e status code message) = is_canceled e"
| "is_canceled _ = False"

fun is_deadline :: "GoErr \<Rightarrow> bool" where
  "is_deadline DeadlineExceeded = True"
| "is_deadline (UrlError prefix e) = is_deadline e"
| "is_deadline (RpcError kind e status code message) = is_deadline e"
| "is_deadline _ = False"

text \<open>\<open>errors.As(err, &rpcErr)\<close>: kind, text, HTTP status, RPC code and RPC message of the first RPC error in the chain.\<close>

fun as_rpc :: "GoErr \<Rightarrow> (ErrorKind \<times> string \<times> int \<times> int \<times> string) option" where
  "as_rpc (RpcError kind e status code message) = Some (kind, err_text e, status, code, message)"
| "as_rpc (UrlError prefix e) = as_rpc e"
| "as_rpc _ = None"

fun as_url :: "GoErr \<Rightarrow> GoErr option" where
  "as_url (UrlError prefix e) = Some e"
| "as_url (RpcError kind e status code message) = as_url e"
| "as_url _ = None"

definition classify :: "GoErr \<Rightarrow> GoErr" where
  "classify err =
     (let e = (case as_url err of Some inner \<Rightarrow> inner | None \<Rightarrow> err)
      in if is_deadline e then RpcError TimeoutKind e 0 0 '''' else RpcError NetworkKind e 0 0 '''')"

section \<open>Messages\<close>

definition rpcRateLimited :: "int \<Rightarrow> string \<Rightarrow> bool" where
  "rpcRateLimited code message =
     (let m = to_lower message in
      code = 429 \<or> code = -32005 \<or> contains ''rate limit'' m \<or> contains ''too many requests'' m
      \<or> contains ''daily request limit'' m \<or> contains ''usage limit'' m)"

definition quotaLimitMessage :: "string \<Rightarrow> bool" where
  "quotaLimitMessage message =
     (let m = to_lower message in
      contains ''daily request limit'' m \<or> contains ''usage limit'' m \<or> contains ''quota exhausted'' m)"

definition planLimitMessage :: "string \<Rightarrow> bool" where
  "planLimitMessage message =
     (let m = to_lower message in
      if contains ''invalid params'' m \<or> contains ''malformed'' m \<or> contains ''parse error'' m then False
      else contains ''block range'' m \<or> contains ''too many blocks'' m \<or> contains ''range too large'' m
        \<or> contains ''query returned more than'' m \<or> contains ''response size'' m \<or> contains ''limit exceeded'' m)"

definition providerFailure :: "GoErr \<Rightarrow> bool" where
  "providerFailure err =
     (if is_canceled err then False
      else case as_rpc err of
        None \<Rightarrow> False
      | Some (kind, text, status, code, message) \<Rightarrow>
          if kind = RPCKind then False
          else if kind = HTTPKind \<and> status = 400 \<and> planLimitMessage message then True
          else if kind = HTTPKind \<and> \<not> contains '' 403'' text \<and> \<not> contains '' 429'' text \<and> \<not> contains '' 5'' text
          then False
          else True)"

definition failureReason :: "GoErr \<Rightarrow> string" where
  "failureReason err =
     (if is_canceled err then ''canceled''
      else case as_rpc err of
        Some (TimeoutKind, _) \<Rightarrow> ''timeout''
      | Some (NetworkKind, _) \<Rightarrow> ''transport''
      | Some (HTTPKind, text, _) \<Rightarrow> if contains '' 429'' text then ''rate_limit'' else ''provider''
      | _ \<Rightarrow> ''unknown'')"

section \<open>Answers\<close>

record Envelope =
  evResult :: string
  evError :: "(int \<times> string) option"

datatype HttpReply =
    BadRequest string
  | DoFailed GoErr
  | BodyFailed GoErr
  | Reply int string

type_synonym decoder = "string \<Rightarrow> string + Envelope"

definition envelopeCode :: "string + Envelope \<Rightarrow> int" where
  "envelopeCode d = (case d of Inr e \<Rightarrow> (case evError e of Some (code, _) \<Rightarrow> code | None \<Rightarrow> 0) | Inl _ \<Rightarrow> 0)"

definition envelopeMessage :: "string + Envelope \<Rightarrow> string \<Rightarrow> string" where
  "envelopeMessage d fallback =
     (case d of
        Inr e \<Rightarrow> (case evError e of
                    Some (_, message) \<Rightarrow> if trim_space message \<noteq> '''' then message else trim_space fallback
                  | None \<Rightarrow> trim_space fallback)
      | Inl _ \<Rightarrow> trim_space fallback)"

definition status_text :: "int \<Rightarrow> string" where
  "status_text status = ''rpc HTTP status '' @ show_int status"

definition http_error :: "decoder \<Rightarrow> string \<Rightarrow> int \<Rightarrow> string \<Rightarrow> GoErr" where
  "http_error decode text status data =
     RpcError HTTPKind (Plain text) status (envelopeCode (decode data)) (envelopeMessage (decode data) data)"

definition reply_result :: "decoder \<Rightarrow> (string \<Rightarrow> string + 'o) \<Rightarrow> HttpReply \<Rightarrow> GoErr + 'o" where
  "reply_result decode unmarshal reply =
     (case reply of
        BadRequest e \<Rightarrow> Inl (Plain e)
      | DoFailed e \<Rightarrow> Inl (classify e)
      | BodyFailed e \<Rightarrow> Inl (classify e)
      | Reply status data \<Rightarrow>
          if status = 429 \<and> quotaLimitMessage data
          then Inl (http_error decode ''rpc HTTP status 429: quota exhausted'' status data)
          else if status = 429 then Inl (http_error decode (status_text status) status data)
          else if status \<ge> 500 then Inl (http_error decode (status_text status) status data)
          else if big_quo status 100 \<noteq> 2 then Inl (http_error decode (status_text status) status data)
          else case decode data of
            Inl e \<Rightarrow> Inl (Plain e)
          | Inr envelope \<Rightarrow>
              (case evError envelope of
                 Some (code, message) \<Rightarrow>
                   if rpcRateLimited code message
                   then if quotaLimitMessage message
                        then Inl (RpcError HTTPKind (Plain ''rpc HTTP status 429: quota exhausted'') status code message)
                        else Inl (RpcError HTTPKind (Plain ''rpc HTTP status 429'') status code message)
                   else Inl (RpcError RPCKind (Plain message) status code message)
               | None \<Rightarrow> (case unmarshal (evResult envelope) of Inl e \<Rightarrow> Inl (Plain e) | Inr v \<Rightarrow> Inr v)))"

section \<open>Which answers count against the provider\<close>

lemma digit_eq_iff: "m < 10 \<Longrightarrow> n < 10 \<Longrightarrow> digit m = digit n \<longleftrightarrow> m = n"
  by (auto simp: digit_def dest: arg_cong [of _ _ "of_char :: char \<Rightarrow> nat"])

lemma digit_literals: "CHR ''0'' = digit 0" "CHR ''2'' = digit 2" "CHR ''3'' = digit 3" "CHR ''4'' = digit 4"
  "CHR ''5'' = digit 5" "CHR ''9'' = digit 9"
  by (simp_all add: digit_def char_of_def bit_0)

lemma show_nat_three:
  assumes "100 \<le> n" "n < 1000"
  shows "show_nat n = [digit (n div 100), digit (n div 10 mod 10), digit (n mod 10)]"
proof -
  have "\<not> n < 10" "\<not> n div 10 < 10" "n div 100 < 10" using assms by auto
  then show ?thesis
    by (simp add: show_nat.simps [of n] show_nat.simps [of "n div 10"] show_nat.simps [of "n div 100"]
        div_mult2_eq [symmetric])
qed

lemma status_text_contains:
  assumes "100 \<le> status" "status < 1000"
  shows "contains '' 403'' (status_text status) \<longleftrightarrow> status = 403"
    "contains '' 429'' (status_text status) \<longleftrightarrow> status = 429"
    "contains '' 5'' (status_text status) \<longleftrightarrow> status div 100 = 5"
proof -
  define n where "n = nat status"
  then have n: "status = int n" "100 \<le> n" "n < 1000" using assms by auto
  have d: "n div 100 < 10" "n div 10 mod 10 < 10" "n mod 10 < 10" using n(3) by auto
  have e: "n = 100 * (n div 100) + 10 * (n div 10 mod 10) + n mod 10"
  proof -
    have "10 * (n div 100) + n div 10 mod 10 = n div 10"
      using mult_div_mod_eq [of 10 "n div 10"] by (simp add: div_mult2_eq [symmetric])
    moreover have "10 * (n div 10) + n mod 10 = n" by (rule mult_div_mod_eq)
    ultimately show ?thesis by linarith
  qed
  have s: "status_text status = ''rpc HTTP status '' @ [digit (n div 100), digit (n div 10 mod 10), digit (n mod 10)]"
    using n by (simp add: status_text_def show_int_def show_nat_three)
  have c: "CHR '' '' \<noteq> digit (n div 100)" "CHR '' '' \<noteq> digit (n div 10 mod 10)" "CHR '' '' \<noteq> digit (n mod 10)"
    using d by (auto simp: digit_def dest: arg_cong [of _ _ "of_char :: char \<Rightarrow> nat"])
  have "contains '' 403'' (status_text status)
      \<longleftrightarrow> CHR ''4'' = digit (n div 100) \<and> CHR ''0'' = digit (n div 10 mod 10) \<and> CHR ''3'' = digit (n mod 10)"
    using c unfolding s by auto
  then show "contains '' 403'' (status_text status) \<longleftrightarrow> status = 403"
    using d e n(1) by (auto simp: digit_literals digit_eq_iff)
  have "contains '' 429'' (status_text status)
      \<longleftrightarrow> CHR ''4'' = digit (n div 100) \<and> CHR ''2'' = digit (n div 10 mod 10) \<and> CHR ''9'' = digit (n mod 10)"
    using c unfolding s by auto
  then show "contains '' 429'' (status_text status) \<longleftrightarrow> status = 429"
    using d e n(1) by (auto simp: digit_literals digit_eq_iff)
  have "contains '' 5'' (status_text status) \<longleftrightarrow> CHR ''5'' = digit (n div 100)"
    using c unfolding s by auto
  then show "contains '' 5'' (status_text status) \<longleftrightarrow> status div 100 = 5"
    using d n(1) by (auto simp: digit_literals digit_eq_iff zdiv_int [symmetric])
qed

text \<open>
  C30: an HTTP answer that is not a result counts against the provider (cool-down and another attempt) exactly
  when its status is 403, 429 or 5xx, or 400 with a message about a plan limit, or when a 2xx answer carries a
  rate-limit error. Every other JSON-RPC error, such as a reverted call, and every malformed body is handed to the
  caller as it is.
\<close>

theorem reply_failure_classified:
  assumes "100 \<le> status" "status < 1000" "reply_result decode unmarshal (Reply status data) = Inl err"
  shows "providerFailure err \<longleftrightarrow>
     status = 403 \<or> status = 429 \<or> status div 100 = 5
     \<or> status = 400 \<and> planLimitMessage (envelopeMessage (decode data) data)
     \<or> status div 100 = 2
       \<and> (\<exists>envelope code message. decode data = Inr envelope \<and> evError envelope = Some (code, message)
            \<and> rpcRateLimited code message)"
proof -
  have q: "big_quo status 100 = status div 100" using assms(1) by simp
  have h: "providerFailure (http_error decode (status_text status) status data)
      \<longleftrightarrow> status = 403 \<or> status = 429 \<or> status div 100 = 5
        \<or> status = 400 \<and> planLimitMessage (envelopeMessage (decode data) data)"
    by (simp add: providerFailure_def http_error_def status_text_contains [OF assms(1,2)])
  have g: "providerFailure (http_error decode ''rpc HTTP status 429: quota exhausted'' status data)"
    by (simp add: providerFailure_def http_error_def)
  consider (limited) "status = 429" | (other) "status \<noteq> 429" "status div 100 \<noteq> 2" | (good) "status div 100 = 2"
    by fastforce
  then show ?thesis
  proof cases
    case limited
    then show ?thesis using assms(3) h g by (auto simp: reply_result_def split: if_splits)
  next
    case other
    then have "err = http_error decode (status_text status) status data"
      using assms(3) q by (auto simp: reply_result_def split: if_splits)
    then show ?thesis using h other by auto
  next
    case good
    then have "status \<noteq> 429" "status < 500" "status \<noteq> 403" "status \<noteq> 400" by auto
    with good q assms(3) show ?thesis
    proof (cases "decode data")
      case (Inr envelope)
      show ?thesis
      proof (cases "evError envelope")
        case None
        then obtain e where "err = Plain e"
          using assms(3) good q Inr \<open>status \<noteq> 429\<close> \<open>status < 500\<close> by (auto simp: reply_result_def split: sum.splits)
        then show ?thesis using None Inr good \<open>status \<noteq> 429\<close> \<open>status \<noteq> 403\<close> \<open>status \<noteq> 400\<close> by (simp add: providerFailure_def)
      next
        case (Some x)
        obtain code message where x: "x = (code, message)" by force
        have "err = (if rpcRateLimited code message
            then if quotaLimitMessage message
                 then RpcError HTTPKind (Plain ''rpc HTTP status 429: quota exhausted'') status code message
                 else RpcError HTTPKind (Plain ''rpc HTTP status 429'') status code message
            else RpcError RPCKind (Plain message) status code message)"
          using assms(3) good q Inr Some x \<open>status \<noteq> 429\<close> \<open>status < 500\<close> by (simp add: reply_result_def split: if_splits)
        then have "providerFailure err \<longleftrightarrow> rpcRateLimited code message" by (simp add: providerFailure_def)
        then show ?thesis using Inr Some x good \<open>status \<noteq> 429\<close> \<open>status \<noteq> 403\<close> \<open>status \<noteq> 400\<close> by simp
      qed
    qed (auto simp: reply_result_def providerFailure_def)
  qed
qed

theorem reply_failure_classified_witness:
  "\<not> providerFailure (RpcError RPCKind (Plain ''execution reverted'') 200 3 ''execution reverted'')"
proof -
  let ?decode = "\<lambda>data. Inr \<lparr>evResult = '''', evError = Some (3, ''execution reverted'')\<rparr>"
  have "\<not> rpcRateLimited 3 ''execution reverted''" by code_simp
  then show ?thesis
    using reply_failure_classified [of 200 ?decode Inr "''{}''"] by (simp add: reply_result_def)
qed

end
