(* ===== verification/RpcLimits.thy ===== *)
theory RpcLimits
  imports Prelude
begin

text \<open>
  \<open>go/internal/rpc/client.go\<close>: the two admission controls of the RPC client, the token-spacing rate limiter
  of a provider and the sliding one-minute call budget. Both hold their mutex for the whole operation, so
  concurrent use is a sequence of the operations below. Instants and durations are nanoseconds; each critical
  section reads the clock once. The zero \<open>time.Time\<close> of a fresh limiter is \<open>None\<close>.
\<close>

definition Second :: int where
  "Second = 10 ^ 9"

definition Minute :: int where
  "Minute = 60 * Second"

definition positiveDuration :: "int \<Rightarrow> int" where
  "positiveDuration v = (if v < 0 then 0 else v)"

section \<open>Rate limiter\<close>

record rateLimiter =
  lInterval :: int
  lBurst :: int
  lNext :: "int option"

definition newRateLimiterWithBurst :: "int \<Rightarrow> int \<Rightarrow> rateLimiter" where
  "newRateLimiterWithBurst maxRPS burst =
     (if maxRPS \<le> 0 then \<lparr>lInterval = 0, lBurst = 0, lNext = None\<rparr>
      else let b = (if burst < 1 then 1 else if burst > 2 then 2 else burst)
           in \<lparr>lInterval = Second div maxRPS, lBurst = b, lNext = None\<rparr>)"

definition newRateLimiter :: "int \<Rightarrow> rateLimiter" where
  "newRateLimiter maxRPS = newRateLimiterWithBurst maxRPS 1"

definition ReserveDelay :: "int \<Rightarrow> rateLimiter \<Rightarrow> int \<times> rateLimiter" where
  "ReserveDelay now l =
     (if lInterval l \<le> 0 then (0, l)
      else let burstWindow = (lBurst l - 1) * lInterval l;
               next = (case lNext l of
                         None \<Rightarrow> now - burstWindow
                       | Some n \<Rightarrow> if now > n + burstWindow then now - burstWindow else n)
           in (positiveDuration (next - now), l\<lparr>lNext := Some (next + lInterval l)\<rparr>))"

definition Delay :: "int \<Rightarrow> rateLimiter \<Rightarrow> int" where
  "Delay now l =
     (if lInterval l \<le> 0 then 0
      else case lNext l of None \<Rightarrow> 0 | Some n \<Rightarrow> if n - now > 0 then n - now else 0)"

section \<open>Minute budget\<close>

record minuteBudget =
  bLimit :: int
  bCalls :: "int list"

definition newMinuteBudget :: "int \<Rightarrow> minuteBudget option" where
  "newMinuteBudget limit = (if limit \<le> 0 then None else Some \<lparr>bLimit = limit, bCalls = []\<rparr>)"

definition Allow :: "int \<Rightarrow> minuteBudget \<Rightarrow> bool \<times> minuteBudget" where
  "Allow now b =
     (let calls = dropWhile (\<lambda>t. t < now - Minute) (bCalls b)
      in if int (length calls) \<ge> bLimit b then (False, b\<lparr>bCalls := calls\<rparr>)
         else (True, b\<lparr>bCalls := calls @ [now]\<rparr>))"

definition pruneRequestTimes :: "int list \<Rightarrow> int \<Rightarrow> int list" where
  "pruneRequestTimes values cutoff = dropWhile (\<lambda>t. t < cutoff) values"

section \<open>The limiter spaces its grants\<close>

text \<open>The instants at which a sequence of callers may proceed.\<close>

fun grants :: "int list \<Rightarrow> rateLimiter \<Rightarrow> int list" where
  "grants [] l = []"
| "grants (now # nows) l = (let (wait, l') = ReserveDelay now l in (now + wait) # grants nows l')"

lemma length_grants [simp]: "length (grants nows l) = length nows"
  by (induction nows l rule: grants.induct) (auto split: prod.split)

text \<open>Every later grant lies at or above the next free slot, which moves one interval per reservation.\<close>

lemma ReserveDelay_slot:
  assumes "0 < lInterval l" "1 \<le> lBurst l"
  obtains n where "ReserveDelay now l = (positiveDuration (n - now), l\<lparr>lNext := Some (n + lInterval l)\<rparr>)"
    "now \<le> n + (lBurst l - 1) * lInterval l" "\<forall>m. lNext l = Some m \<longrightarrow> m \<le> n"
proof
  let ?w = "(lBurst l - 1) * lInterval l"
  let ?n = "case lNext l of None \<Rightarrow> now - ?w | Some n \<Rightarrow> if now > n + ?w then now - ?w else n"
  show "ReserveDelay now l = (positiveDuration (?n - now), l\<lparr>lNext := Some (?n + lInterval l)\<rparr>)"
    using assms by (simp add: ReserveDelay_def Let_def)
qed (auto split: option.split)

lemma grants_above_slot:
  assumes "0 < lInterval l" "1 \<le> lBurst l" "lNext l = Some m" "j < length nows"
  shows "m + int j * lInterval l \<le> grants nows l ! j"
  using assms
proof (induction nows arbitrary: l m j)
  case (Cons now nows)
  obtain n where r: "ReserveDelay now l = (positiveDuration (n - now), l\<lparr>lNext := Some (n + lInterval l)\<rparr>)"
    and m: "m \<le> n" using ReserveDelay_slot [OF Cons.prems(1,2), of now] Cons.prems(3) by metis
  show ?case
  proof (cases j)
    case 0
    then show ?thesis using m by (simp add: r positiveDuration_def)
  next
    case (Suc k)
    have "n + lInterval l + int k * lInterval l \<le> grants nows (l\<lparr>lNext := Some (n + lInterval l)\<rparr>) ! k"
      using Cons.IH [of "l\<lparr>lNext := Some (n + lInterval l)\<rparr>" "n + lInterval l" k] Cons.prems Suc by simp
    with m Suc show ?thesis by (simp add: r algebra_simps)
  qed
qed simp

lemma grants_spaced:
  assumes "0 < lInterval l" "1 \<le> lBurst l" "i \<le> j" "j < length nows"
  shows "grants nows l ! i + (int (j - i) - (lBurst l - 1)) * lInterval l \<le> grants nows l ! j"
  using assms
proof (induction nows arbitrary: l i j)
  case (Cons now nows)
  obtain n where r: "ReserveDelay now l = (positiveDuration (n - now), l\<lparr>lNext := Some (n + lInterval l)\<rparr>)"
    and n: "now \<le> n + (lBurst l - 1) * lInterval l" using ReserveDelay_slot [OF Cons.prems(1,2), of now] by metis
  let ?l = "l\<lparr>lNext := Some (n + lInterval l)\<rparr>"
  consider (zero) "j = 0" "i = 0" | (first) k where "j = Suc k" "i = 0" | (later) k h where "j = Suc k" "i = Suc h"
    using Cons.prems(3) by (metis le_zero_eq not0_implies_Suc)
  then show ?case
  proof cases
    case zero
    have "0 \<le> (lBurst l - 1) * lInterval l" using Cons.prems(1,2) by simp
    then show ?thesis using zero by (simp add: algebra_simps)
  next
    case first
    have w: "0 \<le> (lBurst l - 1) * lInterval l" using Cons.prems(1,2) by simp
    have "n + lInterval l + int k * lInterval l \<le> grants nows ?l ! k"
      using grants_above_slot [of ?l "n + lInterval l" k nows] Cons.prems first by simp
    moreover have "now + positiveDuration (n - now) \<le> n + (lBurst l - 1) * lInterval l"
      using n w by (simp add: positiveDuration_def)
    ultimately show ?thesis using first by (simp add: r algebra_simps)
  next
    case later
    then show ?thesis using Cons.IH [of ?l h k] Cons.prems by (simp add: r)
  qed
qed simp

lemma grants_not_early: "i < length nows \<Longrightarrow> nows ! i \<le> grants nows l ! i"
proof (induction nows l arbitrary: i rule: grants.induct)
  case (2 now nows l)
  obtain wait l' where r: "ReserveDelay now l = (wait, l')" by force
  have "0 \<le> wait" using r by (auto simp: ReserveDelay_def positiveDuration_def Let_def split: if_splits)
  then show ?case using 2(1) [OF refl r [symmetric]] 2(2) r [symmetric] r by (cases i) auto
qed simp

lemma ReserveDelay_fresh:
  assumes "0 < lInterval l" "1 \<le> lBurst l" "lNext l = None"
  shows "fst (ReserveDelay now l) = 0"
proof -
  have "0 \<le> (lBurst l - 1) * lInterval l" using assms(1,2) by simp
  then show ?thesis using assms by (auto simp: ReserveDelay_def positiveDuration_def Let_def zero_less_mult_iff)
qed

lemma new_limiter:
  "0 < rps \<Longrightarrow> lInterval (newRateLimiterWithBurst rps burst) = Second div rps
    \<and> lBurst (newRateLimiterWithBurst rps burst) = max 1 (min 2 burst)"
  by (simp add: newRateLimiterWithBurst_def Let_def)

text \<open>
  C23: the limiter of a provider with \<open>rps\<close> requests per second keeps any two grants apart: whatever the
  arrival instants (even with a clock that jumps back), the \<open>k\<close>-th grant after another one is at least
  \<open>k - (burst - 1)\<close> intervals of \<open>1s / rps\<close> later, with the burst clamped to one or two. No caller is let
  through before it arrives, and the first one never waits.
\<close>

theorem rate_limiter_spacing:
  assumes "0 < rps" "rps \<le> Second" "i \<le> j" "j < length nows"
  shows "let g = grants nows (newRateLimiterWithBurst rps burst)
    in g ! i + (int (j - i) - (max 1 (min 2 burst) - 1)) * (Second div rps) \<le> g ! j
      \<and> nows ! i \<le> g ! i \<and> g ! 0 = nows ! 0"
  unfolding Let_def
proof (intro conjI)
  let ?g = "grants nows (newRateLimiterWithBurst rps burst)"
  have pos: "0 < Second div rps" using assms(1,2) by (simp add: pos_imp_zdiv_pos_iff)
  show "?g ! i + (int (j - i) - (max 1 (min 2 burst) - 1)) * (Second div rps) \<le> ?g ! j"
    using grants_spaced [of "newRateLimiterWithBurst rps burst" i j nows] assms pos by (simp add: new_limiter)
  show "nows ! i \<le> ?g ! i" using assms by (simp add: grants_not_early)
  obtain now rest where nows: "nows = now # rest" using assms(4) by (cases nows) auto
  have "fst (ReserveDelay now (newRateLimiterWithBurst rps burst)) = 0"
    using pos assms(1) by (intro ReserveDelay_fresh) (simp_all add: new_limiter, simp add: newRateLimiterWithBurst_def Let_def)
  then show "?g ! 0 = nows ! 0" by (simp add: nows split_beta Let_def)
qed

theorem rate_limiter_spacing_witness: "grants [5, 5, 5, 5] (newRateLimiterWithBurst 8 2) ! 1 + 1 * (Second div 8)
    \<le> grants [5, 5, 5, 5] (newRateLimiterWithBurst 8 2) ! 3"
  using rate_limiter_spacing [of 8 1 3 "[5, 5, 5, 5]" 2] by (simp add: Second_def Let_def del: grants.simps)

section \<open>The budget is a sliding window\<close>

text \<open>
  The specification remembers every admitted call and admits another one while fewer than \<open>limit\<close> of them
  are at most a minute old.
\<close>

definition window_allow :: "int \<Rightarrow> int \<Rightarrow> int list \<Rightarrow> bool \<times> int list" where
  "window_allow limit now history =
     (if int (length (filter (\<lambda>t. now - Minute \<le> t) history)) < limit then (True, history @ [now])
      else (False, history))"

fun allow_run :: "int list \<Rightarrow> minuteBudget \<Rightarrow> bool list" where
  "allow_run [] b = []"
| "allow_run (now # nows) b = (let (ok, b') = Allow now b in ok # allow_run nows b')"

fun window_run :: "int \<Rightarrow> int list \<Rightarrow> int list \<Rightarrow> bool list" where
  "window_run limit [] history = []"
| "window_run limit (now # nows) history =
     (let (ok, history') = window_allow limit now history in ok # window_run limit nows history')"

text \<open>The refinement relation: the stored calls are the history without a prefix of expired calls.\<close>

definition budget_rel :: "int \<Rightarrow> int \<Rightarrow> minuteBudget \<Rightarrow> int list \<Rightarrow> bool" where
  "budget_rel limit lo b history \<longleftrightarrow>
     bLimit b = limit \<and> sorted history \<and> (\<forall>t\<in>set history. t \<le> lo)
     \<and> (\<exists>expired. history = expired @ bCalls b \<and> (\<forall>t\<in>set expired. t < lo - Minute))"

lemma dropWhile_sorted_filter: "sorted xs \<Longrightarrow> dropWhile (\<lambda>t. t < c) xs = filter (\<lambda>t. c \<le> t) xs" for c :: int
  by (induction xs) (auto simp: not_less [symmetric] intro!: filter_True [symmetric])

lemma budget_rel_calls:
  assumes "budget_rel limit lo b history" "lo \<le> now"
  shows "dropWhile (\<lambda>t. t < now - Minute) (bCalls b) = filter (\<lambda>t. now - Minute \<le> t) history"
proof -
  from assms obtain expired where h: "history = expired @ bCalls b" and e: "\<forall>t\<in>set expired. t < lo - Minute"
    and s: "sorted history" unfolding budget_rel_def by blast
  have "filter (\<lambda>t. now - Minute \<le> t) expired = []" using e assms(2) by (auto simp: filter_empty_conv)
  with h s show ?thesis by (simp add: dropWhile_sorted_filter sorted_append)
qed

lemma sorted_filter_split: "sorted xs \<Longrightarrow> xs = filter (\<lambda>t. t < c) xs @ filter (\<lambda>t. c \<le> t) xs" for c :: int
proof (induction xs)
  case (Cons a xs)
  show ?case
  proof (cases "a < c")
    case False
    then have "filter (\<lambda>t. t < c) xs = []" using Cons.prems by (force simp: filter_empty_conv)
    then show ?thesis using Cons False by simp
  qed (use Cons in simp)
qed simp

lemma Allow_simulates:
  assumes rel: "budget_rel limit lo b history" and now: "lo \<le> now"
    and a: "Allow now b = (ok, b')"
  shows "\<exists>history'. window_allow limit now history = (ok, history') \<and> budget_rel limit now b' history'"
proof -
  let ?recent = "filter (\<lambda>t. now - Minute \<le> t) history"
  let ?history = "if ok then history @ [now] else history"
  have lim: "bLimit b = limit" and s: "sorted history" and le: "\<forall>t\<in>set history. t \<le> now"
    using rel now unfolding budget_rel_def by (blast, blast, fastforce)
  have b': "b' = b\<lparr>bCalls := ?recent @ (if ok then [now] else [])\<rparr>" and ok: "ok \<longleftrightarrow> int (length ?recent) < limit"
    using a lim by (auto simp: Allow_def budget_rel_calls [OF rel now] Let_def split: if_splits)
  have "window_allow limit now history = (ok, ?history)" using ok by (simp add: window_allow_def)
  moreover have "budget_rel limit now b' ?history"
    unfolding budget_rel_def
    using b' lim s le sorted_filter_split [OF s, of "now - Minute"]
    by (auto simp: sorted_append intro!: exI [of _ "filter (\<lambda>t. t < now - Minute) history"])
  ultimately show ?thesis by blast
qed

lemma allow_run_simulates:
  "budget_rel limit lo b history \<Longrightarrow> sorted (lo # nows) \<Longrightarrow> allow_run nows b = window_run limit nows history"
proof (induction nows arbitrary: lo b history)
  case (Cons now nows)
  obtain ok b' where a: "Allow now b = (ok, b')" by force
  obtain history' where "window_allow limit now history = (ok, history')" "budget_rel limit now b' history'"
    using Allow_simulates [OF Cons.prems(1) _ a] Cons.prems(2) by auto
  with a show ?case using Cons.IH [of now b' history'] Cons.prems(2) by simp
qed simp

text \<open>What the specification promises: no window of one minute ever holds more than \<open>limit\<close> admitted calls.\<close>

fun admitted :: "int list \<Rightarrow> bool list \<Rightarrow> int list" where
  "admitted (now # nows) (ok # oks) = (if ok then now # admitted nows oks else admitted nows oks)"
| "admitted _ _ = []"

definition windows_bounded :: "int \<Rightarrow> int list \<Rightarrow> bool" where
  "windows_bounded limit history \<longleftrightarrow>
     (\<forall>t. int (length (filter (\<lambda>x. t - Minute \<le> x \<and> x \<le> t) history)) \<le> limit)"

lemma windows_bounded_snoc:
  assumes "windows_bounded limit history" "\<forall>x\<in>set history. x \<le> now"
    "int (length (filter (\<lambda>x. now - Minute \<le> x) history)) < limit"
  shows "windows_bounded limit (history @ [now])"
  unfolding windows_bounded_def
proof
  fix t
  show "int (length (filter (\<lambda>x. t - Minute \<le> x \<and> x \<le> t) (history @ [now]))) \<le> limit"
  proof (cases "now \<le> t")
    case True
    have "length (filter (\<lambda>x. t - Minute \<le> x \<and> x \<le> t) history) \<le> length (filter (\<lambda>x. now - Minute \<le> x) history)"
      using True by (intro length_filter_le_mono) auto
    then show ?thesis using assms(3) by auto
  next
    case False
    then show ?thesis using assms(1) by (simp add: windows_bounded_def)
  qed
qed

lemma window_run_bounded:
  assumes "windows_bounded limit history" "\<forall>x\<in>set history. x \<le> lo" "sorted (lo # nows)"
  shows "windows_bounded limit (history @ admitted nows (window_run limit nows history))"
  using assms
proof (induction nows arbitrary: lo history)
  case (Cons now nows)
  have le: "\<forall>x\<in>set history. x \<le> now" using Cons.prems by fastforce
  show ?case
  proof (cases "int (length (filter (\<lambda>t. now - Minute \<le> t) history)) < limit")
    case True
    then show ?thesis
      using Cons.IH [of "history @ [now]" now] windows_bounded_snoc [OF Cons.prems(1) le True] le Cons.prems(3)
      by (simp add: window_allow_def)
  next
    case False
    then show ?thesis using Cons.IH [OF Cons.prems(1) le] Cons.prems(3) by (simp add: window_allow_def)
  qed
qed simp

text \<open>
  C13: the minute budget, which forgets expired calls, decides exactly like a log of all admitted calls: on
  every non-decreasing sequence of instants both give the same answers, and the calls it admits never exceed
  the limit in any window of one minute, wherever the window starts.
\<close>

theorem minute_budget_refines_window:
  assumes "newMinuteBudget limit = Some b" "sorted nows"
  shows "allow_run nows b = window_run limit nows []
    \<and> windows_bounded limit (admitted nows (allow_run nows b))"
proof (cases nows)
  case Nil
  then show ?thesis using assms(1) by (auto simp: windows_bounded_def newMinuteBudget_def split: if_splits)
next
  case (Cons now rest)
  have b: "b = \<lparr>bLimit = limit, bCalls = []\<rparr>" and pos: "0 < limit"
    using assms(1) by (auto simp: newMinuteBudget_def split: if_splits)
  have s: "sorted (now # nows)" using assms(2) Cons by simp
  have "allow_run nows b = window_run limit nows []"
    by (rule allow_run_simulates [OF _ s]) (simp add: budget_rel_def b)
  moreover have "windows_bounded limit ([] @ admitted nows (window_run limit nows []))"
    by (rule window_run_bounded [OF _ _ s]) (use pos in \<open>auto simp: windows_bounded_def\<close>)
  ultimately show ?thesis by simp
qed

theorem minute_budget_refines_window_witness:
  "allow_run [0, 1, 2, Minute + 1] \<lparr>bLimit = 2, bCalls = []\<rparr> = [True, True, False, True]"
  using minute_budget_refines_window [of 2 "\<lparr>bLimit = 2, bCalls = []\<rparr>" "[0, 1, 2, Minute + 1]"]
  by (simp add: newMinuteBudget_def Minute_def Second_def window_allow_def)

end
