(* ===== verification/RpcClient.thy ===== *)
theory RpcClient
  imports RpcErrors RpcLimits
begin

text \<open>
  \<open>go/internal/rpc/client.go\<close>: the managed JSON-RPC client. A request passes the minute budgets and the
  shared read limiter, is assigned to a provider by health, tier, lag and load, is sent, and on a provider
  failure cools that provider down and is tried again; a raw transaction is sent once only. The state is the
  client together with the world. Clock readings, waiting under the request's context, the HTTP exchange,
  \<open>encoding/json\<close>, the observers and the floating-point latency average are the parameters of \<open>RpcEnv\<close>. Timing
  observers and metrics counters are left out. Durations and counters are unbounded integers: they stay far below
  \<open>2^63\<close> (a counter would need \<open>9 * 10^9\<close> requests to overflow in the score).
\<close>

section \<open>Request context\<close>

datatype RequestClass = Standard | Background | HotPath | Critical

record RequestMetadata =
  mdStage :: string
  mdBlock :: u64
  mdFields :: "string \<rightharpoonup> string"

record RequestContext =
  xClass :: "RequestClass option"
  xMetadata :: "RequestMetadata option"

definition class_name :: "RequestClass \<Rightarrow> string" where
  "class_name class = (case class of Standard \<Rightarrow> ''standard'' | Background \<Rightarrow> ''background''
     | HotPath \<Rightarrow> ''hot_path'' | Critical \<Rightarrow> ''critical'')"

definition WithRequestClass :: "RequestContext \<Rightarrow> RequestClass \<Rightarrow> RequestContext" where
  "WithRequestClass ctx class = ctx\<lparr>xClass := Some class\<rparr>"

definition requestClass :: "RequestContext \<Rightarrow> RequestClass" where
  "requestClass ctx = (case xClass ctx of Some v \<Rightarrow> v | None \<Rightarrow> Standard)"

definition WithRequestMetadata :: "RequestContext \<Rightarrow> string \<Rightarrow> u64 \<Rightarrow> RequestContext" where
  "WithRequestMetadata ctx stage block =
     ctx\<lparr>xMetadata := Some \<lparr>mdStage = trim_space stage, mdBlock = block, mdFields = Map.empty\<rparr>\<rparr>"

definition requestMetadata :: "RequestContext \<Rightarrow> RequestClass \<Rightarrow> RequestMetadata" where
  "requestMetadata ctx class =
     (case xMetadata ctx of
        Some v \<Rightarrow> if mdStage v \<noteq> '''' then v else \<lparr>mdStage = class_name class, mdBlock = 0, mdFields = Map.empty\<rparr>
      | None \<Rightarrow> \<lparr>mdStage = class_name class, mdBlock = 0, mdFields = Map.empty\<rparr>)"

definition add_field :: "string \<times> string \<Rightarrow> (string \<rightharpoonup> string) \<Rightarrow> (string \<rightharpoonup> string)" where
  "add_field kv entries =
     (let key = trim_space (fst kv) in if key = '''' then entries else entries(key \<mapsto> trim_space (snd kv)))"

text \<open>Go ranges over the map of new fields in some order; the order is the order of the list.\<close>

definition WithRequestMetadataFields :: "RequestContext \<Rightarrow> (string \<times> string) list \<Rightarrow> RequestContext" where
  "WithRequestMetadataFields ctx entries =
     (let metadata = requestMetadata ctx (requestClass ctx)
      in ctx\<lparr>xMetadata := Some (metadata\<lparr>mdFields := fold add_field entries (mdFields metadata)\<rparr>)\<rparr>)"

section \<open>Providers\<close>

record ProviderConfig =
  pcName :: string
  pcHTTP :: string
  pcMaxRPS :: int
  pcTargetRPS :: int
  pcBurst :: int
  pcMaxBlockLag :: int
  pcTier :: string

record providerState =
  pvCfg :: ProviderConfig
  pvLimiter :: rateLimiter
  pvRequests :: nat
  pvRateLimited :: nat
  pvFailures :: nat
  pvConsecutiveFailure :: nat
  pvLatencyEMA :: int
  pvLastSuccessful :: "int option"
  pvLastFailure :: "int option"
  pvCooldownUntil :: "int option"
  pvLatestBlock :: u64
  pvLatestBlockAt :: "int option"
  pvRequestTimes :: "int list"
  pvRateLimitStreak :: nat
  pvRecent429Until :: "int option"
  pvProbationUntil :: "int option"
  pvInflight :: int
  pvEthCallRequests :: nat
  pvQuoteRequests :: nat
  pvSuccesses :: nat
  pvForbidden :: nat
  pvCooldownEvents :: nat
  pvLatencySamples :: "int list"
  pvStageRequests :: "string \<Rightarrow> nat"

record Client =
  clProviders :: "providerState list"
  clRetries :: int
  clReadLimiter :: "rateLimiter option"
  clPremiumLimiter :: "rateLimiter option"
  clEthBudget :: "minuteBudget option"
  clHotBudget :: "minuteBudget option"
  clActive :: nat
  clLastSwitch :: "int option"

text \<open>\<open>now.Before(t)\<close>, \<open>now.After(t)\<close> and \<open>time.Until(t)\<close> for an instant that may be the zero time.\<close>

definition before :: "int \<Rightarrow> int option \<Rightarrow> bool" where
  "before now t = (case t of None \<Rightarrow> False | Some u \<Rightarrow> now < u)"

definition after :: "int \<Rightarrow> int option \<Rightarrow> bool" where
  "after now t = (case t of None \<Rightarrow> True | Some u \<Rightarrow> u < now)"

definition longer_of :: "int \<Rightarrow> int option \<Rightarrow> int \<Rightarrow> int" where
  "longer_of delay t now = (case t of None \<Rightarrow> delay | Some u \<Rightarrow> if u - now > delay then u - now else delay)"

definition normalizeTier :: "string \<Rightarrow> string" where
  "normalizeTier tier =
     (let t = to_lower (trim_space tier) in
      if t = ''cheap'' then ''secondary''
      else if t \<noteq> ''premium'' \<and> t \<noteq> ''secondary'' \<and> t \<noteq> ''limited'' \<and> t \<noteq> ''emergency'' then ''secondary''
      else t)"

definition rank_of :: "string \<Rightarrow> int" where
  "rank_of tier = (if tier = ''premium'' then 0 else if tier = ''secondary'' then 1 else if tier = ''limited'' then 2 else 3)"

definition tierRank :: "RequestClass \<Rightarrow> string \<Rightarrow> int" where
  "tierRank class tier =
     (case class of Background \<Rightarrow> rank_of tier | HotPath \<Rightarrow> rank_of tier | Critical \<Rightarrow> rank_of tier | _ \<Rightarrow> rank_of tier)"

definition effectiveRPS :: "ProviderConfig \<Rightarrow> int" where
  "effectiveRPS cfg = (if pcTargetRPS cfg > 0 then pcTargetRPS cfg else pcMaxRPS cfg)"

definition effectiveBurst :: "ProviderConfig \<Rightarrow> int" where
  "effectiveBurst cfg = (if pcBurst cfg < 1 then 1 else if pcBurst cfg > 2 then 2 else pcBurst cfg)"

definition new_provider :: "ProviderConfig \<Rightarrow> providerState" where
  "new_provider cfg = \<lparr>pvCfg = cfg, pvLimiter = newRateLimiterWithBurst (effectiveRPS cfg) (effectiveBurst cfg),
     pvRequests = 0, pvRateLimited = 0, pvFailures = 0, pvConsecutiveFailure = 0, pvLatencyEMA = 0, pvLastSuccessful = None,
     pvLastFailure = None, pvCooldownUntil = None, pvLatestBlock = 0, pvLatestBlockAt = None, pvRequestTimes = [],
     pvRateLimitStreak = 0, pvRecent429Until = None, pvProbationUntil = None, pvInflight = 0, pvEthCallRequests = 0,
     pvQuoteRequests = 0, pvSuccesses = 0, pvForbidden = 0, pvCooldownEvents = 0, pvLatencySamples = [],
     pvStageRequests = (\<lambda>_. 0)\<rparr>"

definition prepare_config :: "ProviderConfig \<Rightarrow> ProviderConfig option" where
  "prepare_config cfg =
     (let name = trim_space (pcName cfg); url = trim_space (pcHTTP cfg)
      in if url = '''' then None
         else Some (cfg\<lparr>pcName := if name = '''' then ''provider'' else name, pcHTTP := url,
                        pcTier := normalizeTier (pcTier cfg)\<rparr>))"

definition newManaged :: "ProviderConfig list \<Rightarrow> int \<Rightarrow> Client" where
  "newManaged configs retries =
     \<lparr>clProviders = map new_provider (List.map_filter prepare_config configs), clRetries = retries,
      clReadLimiter = None, clPremiumLimiter = None, clEthBudget = None, clHotBudget = None, clActive = 0,
      clLastSwitch = None\<rparr>"

definition NewManagedWithBudgets :: "ProviderConfig list \<Rightarrow> int \<Rightarrow> int \<Rightarrow> int \<Rightarrow> int \<Rightarrow> int \<Rightarrow> Client" where
  "NewManagedWithBudgets configs readTargetRPS premiumRPS maxEthCallsPerMinute maxHotCallsPerMinute retries =
     (newManaged configs retries)\<lparr>clReadLimiter := Some (newRateLimiter readTargetRPS),
        clPremiumLimiter := Some (newRateLimiterWithBurst premiumRPS 1),
        clEthBudget := newMinuteBudget maxEthCallsPerMinute, clHotBudget := newMinuteBudget maxHotCallsPerMinute\<rparr>"

definition NewManagedWithReadBudget :: "ProviderConfig list \<Rightarrow> int \<Rightarrow> int \<Rightarrow> Client" where
  "NewManagedWithReadBudget configs readTargetRPS retries = NewManagedWithBudgets configs readTargetRPS 0 0 0 retries"

definition New :: "string \<Rightarrow> int \<Rightarrow> Client" where
  "New endpoint retries =
     newManaged [\<lparr>pcName = ''primary'', pcHTTP = endpoint, pcMaxRPS = 0, pcTargetRPS = 0, pcBurst = 0,
                  pcMaxBlockLag = 0, pcTier = ''''\<rparr>] retries"

definition update_provider :: "nat \<Rightarrow> (providerState \<Rightarrow> providerState) \<Rightarrow> Client \<Rightarrow> Client" where
  "update_provider i f c = c\<lparr>clProviders := (clProviders c)[i := f (clProviders c ! i)]\<rparr>"

section \<open>Choosing a provider\<close>

text \<open>\<open>chooseProvider\<close> walks from the active provider to the first one that is not cooling down.\<close>

fun first_ready :: "int \<Rightarrow> Client \<Rightarrow> nat list \<Rightarrow> nat option" where
  "first_ready now c [] = None"
| "first_ready now c (offset # offsets) =
     (let index = (clActive c + offset) mod length (clProviders c)
      in if before now (pvCooldownUntil (clProviders c ! index)) then first_ready now c offsets else Some index)"

definition chooseProvider :: "int \<Rightarrow> Client \<Rightarrow> nat option \<times> Client" where
  "chooseProvider now c =
     (if clProviders c = [] then (None, c)
      else let home = clActive c \<noteq> 0 \<and> length (clProviders c) > 1
                 \<and> (case clLastSwitch c of None \<Rightarrow> True | Some t \<Rightarrow> now - t > 2 * Minute)
                 \<and> after now (pvCooldownUntil (clProviders c ! 0));
               c1 = (if home then c\<lparr>clActive := 0\<rparr> else c)
           in case first_ready now c1 [0 ..< length (clProviders c)] of
                Some index \<Rightarrow> (Some index, c1\<lparr>clActive := index\<rparr>)
              | None \<Rightarrow> (Some (clActive c1), c1))"

definition bestKnownBlockLocked :: "Client \<Rightarrow> u64" where
  "bestKnownBlockLocked c =
     foldl (\<lambda>best p. if pvLatestBlock p > best then pvLatestBlock p else best) 0 (clProviders c)"

definition providerLagged :: "providerState \<Rightarrow> u64 \<Rightarrow> int \<Rightarrow> bool" where
  "providerLagged p best now =
     (if best = 0 \<or> pvLatestBlock p = 0 \<or> pcMaxBlockLag (pvCfg p) \<le> 0 then False
      else if (case pvLatestBlockAt p of None \<Rightarrow> True | Some t \<Rightarrow> now - t > 30 * Second) then False
      else if pvLatestBlock p \<ge> best then False
      else best - pvLatestBlock p > of_int (pcMaxBlockLag (pvCfg p)))"

text \<open>The tests shared by the tier preference and the selection loop: cooling, probation in the first pass, lag.\<close>

definition selectable :: "int \<Rightarrow> u64 \<Rightarrow> nat \<Rightarrow> providerState \<Rightarrow> bool" where
  "selectable now best pass p \<longleftrightarrow>
     \<not> before now (pvCooldownUntil p) \<and> \<not> (pass = 0 \<and> before now (pvProbationUntil p)) \<and> \<not> providerLagged p best now"

definition readTierSpillDelay :: int where
  "readTierSpillDelay = 150 * 10 ^ 6"

text \<open>Loop state of \<open>preferredReadTierLocked\<close>: best ready rank, best delayed rank and its delay.\<close>

definition prefer_step :: "int \<times> int \<Rightarrow> int \<times> int \<times> int \<Rightarrow> int \<times> int \<times> int" where
  "prefer_step candidate st =
     (case (candidate, st) of ((rank, delay), (ready, delayed, delayedBy)) \<Rightarrow>
        if delay \<le> readTierSpillDelay then (if rank < ready then rank else ready, delayed, delayedBy)
        else if delayed = 99 \<or> delay < delayedBy \<or> (delay = delayedBy \<and> rank < delayed) then (ready, rank, delay)
        else st)"

definition tier_candidates :: "RequestClass \<Rightarrow> int \<Rightarrow> u64 \<Rightarrow> nat \<Rightarrow> Client \<Rightarrow> (int \<times> int) list" where
  "tier_candidates class now best pass c =
     map (\<lambda>p. (tierRank class (pcTier (pvCfg p)), Delay now (pvLimiter p)))
       (filter (\<lambda>p. selectable now best pass p \<and> tierRank class (pcTier (pvCfg p)) < 99) (clProviders c))"

definition preferredReadTierLocked :: "RequestClass \<Rightarrow> int \<Rightarrow> u64 \<Rightarrow> nat \<Rightarrow> Client \<Rightarrow> int" where
  "preferredReadTierLocked class now best pass c =
     (let candidates = tier_candidates class now best pass c
      in if candidates = [] then 99
         else case fold prefer_step candidates (99, 99, 0) of
                (ready, delayed, _) \<Rightarrow> if ready \<noteq> 99 then ready else delayed)"

text \<open>Loop state of the two selection loops: best index, its score, best tier.\<close>

record Pick =
  pkIndex :: "nat option"
  pkScore :: int
  pkTier :: int

definition read_score :: "bool \<Rightarrow> int \<Rightarrow> int \<Rightarrow> providerState \<Rightarrow> int" where
  "read_score flexible rank now p =
     Delay now (pvLimiter p)
     + (if flexible then rank * (75 * 10 ^ 6) else 0)
     + (if before now (pvRecent429Until p) then 250 * 10 ^ 6 else 0)
     + (if pvLatencyEMA p > 0 then pvLatencyEMA p div 20 else 0)
     + pvInflight p * (25 * 10 ^ 6)
     + int (pvConsecutiveFailure p) * (100 * 10 ^ 6)
     + (if effectiveRPS (pvCfg p) > 0 then int (pvRequests p) * Second div effectiveRPS (pvCfg p) else 0)"

text \<open>Critical requests keep the best tier seen so far: \<open>None\<close> skips the provider.\<close>

definition enter_tier :: "bool \<Rightarrow> int \<Rightarrow> Pick \<Rightarrow> Pick option" where
  "enter_tier flexible rank pick =
     (if flexible then Some pick
      else if rank > pkTier pick then None
      else if rank < pkTier pick then Some (pick\<lparr>pkTier := rank, pkIndex := None\<rparr>)
      else Some pick)"

definition pick_step :: "RequestClass \<Rightarrow> int \<Rightarrow> u64 \<Rightarrow> nat \<Rightarrow> int \<Rightarrow> nat \<times> providerState \<Rightarrow> Pick \<Rightarrow> Pick" where
  "pick_step class now best pass preferredTier ip pick =
     (let (index, p) = ip; flexible = (class \<noteq> Critical); rank = tierRank class (pcTier (pvCfg p))
      in if rank \<ge> 99 \<or> (flexible \<and> rank \<noteq> preferredTier) \<or> \<not> selectable now best pass p then pick
         else case enter_tier flexible rank pick of
                None \<Rightarrow> pick
              | Some pick1 \<Rightarrow>
                  let score = read_score flexible rank now p
                  in if pkIndex pick1 = None \<or> score < pkScore pick1
                        \<or> (score = pkScore pick1 \<and> index < the (pkIndex pick1))
                     then pick1\<lparr>pkIndex := Some index, pkScore := score\<rparr> else pick1)"

definition pick_pass :: "RequestClass \<Rightarrow> int \<Rightarrow> u64 \<Rightarrow> nat \<Rightarrow> Client \<Rightarrow> Pick \<Rightarrow> Pick" where
  "pick_pass class now best pass c pick =
     (if pkIndex pick \<noteq> None then pick
      else let preferredTier = (if class \<noteq> Critical then preferredReadTierLocked class now best pass c else 99)
           in fold (pick_step class now best pass preferredTier) (enumerate 0 (clProviders c)) pick)"

definition fallback_step :: "RequestClass \<Rightarrow> int \<Rightarrow> nat \<times> providerState \<Rightarrow> Pick \<Rightarrow> Pick" where
  "fallback_step class now ip pick =
     (let (index, p) = ip; flexible = (class \<noteq> Critical); rank = tierRank class (pcTier (pvCfg p))
      in if rank \<ge> 99 then pick
         else case enter_tier flexible rank pick of
                None \<Rightarrow> pick
              | Some pick1 \<Rightarrow>
                  let delay = longer_of (Delay now (pvLimiter p)) (pvCooldownUntil p) now;
                      score = delay + (if flexible then rank * (75 * 10 ^ 6) else 0)
                  in if pkIndex pick1 = None \<or> score < pkScore pick1
                     then pick1\<lparr>pkIndex := Some index, pkScore := score\<rparr> else pick1)"

definition chooseReadProvider :: "RequestClass \<Rightarrow> int \<Rightarrow> Client \<Rightarrow> (nat \<times> int) option \<times> Client" where
  "chooseReadProvider class now c =
     (if clProviders c = [] then (None, c)
      else let best = bestKnownBlockLocked c;
               pick0 = \<lparr>pkIndex = None, pkScore = 0, pkTier = 99\<rparr>;
               pick2 = pick_pass class now best 1 c (pick_pass class now best 0 c pick0);
               pick = (if pkIndex pick2 = None
                       then fold (fallback_step class now) (enumerate 0 (clProviders c)) (pick2\<lparr>pkTier := 99\<rparr>)
                       else pick2);
               chosen = (case pkIndex pick of
                           Some i \<Rightarrow> Some i
                         | None \<Rightarrow> if length (clProviders c) = 1 then Some 0 else None)
           in case chosen of
                None \<Rightarrow> (None, c)
              | Some i \<Rightarrow>
                  let p = clProviders c ! i;
                      (delay, l) = ReserveDelay now (pvLimiter p);
                      c1 = update_provider i (\<lambda>q. q\<lparr>pvLimiter := l\<rparr>) (c\<lparr>clActive := i\<rparr>)
                  in (Some (i, longer_of delay (pvCooldownUntil p) now), c1))"

section \<open>Accounting\<close>

definition recordRequest :: "int \<Rightarrow> string \<Rightarrow> RequestClass \<Rightarrow> string \<Rightarrow> providerState \<Rightarrow> providerState" where
  "recordRequest now method class stage p =
     p\<lparr>pvRequests := pvRequests p + 1,
       pvStageRequests := (pvStageRequests p)(stage := pvStageRequests p stage + 1),
       pvEthCallRequests := (if method = ''eth_call'' then pvEthCallRequests p + 1 else pvEthCallRequests p),
       pvQuoteRequests := (if method = ''eth_call'' \<and> class = HotPath then pvQuoteRequests p + 1 else pvQuoteRequests p),
       pvRequestTimes := pruneRequestTimes (pvRequestTimes p @ [now]) (now - Second)\<rparr>"

text \<open>The last argument is the result when it is a string.\<close>

definition recordSuccess :: "int \<Rightarrow> string \<Rightarrow> string option \<Rightarrow> providerState \<Rightarrow> providerState" where
  "recordSuccess now method out p =
     (let p1 = p\<lparr>pvConsecutiveFailure := 0, pvSuccesses := pvSuccesses p + 1, pvLastSuccessful := Some now,
                 pvRateLimitStreak := 0\<rparr>
      in if method \<noteq> ''eth_blockNumber'' then p1
         else case out of
                None \<Rightarrow> p1
              | Some raw \<Rightarrow>
                  (case parse_hex_uint (trim_prefix ''0x'' raw) of
                     None \<Rightarrow> p1
                   | Some block \<Rightarrow> p1\<lparr>pvLatestBlock := block, pvLatestBlockAt := Some now\<rparr>))"

definition exponentialRateLimitCooldown :: "nat \<Rightarrow> int" where
  "exponentialRateLimitCooldown streak =
     (let s = (if streak < 1 then 1 else streak); shift = (if s - 1 > 3 then 3 else s - 1)
      in 30 * Second * 2 ^ shift)"

definition failure_cooldown :: "GoErr \<Rightarrow> nat \<Rightarrow> int" where
  "failure_cooldown err streak =
     (if failureReason err = ''rate_limit''
      then if quotaLimitMessage (err_text err) then 6 * 60 * Minute else exponentialRateLimitCooldown streak
      else 15 * Second)"

definition recordFailure :: "int \<Rightarrow> GoErr \<Rightarrow> providerState \<Rightarrow> int \<times> providerState" where
  "recordFailure now err p =
     (let limited = (failureReason err = ''rate_limit'');
          failed = pvConsecutiveFailure p + 1;
          streak = (if limited then pvRateLimitStreak p + 1 else pvRateLimitStreak p);
          cooldown = failure_cooldown err streak;
          p1 = p\<lparr>pvFailures := pvFailures p + 1,
                 pvForbidden := (if contains '' 403'' (err_text err) then pvForbidden p + 1 else pvForbidden p),
                 pvCooldownEvents := pvCooldownEvents p + 1, pvConsecutiveFailure := failed, pvLastFailure := Some now,
                 pvRateLimited := (if limited then pvRateLimited p + 1 else pvRateLimited p),
                 pvRateLimitStreak := streak,
                 pvRecent429Until := (if limited then Some (now + cooldown + 2 * Minute) else pvRecent429Until p),
                 pvProbationUntil := Some (now + cooldown + Minute)\<rparr>;
          until = (if failed \<ge> 3 \<and> now + cooldown < now + 60 * Second then now + 60 * Second else now + cooldown)
      in (positiveDuration (until - now), p1\<lparr>pvCooldownUntil := Some until\<rparr>))"

definition updateLatency :: "(int \<Rightarrow> int \<Rightarrow> int) \<Rightarrow> int \<Rightarrow> providerState \<Rightarrow> providerState" where
  "updateLatency blend latency p =
     (let samples = pvLatencySamples p @ [latency]
      in p\<lparr>pvLatencyEMA := (if pvLatencyEMA p = 0 then latency else blend (pvLatencyEMA p) latency),
           pvLatencySamples := (if length samples > 256 then drop (length samples - 256) samples else samples)\<rparr>)"

definition durationP95 :: "int list \<Rightarrow> int" where
  "durationP95 samples =
     (if samples = [] then 0
      else let ordered = sort_slice (<) samples;
               index = (int (length ordered) * 95 + 99) div 100 - 1;
               index1 = (if index < 0 then 0 else index);
               index2 = (if index1 \<ge> int (length ordered) then int (length ordered) - 1 else index1)
           in ordered ! nat index2)"

record Event =
  evName :: string
  evFrom :: string
  evTo :: string
  evTransport :: string
  evReason :: string

record FailureEvent =
  feProvider :: string
  feTier :: string
  feMethod :: string
  feStage :: string
  feFields :: "string \<rightharpoonup> string"
  feHTTPStatus :: int
  feRPCCode :: int
  feRPCMessage :: string
  feRetryable :: bool
  feRateLimited :: bool
  feTimeout :: bool
  feCooldown :: int
  feLatency :: int
  feBlock :: u64

definition failure_event :: "providerState \<Rightarrow> string \<Rightarrow> RequestMetadata \<Rightarrow> GoErr \<Rightarrow> int \<Rightarrow> int \<Rightarrow> FailureEvent" where
  "failure_event p method metadata err latency cooldown =
     (let (status, code, message, timedOut) =
            (case as_rpc err of
               Some (kind, text, status, code, message) \<Rightarrow> (status, code, message, kind = TimeoutKind)
             | None \<Rightarrow> (0, 0, '''', False))
      in \<lparr>feProvider = pcName (pvCfg p), feTier = pcTier (pvCfg p), feMethod = method, feStage = mdStage metadata,
          feFields = mdFields metadata, feHTTPStatus = status, feRPCCode = code,
          feRPCMessage = (if trim_space message = '''' then err_text err else message),
          feRetryable = providerFailure err, feRateLimited = (failureReason err = ''rate_limit''),
          feTimeout = (is_deadline err \<or> timedOut), feCooldown = cooldown, feLatency = latency, feBlock = mdBlock metadata\<rparr>)"

text \<open>\<open>failover\<close> moves the active provider to the next one that is not cooling down.\<close>

fun next_ready :: "int \<Rightarrow> Client \<Rightarrow> nat \<Rightarrow> nat list \<Rightarrow> nat option" where
  "next_ready now c origin [] = None"
| "next_ready now c origin (offset # offsets) =
     (let candidate = (origin + offset) mod length (clProviders c)
      in if before now (pvCooldownUntil (clProviders c ! candidate)) then next_ready now c origin offsets
         else Some candidate)"

definition failover :: "int \<Rightarrow> nat \<Rightarrow> string \<Rightarrow> Client \<Rightarrow> Event option \<times> Client" where
  "failover now origin reason c =
     (if length (clProviders c) < 2 then (None, c)
      else case next_ready now c origin [1 ..< length (clProviders c)] of
             None \<Rightarrow> (None, c)
           | Some target \<Rightarrow>
               if target = origin then (None, c)
               else (Some \<lparr>evName = ''rpc_failover'', evFrom = pcName (pvCfg (clProviders c ! origin)),
                           evTo = pcName (pvCfg (clProviders c ! target)), evTransport = ''http'', evReason = reason\<rparr>,
                     c\<lparr>clActive := target, clLastSwitch := Some now\<rparr>))"

section \<open>Requests\<close>

text \<open>JSON-RPC parameters; an object is its list of members.\<close>

datatype Param = PString string | PBool bool | PObject "(string \<times> string) list"

record 'w RpcEnv =
  rxNow :: "'w \<Rightarrow> int"
  rxWait :: "int \<Rightarrow> 'w \<Rightarrow> GoErr option \<times> 'w"
  rxCtxErr :: "'w \<Rightarrow> GoErr option"
  rxHttp :: "string \<Rightarrow> string \<Rightarrow> 'w \<Rightarrow> HttpReply \<times> 'w"
  rxMarshal :: "string \<Rightarrow> Param list \<Rightarrow> string"
  rxDecode :: decoder
  rxJsonString :: "string \<Rightarrow> string + string"
  rxBlend :: "int \<Rightarrow> int \<Rightarrow> int"
  rxObserve :: "Event \<Rightarrow> 'w \<Rightarrow> 'w"
  rxObserveFailure :: "FailureEvent \<Rightarrow> 'w \<Rightarrow> 'w"

text \<open>The destination of a result: how it is decoded, and its text when it is a string.\<close>

record 'o Out =
  outDecode :: "string \<Rightarrow> string + 'o"
  outString :: "'o \<Rightarrow> string option"

type_synonym ('w, 'a) rpc = "Client \<times> 'w \<Rightarrow> (GoErr + 'a) \<times> Client \<times> 'w"

definition retR :: "'a \<Rightarrow> ('w, 'a) rpc" where
  "retR a s = (Inr a, s)"

definition failR :: "GoErr \<Rightarrow> ('w, 'a) rpc" where
  "failR e s = (Inl e, s)"

definition bindR :: "('w, 'a) rpc \<Rightarrow> ('a \<Rightarrow> ('w, 'b) rpc) \<Rightarrow> ('w, 'b) rpc" where
  "bindR m f s = (case m s of (Inl e, s') \<Rightarrow> (Inl e, s') | (Inr a, s') \<Rightarrow> f a s')"

definition waitDelay :: "'w RpcEnv \<Rightarrow> int \<Rightarrow> ('w, unit) rpc" where
  "waitDelay env wait s =
     (if wait \<le> 0 then (Inr (), s)
      else case rxWait env wait (snd s) of (Some e, w) \<Rightarrow> (Inl e, fst s, w) | (None, w) \<Rightarrow> (Inr (), fst s, w))"

definition take_budget :: "string \<Rightarrow> bool \<Rightarrow> (Client \<Rightarrow> minuteBudget option) \<Rightarrow> (minuteBudget \<Rightarrow> Client \<Rightarrow> Client)
    \<Rightarrow> 'w RpcEnv \<Rightarrow> ('w, unit) rpc" where
  "take_budget message applies get put env s =
     (case (applies, get (fst s)) of
        (True, Some b) \<Rightarrow>
          let (ok, b') = Allow (rxNow env (snd s)) b; s' = (put b' (fst s), snd s)
          in if ok then (Inr (), s') else (Inl (RpcError NetworkKind (Plain message) 0 0 ''''), s')
      | _ \<Rightarrow> (Inr (), s))"

definition wait_limiter :: "bool \<Rightarrow> (Client \<Rightarrow> rateLimiter option) \<Rightarrow> (rateLimiter \<Rightarrow> Client \<Rightarrow> Client)
    \<Rightarrow> 'w RpcEnv \<Rightarrow> ('w, unit) rpc" where
  "wait_limiter applies get put env s =
     (case (applies, get (fst s)) of
        (True, Some l) \<Rightarrow>
          let (wait, l') = ReserveDelay (rxNow env (snd s)) l in waitDelay env wait (put l' (fst s), snd s)
      | _ \<Rightarrow> (Inr (), s))"

definition choose_read :: "'w RpcEnv \<Rightarrow> RequestClass \<Rightarrow> ('w, nat \<times> int) rpc" where
  "choose_read env class s =
     (case chooseReadProvider class (rxNow env (snd s)) (fst s) of
        (Some r, c) \<Rightarrow> (Inr r, c, snd s)
      | (None, c) \<Rightarrow> (Inl (RpcError NetworkKind (Plain ''no eligible RPC provider configured'') 0 0 ''''), c, snd s))"

definition callProvider :: "'w RpcEnv \<Rightarrow> 'o Out \<Rightarrow> nat \<Rightarrow> string \<Rightarrow> ('w, 'o) rpc" where
  "callProvider env out i body s =
     (let (c, w) = s;
          c1 = update_provider i (\<lambda>p. p\<lparr>pvInflight := pvInflight p + 1\<rparr>) c;
          started = rxNow env w;
          (reply, w1) = rxHttp env (pcHTTP (pvCfg (clProviders c ! i))) body w;
          r = reply_result (rxDecode env) (outDecode out) reply;
          c2 = (case r of Inr _ \<Rightarrow> update_provider i (updateLatency (rxBlend env) (rxNow env w1 - started)) c1 | Inl _ \<Rightarrow> c1)
      in (r, update_provider i (\<lambda>p. p\<lparr>pvInflight := pvInflight p - 1\<rparr>) c2, w1))"

text \<open>One exchange with a chosen provider. \<open>Inr (Inl e)\<close>: the provider failed with \<open>e\<close> and another attempt may follow.\<close>

definition exchange :: "'w RpcEnv \<Rightarrow> RequestClass \<Rightarrow> RequestMetadata \<Rightarrow> 'o Out \<Rightarrow> string \<Rightarrow> string \<Rightarrow> nat \<Rightarrow> ('w, GoErr + 'o) rpc" where
  "exchange env class metadata out method body i s =
     (let (c, w) = s;
          c1 = update_provider i (recordRequest (rxNow env w) method class (mdStage metadata)) c;
          started = rxNow env w
      in case callProvider env out i body (c1, w) of
           (Inr v, c2, w2) \<Rightarrow> (Inr (Inr v), update_provider i (recordSuccess (rxNow env w2) method (outString out v)) c2, w2)
         | (Inl err, c2, w2) \<Rightarrow>
             let latency = rxNow env w2 - started;
                 report = (\<lambda>cooldown w. rxObserveFailure env
                             (failure_event (clProviders c2 ! i) method metadata err latency cooldown) w)
             in if rxCtxErr env w2 \<noteq> None \<or> \<not> providerFailure err then (Inl err, c2, report 0 w2)
                else let (cooldown, p) = recordFailure (rxNow env w2) err (clProviders c2 ! i);
                         c3 = c2\<lparr>clProviders := (clProviders c2)[i := p]\<rparr>
                     in (Inr (Inl err), c3, report cooldown w2))"

definition run_failover :: "'w RpcEnv \<Rightarrow> nat \<Rightarrow> string \<Rightarrow> ('w, unit) rpc" where
  "run_failover env i reason s =
     (case failover (rxNow env (snd s)) i reason (fst s) of
        (Some event, c) \<Rightarrow> (Inr (), c, rxObserve env event (snd s))
      | (None, c) \<Rightarrow> (Inr (), c, snd s))"

definition call_attempt :: "'w RpcEnv \<Rightarrow> RequestContext \<Rightarrow> 'o Out \<Rightarrow> string \<Rightarrow> string \<Rightarrow> ('w, GoErr + 'o) rpc" where
  "call_attempt env ctx out method body =
     (let class = requestClass ctx in
      bindR (take_budget ''RPC hot-path minute budget exhausted'' (method = ''eth_call'' \<and> class = HotPath)
               clHotBudget (\<lambda>b c. c\<lparr>clHotBudget := Some b\<rparr>) env) (\<lambda>_.
      bindR (take_budget ''RPC eth_call minute budget exhausted'' (method = ''eth_call'' \<and> class \<noteq> Critical)
               clEthBudget (\<lambda>b c. c\<lparr>clEthBudget := Some b\<rparr>) env) (\<lambda>_.
      bindR (wait_limiter (class \<noteq> Critical) clReadLimiter (\<lambda>l c. c\<lparr>clReadLimiter := Some l\<rparr>) env) (\<lambda>_.
      bindR (choose_read env class) (\<lambda>(i, delay) s.
      bindR (wait_limiter (pcTier (pvCfg (clProviders (fst s) ! i)) = ''premium'' \<and> class \<noteq> Critical)
               clPremiumLimiter (\<lambda>l c. c\<lparr>clPremiumLimiter := Some l\<rparr>) env) (\<lambda>_.
      bindR (waitDelay env delay) (\<lambda>_.
      bindR (exchange env class (requestMetadata ctx class) out method body i) (\<lambda>r.
      case r of
        Inr v \<Rightarrow> retR (Inr v)
      | Inl err \<Rightarrow> bindR (run_failover env i (failureReason err)) (\<lambda>_. retR (Inl err))))) s)))))"

text \<open>\<open>k\<close> attempts are left, the next one has number \<open>attempt\<close>. Only a negative retry count makes no attempt at all:
  the loop then returns a nil error and leaves the destination untouched (\<open>Inr None\<close>).\<close>

fun call_loop :: "'w RpcEnv \<Rightarrow> RequestContext \<Rightarrow> 'o Out \<Rightarrow> string \<Rightarrow> string \<Rightarrow> nat \<Rightarrow> nat \<Rightarrow> GoErr option \<Rightarrow> ('w, 'o option) rpc" where
  "call_loop env ctx out method body 0 attempt failed =
     (case failed of None \<Rightarrow> retR None | Some err \<Rightarrow> failR err)"
| "call_loop env ctx out method body (Suc k) attempt failed =
     bindR (call_attempt env ctx out method body) (\<lambda>r.
     case r of
       Inr v \<Rightarrow> retR (Some v)
     | Inl err \<Rightarrow>
         bindR (if k = 0 then retR () else waitDelay env (int (attempt + 1) * (100 * 10 ^ 6))) (\<lambda>_.
         call_loop env ctx out method body k (attempt + 1) (Some err)))"

definition callOnceNoFailover :: "'w RpcEnv \<Rightarrow> RequestContext \<Rightarrow> 'o Out \<Rightarrow> string \<Rightarrow> string \<Rightarrow> ('w, 'o option) rpc" where
  "callOnceNoFailover env ctx out method body s =
     (case chooseProvider (rxNow env (snd s)) (fst s) of
        (None, c) \<Rightarrow> (Inl (RpcError NetworkKind (Plain ''no RPC provider configured'') 0 0 ''''), c, snd s)
      | (Some i, c) \<Rightarrow>
          bindR (wait_limiter True (\<lambda>c. Some (pvLimiter (clProviders c ! i)))
                   (\<lambda>l. update_provider i (\<lambda>p. p\<lparr>pvLimiter := l\<rparr>)) env) (\<lambda>_.
          bindR (exchange env Critical (requestMetadata ctx Critical) out method body i) (\<lambda>r.
          case r of Inr v \<Rightarrow> retR (Some v) | Inl err \<Rightarrow> failR err)) (c, snd s))"

definition Call :: "'w RpcEnv \<Rightarrow> RequestContext \<Rightarrow> 'o Out \<Rightarrow> string \<Rightarrow> Param list \<Rightarrow> ('w, 'o option) rpc" where
  "Call env ctx out method params s =
     (let body = rxMarshal env method params
      in if method = ''eth_sendRawTransaction'' then callOnceNoFailover env ctx out method body s
         else call_loop env ctx out method body (nat (clRetries (fst s) + 1)) 0 None s)"

section \<open>Typed calls\<close>

text \<open>Most calls decode a JSON string; a destination that was never written is the empty string. The text of
  \<open>strconv\<close> errors is abbreviated.\<close>

definition call_string :: "'w RpcEnv \<Rightarrow> RequestContext \<Rightarrow> string \<Rightarrow> Param list \<Rightarrow> ('w, string) rpc" where
  "call_string env ctx method params =
     bindR (Call env ctx \<lparr>outDecode = rxJsonString env, outString = Some\<rparr> method params)
       (\<lambda>r. retR (case r of Some raw \<Rightarrow> raw | None \<Rightarrow> ''''))"

definition hexInt :: "string \<Rightarrow> GoErr + int" where
  "hexInt raw =
     (case parse_hex (trim_prefix ''0x'' raw) of
        Some v \<Rightarrow> if - (2 ^ 63) \<le> v \<and> v < 2 ^ 63 then Inr v else Inl (Plain ''strconv.ParseInt: value out of range'')
      | None \<Rightarrow> Inl (Plain ''strconv.ParseInt: invalid syntax''))"

definition hexBig :: "string \<Rightarrow> GoErr + int" where
  "hexBig raw =
     (case parse_hex (trim_prefix ''0x'' raw) of Some v \<Rightarrow> Inr v | None \<Rightarrow> Inl (Plain ''invalid hex quantity''))"

definition hexUint :: "string \<Rightarrow> GoErr + u64" where
  "hexUint raw =
     (case parse_hex_uint (trim_prefix ''0x'' raw) of Some v \<Rightarrow> Inr v | None \<Rightarrow> Inl (Plain ''strconv.ParseUint: invalid value''))"

definition liftR :: "GoErr + 'a \<Rightarrow> ('w, 'a) rpc" where
  "liftR r = (case r of Inl e \<Rightarrow> failR e | Inr v \<Rightarrow> retR v)"

definition ChainID :: "'w RpcEnv \<Rightarrow> RequestContext \<Rightarrow> ('w, int) rpc" where
  "ChainID env ctx = bindR (call_string env ctx ''eth_chainId'' []) (\<lambda>raw. liftR (hexInt raw))"

definition BlockNumber :: "'w RpcEnv \<Rightarrow> RequestContext \<Rightarrow> ('w, u64) rpc" where
  "BlockNumber env ctx = bindR (call_string env ctx ''eth_blockNumber'' []) (\<lambda>raw. liftR (hexUint raw))"

definition GetBlockByNumber :: "'w RpcEnv \<Rightarrow> RequestContext \<Rightarrow> 'b Out \<Rightarrow> string \<Rightarrow> ('w, 'b option) rpc" where
  "GetBlockByNumber env ctx out number = Call env ctx out ''eth_getBlockByNumber'' [PString number, PBool False]"

definition EthCallAt :: "'w RpcEnv \<Rightarrow> RequestContext \<Rightarrow> (string \<times> string) list \<Rightarrow> string \<Rightarrow> ('w, string) rpc" where
  "EthCallAt env ctx call block =
     call_string env ctx ''eth_call'' [PObject call, PString (if block = '''' then ''latest'' else block)]"

definition EthCall :: "'w RpcEnv \<Rightarrow> RequestContext \<Rightarrow> (string \<times> string) list \<Rightarrow> ('w, string) rpc" where
  "EthCall env ctx call = EthCallAt env ctx call ''latest''"

text \<open>The members of a \<open>CallMessage\<close> are all marked \<open>omitempty\<close>.\<close>

definition EstimateGas :: "'w RpcEnv \<Rightarrow> RequestContext \<Rightarrow> (string \<times> string) list \<Rightarrow> ('w, u64) rpc" where
  "EstimateGas env ctx call =
     bindR (call_string env ctx ''eth_estimateGas'' [PObject (filter (\<lambda>(_, v). v \<noteq> '''') call)]) (\<lambda>raw. liftR (hexUint raw))"

definition GasPrice :: "'w RpcEnv \<Rightarrow> RequestContext \<Rightarrow> ('w, int) rpc" where
  "GasPrice env ctx = bindR (call_string env ctx ''eth_gasPrice'' []) (\<lambda>raw. liftR (hexBig raw))"

definition MaxPriorityFeePerGas :: "'w RpcEnv \<Rightarrow> RequestContext \<Rightarrow> ('w, int) rpc" where
  "MaxPriorityFeePerGas env ctx = bindR (call_string env ctx ''eth_maxPriorityFeePerGas'' []) (\<lambda>raw. liftR (hexBig raw))"

definition TransactionCount :: "'w RpcEnv \<Rightarrow> RequestContext \<Rightarrow> string \<Rightarrow> string \<Rightarrow> ('w, u64) rpc" where
  "TransactionCount env ctx address block =
     bindR (call_string env ctx ''eth_getTransactionCount''
              [PString address, PString (if block = '''' then ''pending'' else block)]) (\<lambda>raw. liftR (hexUint raw))"

definition SendRawTransaction :: "'w RpcEnv \<Rightarrow> RequestContext \<Rightarrow> string \<Rightarrow> ('w, string) rpc" where
  "SendRawTransaction env ctx rawTx = call_string env ctx ''eth_sendRawTransaction'' [PString rawTx]"

definition TransactionReceipt :: "'w RpcEnv \<Rightarrow> RequestContext \<Rightarrow> 'r option Out \<Rightarrow> string \<Rightarrow> ('w, 'r option) rpc" where
  "TransactionReceipt env ctx out hash =
     bindR (Call env ctx out ''eth_getTransactionReceipt'' [PString hash])
       (\<lambda>r. retR (case r of Some receipt \<Rightarrow> receipt | None \<Rightarrow> None))"

definition GetCode :: "'w RpcEnv \<Rightarrow> RequestContext \<Rightarrow> string \<Rightarrow> ('w, string) rpc" where
  "GetCode env ctx address = call_string env ctx ''eth_getCode'' [PString address, PString ''latest'']"

definition Healthy :: "'w RpcEnv \<Rightarrow> RequestContext \<Rightarrow> ('w, u64) rpc" where
  "Healthy env ctx = BlockNumber env ctx"

section \<open>How often a request is sent\<close>

text \<open>The same environment over a world that also counts the HTTP exchanges.\<close>

definition counting :: "'w RpcEnv \<Rightarrow> ('w \<times> nat) RpcEnv" where
  "counting env =
     \<lparr>rxNow = (\<lambda>(w, n). rxNow env w),
      rxWait = (\<lambda>d (w, n). let (r, w') = rxWait env d w in (r, w', n)),
      rxCtxErr = (\<lambda>(w, n). rxCtxErr env w),
      rxHttp = (\<lambda>url body (w, n). let (r, w') = rxHttp env url body w in (r, w', n + 1)),
      rxMarshal = rxMarshal env, rxDecode = rxDecode env, rxJsonString = rxJsonString env, rxBlend = rxBlend env,
      rxObserve = (\<lambda>e (w, n). (rxObserve env e w, n)),
      rxObserveFailure = (\<lambda>e (w, n). (rxObserveFailure env e w, n))\<rparr>"

text \<open>A computation that performs at most \<open>k\<close> exchanges.\<close>

definition exchanges :: "nat \<Rightarrow> ('w \<times> nat, 'a) rpc \<Rightarrow> bool" where
  "exchanges k m \<longleftrightarrow> (\<forall>c w n r c' w' n'. m (c, w, n) = (r, c', w', n') \<longrightarrow> n' \<le> n + k)"

lemma exchangesI: "(\<And>c w n r c' w' n'. m (c, w, n) = (r, c', w', n') \<Longrightarrow> n' \<le> n + k) \<Longrightarrow> exchanges k m"
  by (auto simp: exchanges_def)

lemma exchangesD: "exchanges k m \<Longrightarrow> m (c, w, n) = (r, c', w', n') \<Longrightarrow> n' \<le> n + k"
  by (auto simp: exchanges_def)

named_theorems exchange_intros \<open>bounds on the number of HTTP exchanges\<close>

lemma exchanges_retR [exchange_intros]: "exchanges k (retR a)" and exchanges_failR [exchange_intros]: "exchanges k (failR e)"
  by (auto simp: exchanges_def retR_def failR_def)

lemma exchanges_bindR:
  assumes "exchanges k m" "\<And>a. exchanges j (f a)"
  shows "exchanges (k + j) (bindR m f)"
proof (rule exchangesI)
  fix c w n r c' w' n'
  assume b: "bindR m f (c, w, n) = (r, c', w', n')"
  obtain q d v l where m: "m (c, w, n) = (q, d, v, l)" by (metis prod.exhaust)
  have l: "l \<le> n + k" using exchangesD [OF assms(1) m] .
  show "n' \<le> n + (k + j)"
  proof (cases q)
    case (Inl e)
    then show ?thesis using b m l by (simp add: bindR_def)
  next
    case (Inr a)
    then have "f a (d, v, l) = (r, c', w', n')" using b m by (simp add: bindR_def)
    then show ?thesis using exchangesD [OF assms(2)] l by fastforce
  qed
qed

lemmas exchanges_bindR0 = exchanges_bindR [where k = 0, simplified]

lemma exchanges_bindR1: "exchanges (Suc 0) m \<Longrightarrow> (\<And>a. exchanges k (f a)) \<Longrightarrow> exchanges (Suc k) (bindR m f)"
  using exchanges_bindR [of "Suc 0" m k f] by simp

lemmas exchanges_bindR_last = exchanges_bindR1 [where k = 0]

lemma exchanges_waitDelay [exchange_intros]: "exchanges k (waitDelay (counting env) d)"
  by (rule exchangesI) (auto simp: waitDelay_def counting_def split: if_splits prod.splits option.splits)

lemma exchanges_take_budget [exchange_intros]: "exchanges k (take_budget msg applies get put (counting env))"
  by (rule exchangesI) (auto simp: take_budget_def Let_def split: prod.splits bool.splits option.splits if_splits)

lemma exchanges_wait_limiter [exchange_intros]: "exchanges k (wait_limiter applies get put (counting env))"
proof (rule exchangesI)
  fix c w n r c' w' n'
  assume "wait_limiter applies get put (counting env) (c, w, n) = (r, c', w', n')"
  then show "n' \<le> n + k"
    using exchangesD [OF exchanges_waitDelay]
    by (auto simp: wait_limiter_def Let_def split: prod.splits bool.splits option.splits)
qed

lemma exchanges_choose_read [exchange_intros]: "exchanges k (choose_read (counting env) class)"
  by (rule exchangesI) (auto simp: choose_read_def split: prod.splits option.splits)

lemma exchanges_run_failover [exchange_intros]: "exchanges k (run_failover (counting env) i reason)"
  by (rule exchangesI) (auto simp: run_failover_def counting_def split: prod.splits option.splits)

lemma exchanges_callProvider: "exchanges (Suc 0) (callProvider (counting env) out i body)"
  by (rule exchangesI) (auto simp: callProvider_def counting_def Let_def split: prod.splits)

lemma exchanges_exchange: "exchanges (Suc 0) (exchange (counting env) class metadata out method body i)"
proof (rule exchangesI)
  fix c w n r c' w' n'
  assume e: "exchange (counting env) class metadata out method body i (c, w, n) = (r, c', w', n')"
  let ?c = "update_provider i (recordRequest (rxNow (counting env) (w, n)) method class (mdStage metadata)) c"
  obtain q d v l where m: "callProvider (counting env) out i body (?c, w, n) = (q, d, v, l)" by (metis prod.exhaust)
  have "l \<le> n + Suc 0" using exchangesD [OF exchanges_callProvider m] .
  moreover have "n' = l"
    using e m by (auto simp: exchange_def Let_def counting_def split: sum.splits if_splits prod.splits)
  ultimately show "n' \<le> n + Suc 0" by simp
qed

lemma exchanges_call_attempt: "exchanges (Suc 0) (call_attempt (counting env) ctx out method body)"
proof -
  have finish: "exchanges (Suc 0) (bindR (exchange (counting env) cls metadata out method body i)
      (\<lambda>r. case r of Inr v \<Rightarrow> retR (Inr v) | Inl err \<Rightarrow> bindR (run_failover (counting env) i (failureReason err)) (\<lambda>_. retR (Inl err))))"
    for cls metadata i
    by (rule exchanges_bindR_last) (auto intro!: exchanges_exchange exchange_intros exchanges_bindR0 split: sum.split)
  have chosen: "exchanges (Suc 0) (\<lambda>s. bindR (wait_limiter (P s) get put (counting env)) (\<lambda>_.
      bindR (waitDelay (counting env) delay) (\<lambda>_. m)) s)"
    if m: "exchanges (Suc 0) m" for P :: "Client \<times> 'a \<times> nat \<Rightarrow> bool" and get put delay m
  proof (rule exchangesI)
    fix c w n r c' w' n'
    assume "bindR (wait_limiter (P (c, w, n)) get put (counting env)) (\<lambda>_. bindR (waitDelay (counting env) delay) (\<lambda>_. m))
        (c, w, n) = (r, c', w', n')"
    from exchangesD [OF exchanges_bindR0 [OF exchanges_wait_limiter exchanges_bindR0 [OF exchanges_waitDelay m]] this]
    show "n' \<le> n + Suc 0" .
  qed
  show ?thesis
    unfolding call_attempt_def Let_def
  proof (rule exchanges_bindR0 [OF exchanges_take_budget exchanges_bindR0 [OF exchanges_take_budget
          exchanges_bindR0 [OF exchanges_wait_limiter exchanges_bindR0 [OF exchanges_choose_read]]]], goal_cases)
    case (1 _ _ _ choice)
    obtain i delay where "choice = (i, delay)" by force
    then show ?case by (simp only: prod.case) (rule chosen [OF finish])
  qed
qed

lemma exchanges_call_loop: "exchanges k (call_loop (counting env) ctx out method body k attempt failed)"
proof (induction k arbitrary: attempt failed)
  case 0
  show ?case by (auto intro: exchange_intros split: option.split)
next
  case (Suc k)
  have "exchanges k (case r of Inr v \<Rightarrow> retR (Some v) | Inl err \<Rightarrow>
      bindR (if k = 0 then retR () else waitDelay (counting env) (int (attempt + 1) * (100 * 10 ^ 6))) (\<lambda>_.
      call_loop (counting env) ctx out method body k (attempt + 1) (Some err)))" for r
    by (auto intro!: exchange_intros exchanges_bindR0 Suc.IH split: sum.split)
  then show ?case
    unfolding call_loop.simps by (rule exchanges_bindR1 [OF exchanges_call_attempt])
qed

lemma exchanges_callOnceNoFailover: "exchanges (Suc 0) (callOnceNoFailover (counting env) ctx out method body)"
proof (rule exchangesI)
  fix c w n r c' w' n'
  assume run: "callOnceNoFailover (counting env) ctx out method body (c, w, n) = (r, c', w', n')"
  have "exchanges (Suc 0) (bindR (wait_limiter True get put (counting env)) (\<lambda>_.
      bindR (exchange (counting env) Critical metadata out method body i)
        (\<lambda>r. case r of Inr v \<Rightarrow> retR (Some v) | Inl err \<Rightarrow> failR err)))" for get put metadata i
    by (rule exchanges_bindR0 [OF _ exchanges_bindR_last])
       (auto intro!: exchange_intros exchanges_exchange split: sum.split)
  from exchangesD [OF this] show "n' \<le> n + Suc 0"
    using run by (fastforce simp: callOnceNoFailover_def split: prod.splits option.splits)
qed

text \<open>
  C5: a raw transaction is posted to at most one provider and at most once, whatever the transport answers, so the
  client never duplicates a broadcast; every other request is posted at most \<open>retries + 1\<close> times.
\<close>

theorem Call_exchanges_bounded:
  "snd (snd (snd (Call (counting env) ctx out method params (c, w, n))))
     \<le> n + (if method = ''eth_sendRawTransaction'' then 1 else nat (clRetries c + 1))"
proof -
  obtain r c' w' n' where e: "Call (counting env) ctx out method params (c, w, n) = (r, c', w', n')" by (metis prod.exhaust)
  show ?thesis
  proof (cases "method = ''eth_sendRawTransaction''")
    case True
    then show ?thesis
      using e exchangesD [OF exchanges_callOnceNoFailover] by (fastforce simp: Call_def Let_def)
  next
    case False
    then show ?thesis
      using e exchangesD [OF exchanges_call_loop] by (fastforce simp: Call_def Let_def)
  qed
qed

section \<open>Which provider is chosen\<close>

abbreviation rank :: "RequestClass \<Rightarrow> providerState \<Rightarrow> int" where
  "rank cls p \<equiv> tierRank cls (pcTier (pvCfg p))"

lemma tierRank_less [simp]: "tierRank cls tier < 99" and tierRank_not_ge [simp]: "\<not> 99 \<le> tierRank cls tier"
  by (auto simp: tierRank_def rank_of_def split: RequestClass.split)

lemma tierRank_neq [simp]: "tierRank cls tier \<noteq> 99"
  using tierRank_less [of cls tier] by linarith

lemma selectable_pass: "selectable now best 0 p \<Longrightarrow> selectable now best pass p"
  by (auto simp: selectable_def)

lemma enumerate_nth: "(i, p) \<in> set (enumerate 0 xs) \<longleftrightarrow> i < length xs \<and> p = xs ! i"
  by (auto simp: in_set_enumerate_eq)

lemma prefer_fold:
  assumes "fold prefer_step cs (99, 99, 0) = (ready, delayed, delayedBy)"
  shows "(ready = 99 \<or> ready \<in> fst ` set cs) \<and> (delayed = 99 \<or> delayed \<in> fst ` set cs)
    \<and> (cs \<noteq> [] \<and> (\<forall>x\<in>set cs. fst x < 99) \<longrightarrow> ready \<noteq> 99 \<or> delayed \<noteq> 99)"
  using assms
proof (induction cs arbitrary: ready delayed delayedBy rule: rev_induct)
  case (snoc x cs)
  obtain a b d where f: "fold prefer_step cs (99, 99, 0) = (a, b, d)" by (metis prod.exhaust)
  have s: "prefer_step x (a, b, d) = (ready, delayed, delayedBy)" using snoc.prems f by simp
  obtain r delay where x: "x = (r, delay)" by force
  note step = s [unfolded x prefer_step_def prod.case]
  from snoc.IH [OF f] step show ?case
    unfolding x by (auto split: if_splits)
qed simp

lemma preferred_tier_attained:
  assumes "p \<in> set (clProviders c)" "selectable now best pass p"
  shows "\<exists>q\<in>set (clProviders c). selectable now best pass q \<and> rank cls q = preferredReadTierLocked cls now best pass c"
proof -
  let ?cs = "tier_candidates cls now best pass c"
  obtain a b d where f: "fold prefer_step ?cs (99, 99, 0) = (a, b, d)" by (metis prod.exhaust)
  have ne: "?cs \<noteq> []" using assms by (auto simp: tier_candidates_def filter_empty_conv)
  have "\<forall>x\<in>set ?cs. fst x < 99" by (auto simp: tier_candidates_def)
  with prefer_fold [OF f] ne f have "preferredReadTierLocked cls now best pass c \<in> fst ` set ?cs"
    by (auto simp: preferredReadTierLocked_def Let_def)
  then show ?thesis by (force simp: tier_candidates_def)
qed

definition admissible :: "RequestClass \<Rightarrow> int \<Rightarrow> u64 \<Rightarrow> nat \<Rightarrow> int \<Rightarrow> providerState \<Rightarrow> bool" where
  "admissible cls now best pass preferredTier p \<longleftrightarrow>
     (cls = Critical \<or> rank cls p = preferredTier) \<and> selectable now best pass p"

text \<open>Invariant of the selection loop after the providers \<open>xs\<close>.\<close>

definition pick_inv :: "RequestClass \<Rightarrow> (providerState \<Rightarrow> bool) \<Rightarrow> (nat \<times> providerState) list \<Rightarrow> Pick \<Rightarrow> bool" where
  "pick_inv cls ok xs pick \<longleftrightarrow>
     (case pkIndex pick of
        None \<Rightarrow> pkTier pick = 99 \<and> (\<forall>x\<in>set xs. \<not> ok (snd x))
      | Some i \<Rightarrow> \<exists>p. (i, p) \<in> set xs \<and> ok p
          \<and> (cls = Critical \<longrightarrow> pkTier pick = rank cls p \<and> (\<forall>x\<in>set xs. ok (snd x) \<longrightarrow> rank cls p \<le> rank cls (snd x))))"

lemma pick_inv_step:
  assumes "pick_inv cls (admissible cls now best pass preferredTier) xs pick"
  shows "pick_inv cls (admissible cls now best pass preferredTier) (xs @ [x]) (pick_step cls now best pass preferredTier x pick)"
proof (cases x)
  case (Pair i p)
  show ?thesis
  proof (cases "admissible cls now best pass preferredTier p")
    case False
    then have "pick_step cls now best pass preferredTier x pick = pick"
      using Pair by (auto simp: pick_step_def admissible_def)
    then show ?thesis using assms False Pair by (fastforce simp: pick_inv_def split: option.splits)
  next
    case True
    let ?pick = "pick_step cls now best pass preferredTier x pick"
    show ?thesis
    proof (cases "cls = Critical")
      case False
      then have "pkIndex ?pick = Some i \<or> pkIndex pick \<noteq> None \<and> pkIndex ?pick = pkIndex pick"
        using True Pair by (simp add: pick_step_def enter_tier_def admissible_def Let_def)
      then show ?thesis using assms True Pair False by (auto simp: pick_inv_def split: option.splits)
    next
      case critical: True
      consider (above) "rank cls p > pkTier pick" | (below) "rank cls p < pkTier pick" | (same) "rank cls p = pkTier pick"
        by linarith
      then show ?thesis
      proof cases
        case above
        then have "?pick = pick" using True Pair critical by (simp add: pick_step_def enter_tier_def admissible_def Let_def)
        moreover obtain k where "pkIndex pick = Some k"
          using assms above tierRank_less [of cls "pcTier (pvCfg p)"] by (auto simp: pick_inv_def simp del: tierRank_less split: option.splits)
        moreover from this obtain q where q: "(k, q) \<in> set xs" "admissible cls now best pass preferredTier q"
          "pkTier pick = rank cls q" "\<forall>x\<in>set xs. admissible cls now best pass preferredTier (snd x) \<longrightarrow> rank cls q \<le> rank cls (snd x)"
          using assms critical by (auto simp: pick_inv_def)
        ultimately show ?thesis using above Pair unfolding pick_inv_def by (auto intro!: exI [of _ q])
      next
        case below
        then have "pkIndex ?pick = Some i" "pkTier ?pick = rank cls p"
          using True Pair critical by (simp_all add: pick_step_def enter_tier_def admissible_def Let_def)
        then show ?thesis using assms below Pair critical True by (fastforce simp: pick_inv_def split: option.splits)
      next
        case same
        then have "pkTier ?pick = pkTier pick"
          "pkIndex ?pick = Some i \<or> pkIndex pick \<noteq> None \<and> pkIndex ?pick = pkIndex pick"
          using True Pair critical by (simp_all add: pick_step_def enter_tier_def admissible_def Let_def)
        then show ?thesis
          using assms same Pair critical True by (elim disjE) (fastforce simp: pick_inv_def split: option.splits)+
      qed
    qed
  qed
qed

lemma pick_inv_fold:
  "pick_inv cls (admissible cls now best pass preferredTier) [] pick \<Longrightarrow>
   pick_inv cls (admissible cls now best pass preferredTier) xs (fold (pick_step cls now best pass preferredTier) xs pick)"
  by (induction xs rule: rev_induct) (simp_all add: pick_inv_step)

lemma pick_pass_spec:
  assumes "pkIndex pick = None" "pkTier pick = 99"
  shows "case pkIndex (pick_pass cls now best pass c pick) of
      None \<Rightarrow> pkTier (pick_pass cls now best pass c pick) = 99 \<and> (\<forall>p\<in>set (clProviders c). \<not> selectable now best pass p)
    | Some i \<Rightarrow> i < length (clProviders c) \<and> selectable now best pass (clProviders c ! i)
        \<and> (cls = Critical \<longrightarrow>
            (\<forall>p\<in>set (clProviders c). selectable now best pass p \<longrightarrow> rank cls (clProviders c ! i) \<le> rank cls p))"
proof -
  let ?pref = "if cls \<noteq> Critical then preferredReadTierLocked cls now best pass c else 99"
  let ?ok = "admissible cls now best pass ?pref"
  let ?xs = "enumerate 0 (clProviders c)"
  have inv: "pick_inv cls ?ok ?xs (pick_pass cls now best pass c pick)"
    using pick_inv_fold [of cls now best pass ?pref pick ?xs] assms by (simp add: pick_inv_def pick_pass_def)
  have all: "snd ` set ?xs = set (clProviders c)" by (metis list.set_map map_snd_enumerate)
  have ok: "\<exists>q\<in>set (clProviders c). ?ok q" if "p \<in> set (clProviders c)" "selectable now best pass p" for p
    using preferred_tier_attained [OF that, of cls] that by (auto simp: admissible_def)
  show ?thesis
  proof (cases "pkIndex (pick_pass cls now best pass c pick)")
    case None
    then have "\<forall>p\<in>set (clProviders c). \<not> ?ok p" using inv all by (force simp: pick_inv_def)
    then show ?thesis using None inv ok by (auto simp: pick_inv_def)
  next
    case (Some i)
    then obtain p where p: "i < length (clProviders c)" "p = clProviders c ! i" "?ok p"
      and least: "cls = Critical \<longrightarrow> (\<forall>x\<in>set ?xs. ?ok (snd x) \<longrightarrow> rank cls p \<le> rank cls (snd x))"
      using inv by (auto simp: pick_inv_def enumerate_nth)
    from least have "cls = Critical \<longrightarrow> (\<forall>q\<in>set (clProviders c). ?ok q \<longrightarrow> rank cls p \<le> rank cls q)"
      unfolding all [symmetric] by blast
    then show ?thesis using Some p by (auto simp: admissible_def)
  qed
qed

lemma fallback_step_index:
  assumes "pkIndex pick = None \<longrightarrow> pkTier pick = 99"
  shows "pkIndex (fallback_step cls now (i, p) pick) = Some i
    \<or> pkIndex pick \<noteq> None \<and> pkIndex (fallback_step cls now (i, p) pick) = pkIndex pick"
proof (cases "cls = Critical")
  case True
  have "\<not> 99 < rank cls p" using tierRank_less [of cls "pcTier (pvCfg p)"] by linarith
  then show ?thesis using assms True by (auto simp: fallback_step_def enter_tier_def Let_def)
next
  case False
  then show ?thesis using assms by (auto simp: fallback_step_def enter_tier_def Let_def)
qed

lemma fallback_fold:
  assumes "pkIndex pick = None" "pkTier pick = 99"
  shows "(xs = [] \<longrightarrow> fold (fallback_step cls now) xs pick = pick)
    \<and> (xs \<noteq> [] \<longrightarrow> (\<exists>i\<in>fst ` set xs. pkIndex (fold (fallback_step cls now) xs pick) = Some i))"
  using assms
proof (induction xs rule: rev_induct)
  case (snoc x xs)
  obtain i p where x: "x = (i, p)" by force
  let ?pick = "fold (fallback_step cls now) xs pick"
  have "pkIndex ?pick = None \<longrightarrow> pkTier ?pick = 99" using snoc by auto
  from fallback_step_index [OF this, of cls now i p] show ?case
    using snoc x by (cases "xs = []") (auto, force)
qed simp

lemma chooseReadProvider_spec:
  assumes "clProviders c \<noteq> []"
  shows "\<exists>i delay c'. chooseReadProvider cls now c = (Some (i, delay), c') \<and> i < length (clProviders c) \<and> clActive c' = i
    \<and> \<not> before (now + delay) (pvCooldownUntil (clProviders c ! i))
    \<and> (\<forall>pass. (\<exists>p\<in>set (clProviders c). selectable now (bestKnownBlockLocked c) pass p)
         \<longrightarrow> selectable now (bestKnownBlockLocked c) pass (clProviders c ! i))
    \<and> (cls = Critical \<longrightarrow> (\<forall>p\<in>set (clProviders c). selectable now (bestKnownBlockLocked c) 0 p
         \<longrightarrow> rank cls (clProviders c ! i) \<le> rank cls p))"
proof -
  let ?best = "bestKnownBlockLocked c" and ?ps = "clProviders c"
  let ?pick0 = "\<lparr>pkIndex = None, pkScore = 0, pkTier = 99\<rparr>"
  let ?pick1 = "pick_pass cls now ?best 0 c ?pick0"
  let ?pick2 = "pick_pass cls now ?best 1 c ?pick1"
  let ?pick = "if pkIndex ?pick2 = None then fold (fallback_step cls now) (enumerate 0 ?ps) (?pick2\<lparr>pkTier := 99\<rparr>) else ?pick2"
  have sel: "selectable now ?best pass p \<longleftrightarrow> selectable now ?best 1 p" if "pass \<noteq> 0" for pass p
    using that by (simp add: selectable_def)
  have one: "pkIndex ?pick1 = Some i \<Longrightarrow> ?pick2 = ?pick1" for i by (simp add: pick_pass_def)
  have p1: "case pkIndex ?pick1 of None \<Rightarrow> pkTier ?pick1 = 99 \<and> (\<forall>p\<in>set ?ps. \<not> selectable now ?best 0 p)
    | Some i \<Rightarrow> i < length ?ps \<and> selectable now ?best 0 (?ps ! i)
        \<and> (cls = Critical \<longrightarrow> (\<forall>p\<in>set ?ps. selectable now ?best 0 p \<longrightarrow> rank cls (?ps ! i) \<le> rank cls p))"
    by (rule pick_pass_spec) simp_all
  have "\<exists>i. pkIndex ?pick = Some i \<and> i < length ?ps
      \<and> (\<forall>pass. (\<exists>p\<in>set ?ps. selectable now ?best pass p) \<longrightarrow> selectable now ?best pass (?ps ! i))
      \<and> (cls = Critical \<longrightarrow> (\<forall>p\<in>set ?ps. selectable now ?best 0 p \<longrightarrow> rank cls (?ps ! i) \<le> rank cls p))"
  proof (cases "pkIndex ?pick1")
    case (Some i)
    then show ?thesis using p1 one [OF Some] by (auto intro: selectable_pass)
  next
    case None
    have p2: "case pkIndex ?pick2 of None \<Rightarrow> pkTier ?pick2 = 99 \<and> (\<forall>p\<in>set ?ps. \<not> selectable now ?best 1 p)
      | Some i \<Rightarrow> i < length ?ps \<and> selectable now ?best 1 (?ps ! i)
          \<and> (cls = Critical \<longrightarrow> (\<forall>p\<in>set ?ps. selectable now ?best 1 p \<longrightarrow> rank cls (?ps ! i) \<le> rank cls p))"
      using p1 None by (intro pick_pass_spec) auto
    have n0: "\<not> selectable now ?best 0 p" if "p \<in> set ?ps" for p using p1 None that by simp
    show ?thesis
    proof (cases "pkIndex ?pick2")
      case (Some i)
      then have i: "i < length ?ps" "selectable now ?best 1 (?ps ! i)" using p2 by auto
      have "selectable now ?best pass (?ps ! i)" if "p \<in> set ?ps" "selectable now ?best pass p" for pass p
        using i(2) n0 [OF that(1)] that(2) sel [of pass] by (cases "pass = 0") auto
      then show ?thesis using Some i n0 by auto
    next
      case none2: None
      then obtain i where "i \<in> fst ` set (enumerate 0 ?ps)" "pkIndex ?pick = Some i"
        using fallback_fold [of "?pick2\<lparr>pkTier := 99\<rparr>" "enumerate 0 ?ps" cls now] assms by (auto simp: enumerate_eq_zip)
      moreover have "\<not> selectable now ?best pass p" if "p \<in> set ?ps" for pass p
        using p2 none2 n0 [OF that] that sel [of pass] by (cases "pass = 0") auto
      ultimately show ?thesis by (auto simp: enumerate_nth)
    qed
  qed
  then obtain i where i: "pkIndex ?pick = Some i" "i < length ?ps"
    and spec: "(\<forall>pass. (\<exists>p\<in>set ?ps. selectable now ?best pass p) \<longrightarrow> selectable now ?best pass (?ps ! i))
      \<and> (cls = Critical \<longrightarrow> (\<forall>p\<in>set ?ps. selectable now ?best 0 p \<longrightarrow> rank cls (?ps ! i) \<le> rank cls p))" by blast
  obtain delay l where r: "ReserveDelay now (pvLimiter (?ps ! i)) = (delay, l)" by force
  have "\<not> before (now + longer_of delay (pvCooldownUntil (?ps ! i)) now) (pvCooldownUntil (?ps ! i))"
    by (auto simp: longer_of_def before_def split: option.splits)
  then show ?thesis
    using i spec assms r by (auto simp: chooseReadProvider_def Let_def update_provider_def)
qed

text \<open>
  C18: with at least one provider configured a read always gets one, and the caller waits until that provider's
  cool-down has ended. If some provider is neither cooling down nor lagging behind the best known block, the
  chosen one is such a provider too, and if one of them is also past its probation, so is the chosen one; a critical
  read then gets the best tier among those. Only when every provider is cooling down or lagging is one of them used.
\<close>

theorem chooseReadProvider_healthy:
  assumes "clProviders c \<noteq> []"
  shows "\<exists>i delay c'. chooseReadProvider cls now c = (Some (i, delay), c') \<and> i < length (clProviders c) \<and> clActive c' = i
    \<and> \<not> before (now + delay) (pvCooldownUntil (clProviders c ! i))
    \<and> (\<forall>pass. (\<exists>p\<in>set (clProviders c). selectable now (bestKnownBlockLocked c) pass p)
         \<longrightarrow> selectable now (bestKnownBlockLocked c) pass (clProviders c ! i))
    \<and> (cls = Critical \<longrightarrow> (\<forall>p\<in>set (clProviders c). selectable now (bestKnownBlockLocked c) 0 p
         \<longrightarrow> rank cls (clProviders c ! i) \<le> rank cls p))"
  using assms by (rule chooseReadProvider_spec)

theorem chooseReadProvider_healthy_witness:
  "\<exists>i delay c'. chooseReadProvider Critical 0 (New ''http'' 3) = (Some (i, delay), c') \<and> i < length (clProviders (New ''http'' 3))"
proof -
  have "clProviders (New ''http'' 3) \<noteq> []"
    by (simp add: New_def newManaged_def prepare_config_def List.map_filter_def trim_space_def is_space_def)
  from chooseReadProvider_healthy [OF this, of Critical 0] show ?thesis by blast
qed

section \<open>A failed provider rests\<close>

lemma exponential_cooldown_bounds:
  "30 * Second \<le> exponentialRateLimitCooldown streak \<and> exponentialRateLimitCooldown streak \<le> 240 * Second"
proof -
  have e: "exponentialRateLimitCooldown streak = 30 * Second * 2 ^ min 3 (streak - 1)"
    by (simp add: exponentialRateLimitCooldown_def Let_def min_def)
  have "(2 :: int) ^ min 3 (streak - 1) \<le> 2 ^ 3" "(1 :: int) \<le> 2 ^ min 3 (streak - 1)"
    by (rule power_increasing) simp_all
  then show ?thesis by (simp add: e Second_def)
qed

lemma failure_cooldown_bounds: "15 * Second \<le> failure_cooldown err streak \<and> failure_cooldown err streak \<le> 6 * 60 * Minute"
  using exponential_cooldown_bounds [of streak] by (auto simp: failure_cooldown_def Second_def Minute_def)

lemma recordFailure_cools:
  assumes "now \<le> t" "t < now + (if pvConsecutiveFailure p \<ge> 2 then 60 else 15) * Second"
  shows "\<not> selectable t best pass (snd (recordFailure now err p))"
  using assms failure_cooldown_bounds [of err "if failureReason err = ''rate_limit'' then pvRateLimitStreak p + 1 else pvRateLimitStreak p"]
  by (auto simp: recordFailure_def selectable_def before_def Let_def split: if_splits)

text \<open>
  C28: after a provider failure the next reads go elsewhere: for at least fifteen seconds (a minute from the third
  failure in a row) the failed provider is not chosen while another one is healthy.
\<close>

theorem failed_provider_avoided:
  assumes i: "i < length (clProviders c)"
    and c': "c' = c\<lparr>clProviders := (clProviders c)[i := snd (recordFailure now err (clProviders c ! i))]\<rparr>"
    and t: "now \<le> t" "t < now + (if pvConsecutiveFailure (clProviders c ! i) \<ge> 2 then 60 else 15) * Second"
    and other: "p \<in> set (clProviders c')" "selectable t (bestKnownBlockLocked c') 1 p"
    and chosen: "chooseReadProvider cls t c' = (Some (j, delay), c'')"
  shows "j \<noteq> i"
proof
  assume "j = i"
  have "clProviders c' \<noteq> []" using other(1) by auto
  from chooseReadProvider_spec [OF this, of cls t] chosen other \<open>j = i\<close>
  have "selectable t (bestKnownBlockLocked c') 1 (clProviders c' ! i)" by auto
  then show False using i recordFailure_cools [OF t] by (simp add: c')
qed

definition two_providers :: Client where
  "two_providers = newManaged
     [\<lparr>pcName = ''a'', pcHTTP = ''ha'', pcMaxRPS = 5, pcTargetRPS = 0, pcBurst = 1, pcMaxBlockLag = 3, pcTier = ''premium''\<rparr>,
      \<lparr>pcName = ''b'', pcHTTP = ''hb'', pcMaxRPS = 5, pcTargetRPS = 0, pcBurst = 1, pcMaxBlockLag = 3, pcTier = ''limited''\<rparr>] 2"

definition one_failed :: Client where
  "one_failed = two_providers\<lparr>clProviders := (clProviders two_providers)
     [0 := snd (recordFailure 0 (RpcError TimeoutKind DeadlineExceeded 0 0 '''') (clProviders two_providers ! 0))]\<rparr>"

theorem failed_provider_avoided_witness:
  "\<exists>j delay c''. chooseReadProvider Critical 1 one_failed = (Some (j, delay), c'') \<and> j \<noteq> 0"
proof -
  have len: "length (clProviders two_providers) = 2" and p1: "pvCooldownUntil (clProviders two_providers ! 1) = None"
    "pvConsecutiveFailure (clProviders two_providers ! 0) = 0" "pvLatestBlock (clProviders two_providers ! 1) = 0"
    by (simp_all add: two_providers_def newManaged_def prepare_config_def List.map_filter_def trim_space_def is_space_def
        new_provider_def Let_def)
  let ?p = "clProviders two_providers ! 1"
  have p: "?p \<in> set (clProviders one_failed)" "selectable 1 (bestKnownBlockLocked one_failed) 1 ?p"
    using len p1 by (auto simp: one_failed_def selectable_def before_def providerLagged_def in_set_conv_nth intro!: exI [of _ 1])
  have ne: "clProviders one_failed \<noteq> []" using p(1) by auto
  then obtain j delay c'' where r: "chooseReadProvider Critical 1 one_failed = (Some (j, delay), c'')"
    using chooseReadProvider_spec [of one_failed Critical 1] by blast
  have "j \<noteq> 0"
    by (rule failed_provider_avoided [OF _ one_failed_def _ _ p r]) (simp_all add: len p1 Second_def)
  with r show ?thesis by blast
qed

text \<open>
  The probation of a provider is fixed before the minimum cool-down of the third failure in a row is applied, so it
  then ends fifteen seconds after the cool-down instead of one minute.
\<close>

lemma probation_shortened:
  assumes "2 \<le> pvConsecutiveFailure p" "failureReason err \<noteq> ''rate_limit''"
  shows "pvCooldownUntil (snd (recordFailure now err p)) = Some (now + 60 * Second)
    \<and> pvProbationUntil (snd (recordFailure now err p)) = Some (now + 60 * Second + 15 * Second)"
  using assms by (auto simp: recordFailure_def failure_cooldown_def Let_def Second_def Minute_def)

end
