(* ===== verification/MarketSync.thy ===== *)
theory MarketSync
  imports PoolCache
begin

text \<open>
  \<open>go/internal/market/engine.go\<close>, state synchronisation: the search options, the background log scanner with its
  watermark and pending dirty set (\<open>advanceMarketStateSync\<close>), the refresh of dirty pools by the decision cycle and
  the acknowledgement of the pools it has read. The scanner holds the mutex only around its two state
  updates; the acknowledgement runs in between and only removes entries. Pool refreshes are
  spread over workers: what the cycle sees is the sequence of delivered results, in any order and possibly
  incomplete after a cancellation. Durations and the stage tracker are left out.
\<close>

section \<open>Search options\<close>

record SearchOptions =
  EvaluationRoutesPerAsset :: int
  OptimizerRoutesPerAsset :: int
  OptimizerSamplesPerRoute :: int
  OptimizerSamplesPerCycle :: int
  MaxQuotesPerCycle :: int
  MaxOptimizedRoutes :: int
  NormalOptimizerSamples :: int
  FullReconcileEvery :: u64
  ReconcileBatchPairs :: int
  SyncMaxChunksPerIteration :: int
  DisablePreQuoteRanking :: bool
  ExploreRatioBPS :: int
  PersistentQuoteCache :: bool
  AdaptiveOptimizer :: bool
  EarlyStop :: bool
  OptimizationFlagsSet :: bool

definition DefaultSearchOptions :: SearchOptions where
  "DefaultSearchOptions = \<lparr>EvaluationRoutesPerAsset = 12, OptimizerRoutesPerAsset = 2, OptimizerSamplesPerRoute = 8,
     OptimizerSamplesPerCycle = 32, MaxQuotesPerCycle = 40, MaxOptimizedRoutes = 8, NormalOptimizerSamples = 3,
     FullReconcileEvery = 2400, ReconcileBatchPairs = 4, SyncMaxChunksPerIteration = 20, DisablePreQuoteRanking = False,
     ExploreRatioBPS = 2000, PersistentQuoteCache = True, AdaptiveOptimizer = True, EarlyStop = True,
     OptimizationFlagsSet = True\<rparr>"

text \<open>\<open>if x < low { x = default }\<close> followed by \<open>if x > high { x = high }\<close>.\<close>

definition at_least :: "int \<Rightarrow> int \<Rightarrow> int \<Rightarrow> int" where
  "at_least low d x = (if x < low then d else x)"

definition at_most :: "int \<Rightarrow> int \<Rightarrow> int" where
  "at_most high x = (if x > high then high else x)"

definition Normalized :: "SearchOptions \<Rightarrow> SearchOptions" where
  "Normalized opts =
     (let d = DefaultSearchOptions;
          o1 = (if OptimizationFlagsSet opts then opts
                else opts\<lparr>PersistentQuoteCache := PersistentQuoteCache d, AdaptiveOptimizer := AdaptiveOptimizer d,
                          EarlyStop := EarlyStop d, OptimizationFlagsSet := True\<rparr>);
          perRoute = at_least 2 (OptimizerSamplesPerRoute d) (OptimizerSamplesPerRoute o1);
          explore = (if ExploreRatioBPS o1 < 0 then 0 else ExploreRatioBPS o1)
      in o1\<lparr>EvaluationRoutesPerAsset := at_least 1 (EvaluationRoutesPerAsset d) (EvaluationRoutesPerAsset o1),
            OptimizerRoutesPerAsset := at_least 1 (OptimizerRoutesPerAsset d) (OptimizerRoutesPerAsset o1),
            OptimizerSamplesPerRoute := perRoute,
            OptimizerSamplesPerCycle := at_most 512 (at_least 2 (OptimizerSamplesPerCycle d) (OptimizerSamplesPerCycle o1)),
            MaxQuotesPerCycle := at_least 1 (MaxQuotesPerCycle d) (MaxQuotesPerCycle o1),
            MaxOptimizedRoutes := at_least 1 (MaxOptimizedRoutes d) (MaxOptimizedRoutes o1),
            NormalOptimizerSamples := at_most perRoute (at_least 2 (NormalOptimizerSamples d) (NormalOptimizerSamples o1)),
            FullReconcileEvery := (if FullReconcileEvery o1 = 0 then FullReconcileEvery d else FullReconcileEvery o1),
            ReconcileBatchPairs := at_most 8 (at_least 1 (ReconcileBatchPairs d) (ReconcileBatchPairs o1)),
            SyncMaxChunksPerIteration :=
              at_most 200 (at_least 1 (SyncMaxChunksPerIteration d) (SyncMaxChunksPerIteration o1)),
            ExploreRatioBPS := at_most 5000 (if explore = 0 then ExploreRatioBPS d else explore)\<rparr>)"

lemma Normalized_fields:
  "EvaluationRoutesPerAsset (Normalized opts) = at_least 1 12 (EvaluationRoutesPerAsset opts)"
  "OptimizerRoutesPerAsset (Normalized opts) = at_least 1 2 (OptimizerRoutesPerAsset opts)"
  "OptimizerSamplesPerRoute (Normalized opts) = at_least 2 8 (OptimizerSamplesPerRoute opts)"
  "OptimizerSamplesPerCycle (Normalized opts) = at_most 512 (at_least 2 32 (OptimizerSamplesPerCycle opts))"
  "MaxQuotesPerCycle (Normalized opts) = at_least 1 40 (MaxQuotesPerCycle opts)"
  "MaxOptimizedRoutes (Normalized opts) = at_least 1 8 (MaxOptimizedRoutes opts)"
  "NormalOptimizerSamples (Normalized opts)
     = at_most (at_least 2 8 (OptimizerSamplesPerRoute opts)) (at_least 2 3 (NormalOptimizerSamples opts))"
  "FullReconcileEvery (Normalized opts) = (if FullReconcileEvery opts = 0 then 2400 else FullReconcileEvery opts)"
  "ReconcileBatchPairs (Normalized opts) = at_most 8 (at_least 1 4 (ReconcileBatchPairs opts))"
  "SyncMaxChunksPerIteration (Normalized opts) = at_most 200 (at_least 1 20 (SyncMaxChunksPerIteration opts))"
  "ExploreRatioBPS (Normalized opts) = at_most 5000 (if ExploreRatioBPS opts \<le> 0 then 2000 else ExploreRatioBPS opts)"
  "OptimizationFlagsSet (Normalized opts)"
  by (cases "OptimizationFlagsSet opts"; simp add: Normalized_def DefaultSearchOptions_def Let_def)+

lemma at_least_ge: "low \<le> d \<Longrightarrow> low \<le> at_least low d x"
  by (simp add: at_least_def)

lemma at_most_le: "at_most high x \<le> high" and at_most_ge: "low \<le> high \<Longrightarrow> low \<le> x \<Longrightarrow> low \<le> at_most high x"
  by (simp_all add: at_most_def)

lemma Normalized_bounds:
  "1 \<le> EvaluationRoutesPerAsset (Normalized opts)" "1 \<le> OptimizerRoutesPerAsset (Normalized opts)"
  "2 \<le> OptimizerSamplesPerRoute (Normalized opts)" "OptimizerSamplesPerCycle (Normalized opts) \<in> {2..512}"
  "1 \<le> MaxQuotesPerCycle (Normalized opts)" "1 \<le> MaxOptimizedRoutes (Normalized opts)"
  "NormalOptimizerSamples (Normalized opts) \<in> {2..OptimizerSamplesPerRoute (Normalized opts)}"
  "FullReconcileEvery (Normalized opts) \<noteq> 0" "ReconcileBatchPairs (Normalized opts) \<in> {1..8}"
  "SyncMaxChunksPerIteration (Normalized opts) \<in> {1..200}" "ExploreRatioBPS (Normalized opts) \<in> {1..5000}"
  by (simp_all add: Normalized_fields at_least_ge at_most_le at_most_ge)

section \<open>Synchroniser state\<close>

record SyncSnapshot =
  snLatestHead :: u64
  snScanWatermark :: u64
  snStateWatermark :: u64
  snLagBlocks :: u64
  snChunksAttempted :: u64
  snChunksSucceeded :: u64
  snChunksFailed :: u64
  snBlocksScanned :: u64
  snProgressBlocks :: u64
  snDirtyPoolsFound :: nat
  snCheckpointAdvances :: u64
  snCheckpointBlock :: u64
  snPendingDirtyPools :: nat
  snMarketStateComplete :: bool
  snMarketStateSyncLagging :: bool

definition empty_snapshot :: SyncSnapshot where
  "empty_snapshot = \<lparr>snLatestHead = 0, snScanWatermark = 0, snStateWatermark = 0, snLagBlocks = 0, snChunksAttempted = 0,
     snChunksSucceeded = 0, snChunksFailed = 0, snBlocksScanned = 0, snProgressBlocks = 0, snDirtyPoolsFound = 0,
     snCheckpointAdvances = 0, snCheckpointBlock = 0, snPendingDirtyPools = 0, snMarketStateComplete = False,
     snMarketStateSyncLagging = False\<rparr>"

text \<open>The fields of \<open>market.Engine\<close> that \<open>syncMu\<close> guards.\<close>

record SyncState =
  dirtyScanBlock :: u64
  pendingDirty :: "string set"
  syncRunning :: bool
  syncLast :: SyncSnapshot
  lastStateBlock :: u64

definition StartMarketStateSynchronizer :: "SyncState \<Rightarrow> SyncState" where
  "StartMarketStateSynchronizer st = st\<lparr>syncRunning := True\<rparr>"

definition storeMarketSyncSnapshot :: "SyncSnapshot \<Rightarrow> SyncState \<Rightarrow> SyncState" where
  "storeMarketSyncSnapshot snapshot st = st\<lparr>syncLast := snapshot\<rparr>"

definition setLastStateBlock :: "u64 \<Rightarrow> SyncState \<Rightarrow> SyncState" where
  "setLastStateBlock block st = (if block > lastStateBlock st then st\<lparr>lastStateBlock := block\<rparr> else st)"

definition pendingDirtySnapshot :: "SyncState \<Rightarrow> string set" where
  "pendingDirtySnapshot st = pendingDirty st"

definition ackPendingDirty :: "string set \<Rightarrow> string set \<Rightarrow> SyncState \<Rightarrow> SyncState" where
  "ackPendingDirty attempted unresolved st =
     st\<lparr>pendingDirty := pendingDirty st - (to_lower ` attempted - unresolved)\<rparr>"

definition with_lag :: "u64 \<Rightarrow> SyncSnapshot \<Rightarrow> SyncSnapshot" where
  "with_lag latest s =
     (if latest > snScanWatermark s
      then s\<lparr>snLagBlocks := latest - snScanWatermark s, snMarketStateSyncLagging := True\<rparr> else s)"

text \<open>The method \<open>marketSyncSnapshot\<close>.\<close>

definition marketSyncSnapshot :: "u64 \<Rightarrow> SyncState \<Rightarrow> SyncSnapshot" where
  "marketSyncSnapshot latest st =
     (let s = (syncLast st)\<lparr>snLatestHead := latest, snScanWatermark := dirtyScanBlock st,
                 snStateWatermark := lastStateBlock st, snPendingDirtyPools := card (pendingDirty st),
                 snMarketStateComplete := (dirtyScanBlock st \<ge> latest)\<rparr>
      in if latest > snScanWatermark s
         then s\<lparr>snLagBlocks := latest - snScanWatermark s, snMarketStateSyncLagging := True\<rparr>
         else s\<lparr>snLagBlocks := 0, snMarketStateSyncLagging := False\<rparr>)"

section \<open>One iteration of the scanner\<close>

type_synonym 'w log_scan = "string list \<Rightarrow> u64 \<Rightarrow> u64 \<Rightarrow> 'w \<Rightarrow> (string set \<times> LogQueryStats \<times> string option) \<times> 'w"

definition first_scan_block :: "u64 \<Rightarrow> SyncState \<Rightarrow> SyncState" where
  "first_scan_block latest st =
     (if dirtyScanBlock st = 0
      then st\<lparr>dirtyScanBlock := if lastStateBlock st > 0 then lastStateBlock st else latest\<rparr> else st)"

definition commit_scan :: "string set \<Rightarrow> u64 \<Rightarrow> SyncState \<Rightarrow> SyncState" where
  "commit_scan dirty checkpoint st =
     (let st1 = st\<lparr>pendingDirty := pendingDirty st \<union> to_lower ` dirty\<rparr>
      in if checkpoint > dirtyScanBlock st1 then st1\<lparr>dirtyScanBlock := checkpoint\<rparr> else st1)"

definition scan_end :: "u64 \<Rightarrow> u64 \<Rightarrow> u64 \<Rightarrow> u64" where
  "scan_end maxBlocks from latest =
     (if maxBlocks > 0 \<and> latest - from + 1 > maxBlocks then from + maxBlocks - 1 else latest)"

definition success_blocks :: "u64 \<Rightarrow> u64 \<Rightarrow> u64 \<Rightarrow> LogQueryStats \<Rightarrow> u64" where
  "success_blocks chunkSize from to stats =
     (let successBlocks = ChunksSucceeded stats * chunkSize; totalBlocks = to - from + 1
      in if successBlocks > totalBlocks then totalBlocks else successBlocks)"

definition checkpoint_of :: "u64 \<Rightarrow> u64 \<Rightarrow> u64" where
  "checkpoint_of from successBlocks = (if successBlocks > 0 then from + successBlocks - 1 else 0)"

definition advance_with :: "'w log_scan \<Rightarrow> u64 \<Rightarrow> u64 \<Rightarrow> SearchOptions \<Rightarrow> string list \<Rightarrow> SyncState \<Rightarrow> 'w
    \<Rightarrow> SyncSnapshot \<times> SyncState \<times> 'w" where
  "advance_with scan configuredSize latest options addresses st w =
     (let chunkSize = (if configuredSize = 0 then 5 else configuredSize);
          maxChunks = of_int (SyncMaxChunksPerIteration (Normalized options));
          snapshot = empty_snapshot\<lparr>snLatestHead := latest, snStateWatermark := lastStateBlock st,
                       snMarketStateComplete := True\<rparr>
      in if addresses = [] then (snapshot, storeMarketSyncSnapshot snapshot st, w)
         else let st1 = first_scan_block latest st; from = dirtyScanBlock st1 + 1
              in if from = 0 \<or> from > latest
                 then let s = with_lag latest (snapshot\<lparr>snScanWatermark := dirtyScanBlock st1,
                                snStateWatermark := lastStateBlock st1, snPendingDirtyPools := card (pendingDirty st1),
                                snMarketStateComplete := (dirtyScanBlock st1 \<ge> latest)\<rparr>)
                      in (s, storeMarketSyncSnapshot s st1, w)
                 else let to = scan_end (maxChunks * chunkSize) from latest;
                          ((dirty, stats, err), w1) = scan addresses from to w;
                          successBlocks = success_blocks chunkSize from to stats;
                          checkpoint = checkpoint_of from successBlocks;
                          st2 = commit_scan dirty checkpoint st1;
                          s1 = with_lag latest (snapshot\<lparr>snScanWatermark := dirtyScanBlock st2,
                                 snCheckpointAdvances := (if checkpoint > dirtyScanBlock st1 then 1 else 0),
                                 snPendingDirtyPools := card (pendingDirty st2),
                                 snChunksAttempted := ChunksAttempted stats, snChunksSucceeded := ChunksSucceeded stats,
                                 snChunksFailed := ChunksFailed stats, snBlocksScanned := BlocksScanned stats,
                                 snProgressBlocks := successBlocks, snDirtyPoolsFound := card dirty,
                                 snCheckpointBlock := checkpoint\<rparr>);
                          s = s1\<lparr>snMarketStateComplete := (\<not> snMarketStateSyncLagging s1 \<and> err = None)\<rparr>
                      in (s, storeMarketSyncSnapshot s st2, w1))"

definition advanceMarketStateSync :: "keccak \<Rightarrow> 'w Discoverer \<Rightarrow> u64 \<Rightarrow> SearchOptions \<Rightarrow> Pool list \<Rightarrow> SyncState \<Rightarrow> 'w
    \<Rightarrow> SyncSnapshot \<times> SyncState \<times> 'w" where
  "advanceMarketStateSync kk d latest options current st w =
     advance_with (ChangedPoolAddressesAtWithStats kk d) (getLogsChunkSize d) latest options (map pAddress current) st w"

section \<open>The scanner loses no change\<close>

text \<open>What the synchroniser needs from a log scan: after \<open>k\<close> successful chunks it has reported exactly the pools
  touched by the first \<open>k\<close> chunks of the range, whether or not it then failed.\<close>

locale block_scanner =
  fixes scan :: "'d \<Rightarrow> 'w log_scan" and size_of :: "'d \<Rightarrow> u64"
    and follows :: "'d \<Rightarrow> string list \<Rightarrow> (nat \<Rightarrow> LogEntry list) \<Rightarrow> bool"
  assumes size_range: "follows d addrs chain \<Longrightarrow> 0 < size_of d \<and> unat (size_of d) \<le> 10000"
    and scan_prefix: "follows d addrs chain \<Longrightarrow> addrs \<noteq> [] \<Longrightarrow> 0 < from \<Longrightarrow> from \<le> to \<Longrightarrow>
      scan d addrs from to w = ((changed, stats, err), w') \<Longrightarrow>
      changed = touched (\<Union>n\<in>{unat from ..< min (Suc (unat to))
          (unat from + unat (ChunksSucceeded stats) * unat (size_of d))}. set (chain n))
      \<and> unat (ChunksSucceeded stats) \<le> Suc (unat to) - unat from"

lemma unat_scan_end:
  assumes "0 < unat m" "unat from = Suc n" "n < unat latest"
  shows "unat (scan_end m from latest) = min (unat latest) (n + unat m)"
proof -
  have f: "from \<le> latest" using assms(2,3) by (simp add: word_le_nat_alt)
  have l: "unat latest < 2 ^ 64" using unsigned_less [of latest] by simp
  have d: "unat (latest - from) = unat latest - Suc n" using f assms(2) by (simp add: unat_sub)
  then have d1: "unat (latest - from + 1) = unat latest - n"
    using assms(3) l by (simp add: unat_word_ariths)
  show ?thesis
  proof (cases "unat m < unat latest - n")
    case True
    have "unat (from + m) = Suc n + unat m" using True l assms(2) by (simp add: unat_word_ariths)
    then have "unat (from + m - 1) = n + unat m"
      using assms(1) by (simp add: unat_sub word_le_nat_alt)
    then show ?thesis using True d1 assms(1) by (simp add: scan_end_def word_less_nat_alt)
  next
    case False
    then show ?thesis using d1 assms(1) by (simp add: scan_end_def word_less_nat_alt)
  qed
qed

lemma unat_checkpoint:
  fixes s :: u64
  assumes "unat from = Suc n" "n + unat s < 2 ^ 64"
  shows "unat (if s > 0 then from + s - 1 else 0) = (if s > 0 then n + unat s else 0)"
proof (cases "s > 0")
  case True
  have "from = of_nat (unat from)" by simp
  then have "from + s - 1 = of_nat n + s" unfolding assms(1) by simp
  moreover have "unat (of_nat n + s) = n + unat s"
    using assms(2) by (simp add: unat_word_ariths unat_of_nat)
  ultimately show ?thesis using True by metis
qed simp

text \<open>The arithmetic of one iteration: \<open>n\<close> is the watermark, \<open>l\<close> the head, \<open>k\<close> the successful chunks of size \<open>c\<close>.\<close>

lemma iteration_blocks:
  fixes mc cs :: u64 and k :: u64
  assumes m: "0 < unat mc" "unat mc \<le> 200" and c: "0 < cs" "unat cs \<le> 10000"
    and f: "unat from = Suc n" and l: "n < unat latest"
    and to: "to = scan_end (mc * cs) from latest"
    and k: "unat k \<le> Suc (unat to) - unat from"
    and success: "success = (if k * cs > to - from + 1 then to - from + 1 else k * cs)"
  shows "from \<le> to \<and> unat to \<le> unat latest \<and> n + unat success \<le> unat to
    \<and> {unat from ..< min (Suc (unat to)) (unat from + unat k * unat cs)} = {Suc n .. n + unat success}"
proof -
  have c0: "0 < unat cs" using c(1) by (simp add: word_less_nat_alt)
  have mul: "unat mc * unat cs \<le> 200 * 10000" using m(2) c(2) by (intro mult_le_mono) auto
  then have mw: "unat (mc * cs) = unat mc * unat cs" by (simp add: unat_word_ariths)
  have mpos: "0 < unat (mc * cs)" using mw m(1) c0 by simp
  have t: "unat to = min (unat latest) (n + unat mc * unat cs)"
    using unat_scan_end [OF mpos f l] mw to by simp
  have nt: "n < unat to" using t l mpos mw by simp
  then have ft: "from \<le> to" using f by (simp add: word_le_nat_alt)
  have tl: "unat to < 2 ^ 64" using unsigned_less [of to] by simp
  have total: "unat (to - from + 1) = unat to - n"
    using ft f nt tl by (simp add: unat_word_ariths unat_sub)
  have "unat k \<le> 200 * 10000" using k f t mul by linarith
  then have "unat k * unat cs \<le> (200 * 10000) * 10000" using c(2) by (intro mult_le_mono) auto
  then have kc: "unat (k * cs) = unat k * unat cs" by (simp add: unat_word_ariths)
  have s: "unat success = min (unat to - n) (unat k * unat cs)"
    using success total kc by (auto simp: word_less_nat_alt)
  have "{unat from ..< min (Suc (unat to)) (unat from + unat k * unat cs)} = {Suc n .. n + unat success}"
    using s f nt by auto
  then show ?thesis using ft t s nt by auto
qed

lemma commit_scan_fields [simp]:
  "pendingDirty (commit_scan dirty cp st) = pendingDirty st \<union> to_lower ` dirty"
  "dirtyScanBlock (commit_scan dirty cp st) = (if cp > dirtyScanBlock st then cp else dirtyScanBlock st)"
  "lastStateBlock (commit_scan dirty cp st) = lastStateBlock st"
  by (simp_all add: commit_scan_def Let_def)

lemma storeMarketSyncSnapshot_fields [simp]:
  "pendingDirty (storeMarketSyncSnapshot s st) = pendingDirty st"
  "dirtyScanBlock (storeMarketSyncSnapshot s st) = dirtyScanBlock st"
  "lastStateBlock (storeMarketSyncSnapshot s st) = lastStateBlock st"
  by (simp_all add: storeMarketSyncSnapshot_def)

lemma to_lower_touched [simp]: "to_lower ` touched logs = touched logs"
  by (auto simp: touched_def image_image)

context block_scanner
begin

lemma advance_exact:
  assumes fol: "follows d addrs chain" and ne: "addrs \<noteq> []" and started: "0 < dirtyScanBlock st"
    and adv: "advance_with (scan d) (size_of d) latest opts addrs st w = (s, st', w')"
  shows "unat (dirtyScanBlock st) \<le> unat (dirtyScanBlock st')
    \<and> unat (dirtyScanBlock st') \<le> max (unat (dirtyScanBlock st)) (unat latest)
    \<and> pendingDirty st' = pendingDirty st
        \<union> touched (\<Union>n\<in>{Suc (unat (dirtyScanBlock st)) .. unat (dirtyScanBlock st')}. set (chain n))
    \<and> lastStateBlock st' = lastStateBlock st"
proof -
  let ?n = "unat (dirtyScanBlock st)" and ?from = "dirtyScanBlock st + 1"
  let ?mc = "of_int (SyncMaxChunksPerIteration (Normalized opts)) :: u64"
  have c: "0 < size_of d" "unat (size_of d) \<le> 10000" using size_range [OF fol] by auto
  have st1: "first_scan_block latest st = st" using started by (simp add: first_scan_block_def)
  show ?thesis
  proof (cases "?from = 0 \<or> ?from > latest")
    case True
    then have "st' = storeMarketSyncSnapshot s st" "dirtyScanBlock st' = dirtyScanBlock st"
      using adv ne by (auto simp: advance_with_def st1 Let_def)
    then show ?thesis by simp
  next
    case False
    have f: "unat ?from = Suc ?n" using False unatSuc [of "dirtyScanBlock st"] by (simp add: add.commute)
    have l: "?n < unat latest" using False f by (simp add: not_less word_le_nat_alt)
    have "SyncMaxChunksPerIteration (Normalized opts) \<in> {1..200}" by (rule Normalized_bounds)
    then obtain i where i: "SyncMaxChunksPerIteration (Normalized opts) = int i" "1 \<le> i" "i \<le> 200"
      by (intro that [of "nat (SyncMaxChunksPerIteration (Normalized opts))"]) auto
    then have mc: "0 < unat ?mc" "unat ?mc \<le> 200" by (simp_all add: unat_of_nat)
    define to where "to = scan_end (?mc * size_of d) ?from latest"
    obtain dirty stats err w1 where r: "scan d addrs ?from to w = ((dirty, stats, err), w1)" by (metis prod.exhaust)
    define success where "success = success_blocks (size_of d) ?from to stats"
    define cp where "cp = checkpoint_of ?from success"
    have "?from \<le> to"
      using iteration_blocks [OF mc c f l to_def _ refl, of 0] by simp
    moreover have "0 < ?from" using f by (simp add: word_less_nat_alt)
    ultimately have sp: "dirty = touched (\<Union>n\<in>{unat ?from ..< min (Suc (unat to))
          (unat ?from + unat (ChunksSucceeded stats) * unat (size_of d))}. set (chain n))"
      "unat (ChunksSucceeded stats) \<le> Suc (unat to) - unat ?from"
      using scan_prefix [OF fol ne _ _ r] by blast+
    have ib: "unat to \<le> unat latest" "?n + unat success \<le> unat to"
      "{unat ?from ..< min (Suc (unat to)) (unat ?from + unat (ChunksSucceeded stats) * unat (size_of d))}
         = {Suc ?n .. ?n + unat success}"
      using iteration_blocks [OF mc c f l to_def sp(2) success_def [unfolded success_blocks_def Let_def]] by blast+
    have "?n + unat success < 2 ^ 64" using ib(2) unsigned_less [of to, where 'a = nat] by (simp add: le_less_trans)
    from unat_checkpoint [OF f this] have cp: "unat cp = (if success > 0 then ?n + unat success else 0)"
      by (simp add: cp_def checkpoint_of_def)
    have "\<exists>s1. st' = storeMarketSyncSnapshot s1 (commit_scan dirty cp st)"
      using adv ne False r c(1) unfolding to_def cp_def success_def
      by (auto simp: advance_with_def st1 Let_def word_neq_0_conv [symmetric] simp del: word_neq_0_conv)
    then obtain s1 where st': "st' = storeMarketSyncSnapshot s1 (commit_scan dirty cp st)" ..
    have D: "unat (dirtyScanBlock st') = ?n + unat success"
      using st' cp by (auto simp: word_less_nat_alt)
    show ?thesis using D sp(1) ib st' by simp
  qed
qed

end

interpretation pool_scanner: block_scanner
  "\<lambda>(kk, d). ChangedPoolAddressesAtWithStats kk d" "\<lambda>(kk, d). getLogsChunkSize d"
  "\<lambda>(kk, d) addrs chain. unat (getLogsChunkSize d) \<le> 10000
     \<and> (\<exists>call. GetLogs (dCaller d) = Some call \<and> logs_of_chain chain (call addrs))"
proof (unfold_locales, goal_cases)
  case (1 x addrs chain)
  then show ?case by (cases x) auto
next
  case (2 x addrs chain fromBlock toBlock w changed stats err w')
  obtain kk d where x: "x = (kk, d)" by force
  with 2 obtain call where "GetLogs (dCaller d) = Some call" "logs_of_chain chain (call addrs)"
    "ChangedPoolAddressesAtWithStats kk d addrs fromBlock toBlock w = ((changed, stats, err), w')" by auto
  from scan_exact [OF this(1,2) 2(2,3,4) this(3)] show ?case by (simp add: x)
qed

section \<open>Refreshing dirty pools\<close>

definition poolChanged :: "Pool \<Rightarrow> Pool \<Rightarrow> bool" where
  "poolChanged before after \<longleftrightarrow> pSqrtPriceX96 before \<noteq> pSqrtPriceX96 after \<or> pLiquidity before \<noteq> pLiquidity after"

definition poolsByAddress :: "Pool list \<Rightarrow> string set \<Rightarrow> Pool list" where
  "poolsByAddress all selected = filter (\<lambda>p. to_lower (pAddress p) \<in> selected) all"

definition liquidPools :: "Pool list \<Rightarrow> Pool list" where
  "liquidPools all = filter (\<lambda>p. big_pos (pLiquidity p)) all"

definition changedPoolAddresses :: "Pool list \<Rightarrow> Pool list \<Rightarrow> string set" where
  "changedPoolAddresses before after =
     (let previous = fold (\<lambda>p m. m(to_lower (pAddress p) \<mapsto> p)) before Map.empty;
          (changed, rest) = fold (\<lambda>p (changed, m).
             let key = to_lower (pAddress p)
             in (if (case m key of None \<Rightarrow> True | Some old \<Rightarrow> poolChanged old p) then insert key changed else changed,
                 m(key := None))) after ({}, previous)
      in changed \<union> dom rest)"

record RefreshStats =
  rsPoolsAttempted :: nat
  rsPoolsSucceeded :: nat
  rsPoolsFailed :: nat
  rsUnresolvedDirty :: "string set"
  rsResolvedDirty :: "string set"
  rsMarketStateIncomplete :: bool

definition no_refresh :: RefreshStats where
  "no_refresh = \<lparr>rsPoolsAttempted = 0, rsPoolsSucceeded = 0, rsPoolsFailed = 0, rsUnresolvedDirty = {},
     rsResolvedDirty = {}, rsMarketStateIncomplete = False\<rparr>"

text \<open>A delivered result: the pool before, its refresh, and whether the context had been cancelled when it was taken.\<close>

type_synonym delivery = "Pool \<times> Pool result \<times> bool"

definition name_set :: "string \<Rightarrow> string set" where
  "name_set address = (if address = '''' then {} else {address})"

definition known_result :: "delivery \<Rightarrow> string set \<times> RefreshStats \<times> pool_cache \<Rightarrow> string set \<times> RefreshStats \<times> pool_cache" where
  "known_result = (\<lambda>(before, r, cancelled) (dirty, stats, cache).
     let address = to_lower (pAddress before); stats1 = stats\<lparr>rsPoolsAttempted := rsPoolsAttempted stats + 1\<rparr>
     in case r of
          Inl err \<Rightarrow>
            (dirty, stats1\<lparr>rsPoolsFailed := (if cancelled then rsPoolsFailed stats1 else rsPoolsFailed stats1 + 1),
                           rsMarketStateIncomplete := True,
                           rsUnresolvedDirty := rsUnresolvedDirty stats1 \<union> name_set address\<rparr>, cache)
        | Inr after \<Rightarrow>
            let afterAddress = (if to_lower (pAddress after) = '''' then address else to_lower (pAddress after));
                changed = poolChanged before after;
                after1 = (if changed then after else after\<lparr>pLastUpdatedBlock := pLastUpdatedBlock before\<rparr>)
            in (if changed then insert afterAddress dirty else dirty - {afterAddress},
                stats1\<lparr>rsPoolsSucceeded := rsPoolsSucceeded stats1 + 1,
                       rsResolvedDirty := rsResolvedDirty stats1 \<union> name_set afterAddress\<rparr>,
                Put after1 cache))"

definition refreshKnownDirty :: "Pool list \<Rightarrow> string set \<Rightarrow> delivery list \<Rightarrow> pool_cache \<Rightarrow> string set \<times> RefreshStats \<times> pool_cache" where
  "refreshKnownDirty current dirty deliveries cache =
     (if current = [] \<or> dirty = {} \<or> poolsByAddress current dirty = [] then (dirty, no_refresh, cache)
      else fold known_result deliveries (dirty, no_refresh, cache))"

text \<open>Without the background scanner the cycle scans itself; a failed scan marks every pool dirty, and a cancelled
  one or a cancelled refresh ends the cycle (\<open>Inl\<close>).\<close>

fun refresh_results :: "bool \<Rightarrow> delivery list \<Rightarrow> string set \<times> RefreshStats \<times> pool_cache
    \<Rightarrow> (RefreshStats \<times> pool_cache) + (string set \<times> RefreshStats \<times> pool_cache)" where
  "refresh_results logFailed [] s = Inr s"
| "refresh_results logFailed ((before, r, cancelled) # rest) (dirty, stats, cache) =
     (let stats1 = stats\<lparr>rsPoolsAttempted := rsPoolsAttempted stats + 1\<rparr>
      in case r of
           Inl err \<Rightarrow>
             if cancelled then Inl (stats1, cache)
             else let address = name_set (to_lower (pAddress before))
                  in refresh_results logFailed rest
                       (dirty \<union> address,
                        stats1\<lparr>rsPoolsFailed := rsPoolsFailed stats1 + 1, rsMarketStateIncomplete := True,
                               rsUnresolvedDirty := rsUnresolvedDirty stats1 \<union> address\<rparr>, cache)
         | Inr after \<Rightarrow>
             let address = to_lower (pAddress after); changed = poolChanged before after;
                 after1 = (if changed then after else after\<lparr>pLastUpdatedBlock := pLastUpdatedBlock before\<rparr>);
                 dirty1 = (if logFailed \<and> changed then insert address dirty
                           else if \<not> logFailed \<and> \<not> changed then dirty - {address} else dirty)
             in refresh_results logFailed rest
                  (dirty1, stats1\<lparr>rsPoolsSucceeded := rsPoolsSucceeded stats1 + 1\<rparr>, Put after1 cache))"

definition incrementalRefresh :: "'w log_scan \<Rightarrow> Pool list \<Rightarrow> u64 \<Rightarrow> u64 \<Rightarrow> ('w \<Rightarrow> bool) \<Rightarrow> (Pool list \<Rightarrow> delivery list)
    \<Rightarrow> pool_cache \<Rightarrow> 'w \<Rightarrow> ((RefreshStats \<times> pool_cache) + (string set \<times> RefreshStats \<times> pool_cache)) \<times> 'w" where
  "incrementalRefresh scan current fromBlock stateBlock cancelled deliver cache w =
     (if current = [] then (Inr ({}, no_refresh, cache), w)
      else let ((dirty, logStats, logErr), w1) = scan (map pAddress current) fromBlock stateBlock w
           in if logErr \<noteq> None \<and> cancelled w1 then (Inl (no_refresh, cache), w1)
              else let failed = (logErr \<noteq> None);
                       stats = no_refresh\<lparr>rsMarketStateIncomplete := failed\<rparr>;
                       dirty1 = (if failed then set (map (\<lambda>p. to_lower (pAddress p)) current) else dirty);
                       refresh = (if failed then current else poolsByAddress current dirty)
                   in if refresh = [] then (Inr (dirty1, stats, cache), w1)
                      else (refresh_results failed (deliver refresh) (dirty1, stats, cache), w1))"

definition shouldDeferIncrementalRefresh :: "u64 \<Rightarrow> u64 \<Rightarrow> u64 \<Rightarrow> bool" where
  "shouldDeferIncrementalRefresh lastBlock stateBlock batchBlocks =
     (if batchBlocks < 2 \<or> lastBlock = 0 \<or> stateBlock \<le> lastBlock then False
      else stateBlock - lastBlock < batchBlocks)"

text \<open>The end of a cycle commits the state block, but not beyond the scanner's watermark.\<close>

definition commit_block :: "u64 \<Rightarrow> bool \<Rightarrow> SyncState \<Rightarrow> SyncState" where
  "commit_block stateBlock incomplete st =
     (if stateBlock > 0 \<and> \<not> incomplete
      then setLastStateBlock
             (if syncRunning st \<and> dirtyScanBlock st > 0 \<and> dirtyScanBlock st < stateBlock then dirtyScanBlock st else stateBlock) st
      else st)"

section \<open>The cache follows the chain\<close>

text \<open>
  The liquidity and price of a pool on the chain change only in blocks that have a log of it. The scanner asks
  for the logs of the cached pools.
\<close>

type_synonym chain_state = "nat \<Rightarrow> string \<Rightarrow> bigint \<times> bigint"

definition pool_state :: "Pool \<Rightarrow> bigint \<times> bigint" where
  "pool_state p = (pLiquidity p, pSqrtPriceX96 p)"

definition logged :: "(nat \<Rightarrow> LogEntry list) \<Rightarrow> chain_state \<Rightarrow> bool" where
  "logged chain state_at \<longleftrightarrow>
     (\<forall>a m n. m \<le> n \<longrightarrow> (\<forall>k. m < k \<and> k \<le> n \<longrightarrow> a \<notin> touched (set (chain k))) \<longrightarrow> state_at n a = state_at m a)"

definition logs_for :: "string list \<Rightarrow> (nat \<Rightarrow> LogEntry list) \<Rightarrow> nat \<Rightarrow> LogEntry list" where
  "logs_for addrs chain n = filter (\<lambda>l. to_lower (lAddress l) \<in> to_lower ` set addrs) (chain n)"

definition answers_from :: "(nat \<Rightarrow> LogEntry list) \<Rightarrow> 'w Discoverer \<Rightarrow> bool" where
  "answers_from chain d \<longleftrightarrow> unat (getLogsChunkSize d) \<le> 10000
     \<and> (\<exists>call. GetLogs (dCaller d) = Some call \<and> (\<forall>addrs. logs_of_chain (logs_for addrs chain) (call addrs)))"

text \<open>What the refresh of a pool at a block delivers: the pool with the state of that block, or an error.\<close>

definition delivered_at :: "chain_state \<Rightarrow> pool_cache \<Rightarrow> u64 \<Rightarrow> delivery \<Rightarrow> bool" where
  "delivered_at state_at cache b = (\<lambda>(before, r, cancelled).
     cache (pAddress before) = Some before
     \<and> (case r of
          Inl _ \<Rightarrow> True
        | Inr after \<Rightarrow> pAddress after = pAddress before \<and> pLastUpdatedBlock after = b
            \<and> pool_state after = state_at (unat b) (pAddress before)))"

inductive sync_step :: "keccak \<Rightarrow> 'w Discoverer \<Rightarrow> chain_state \<Rightarrow> SyncState \<times> pool_cache \<Rightarrow> SyncState \<times> pool_cache \<Rightarrow> bool"
  for kk d state_at where
  scan: "set current = ran cache \<Longrightarrow> advanceMarketStateSync kk d latest opts current st w = (s, st', w') \<Longrightarrow>
    sync_step kk d state_at (st, cache) (st', cache)"
| cycle: "list_all (delivered_at state_at cache b) deliveries \<Longrightarrow> distinct (map fst deliveries) \<Longrightarrow>
    dirtyScanBlock st \<le> b \<Longrightarrow>
    refreshKnownDirty current (pendingDirtySnapshot st) deliveries cache = (dirty, stats, cache') \<Longrightarrow>
    sync_step kk d state_at (st, cache)
      (commit_block b (rsMarketStateIncomplete stats) (ackPendingDirty (rsResolvedDirty stats) (rsUnresolvedDirty stats) st), cache')"
| cancelled: "list_all (delivered_at state_at cache b) deliveries \<Longrightarrow> distinct (map fst deliveries) \<Longrightarrow>
    dirtyScanBlock st \<le> b \<Longrightarrow>
    refreshKnownDirty current (pendingDirtySnapshot st) deliveries cache = (dirty, stats, cache') \<Longrightarrow>
    sync_step kk d state_at (st, cache) (st, cache')"

text \<open>
  The invariant: a cached pool that is not pending has a state of the chain at or after the watermark.
\<close>

definition cache_ok :: "chain_state \<Rightarrow> pool_cache \<Rightarrow> bool" where
  "cache_ok state_at cache \<longleftrightarrow>
     (\<forall>a p. cache a = Some p \<longrightarrow> pAddress p = a \<and> to_lower a = a \<and> a \<noteq> []
        \<and> pool_state p = state_at (unat (pLastUpdatedBlock p)) a)"

definition current_at :: "chain_state \<Rightarrow> nat \<Rightarrow> string \<Rightarrow> Pool \<Rightarrow> bool" where
  "current_at state_at n a p \<longleftrightarrow> (\<exists>m\<ge>n. pool_state p = state_at m a)"

definition sync_inv :: "(nat \<Rightarrow> LogEntry list) \<Rightarrow> chain_state \<Rightarrow> 'w Discoverer \<Rightarrow> SyncState \<times> pool_cache \<Rightarrow> bool" where
  "sync_inv chain state_at d = (\<lambda>(st, cache).
     logged chain state_at \<and> answers_from chain d \<and> 0 < dirtyScanBlock st \<and> cache_ok state_at cache
     \<and> (\<forall>a p. cache a = Some p \<longrightarrow> a \<notin> pendingDirty st \<longrightarrow> current_at state_at (unat (dirtyScanBlock st)) a p))"

lemma cache_okD:
  "cache_ok state_at cache \<Longrightarrow> cache a = Some p \<Longrightarrow>
     pAddress p = a \<and> to_lower a = a \<and> a \<noteq> [] \<and> pool_state p = state_at (unat (pLastUpdatedBlock p)) a"
  unfolding cache_ok_def by blast

lemma current_at_mono: "current_at state_at n a p \<Longrightarrow> n' \<le> n \<Longrightarrow> current_at state_at n' a p"
  by (auto simp: current_at_def intro: order_trans)

lemma current_at_advance:
  assumes "logged chain state_at" "current_at state_at n a p" "\<forall>k. n < k \<and> k \<le> n' \<longrightarrow> a \<notin> touched (set (chain k))"
  shows "current_at state_at n' a p"
proof -
  obtain m where m: "n \<le> m" "pool_state p = state_at m a" using assms(2) by (auto simp: current_at_def)
  show ?thesis
  proof (cases "n' \<le> m")
    case False
    then have "state_at n' a = state_at m a"
      using assms(1,3) m(1) unfolding logged_def by (meson le_less_trans nat_le_linear)
    then show ?thesis using m(2) by (auto simp: current_at_def)
  qed (use m in \<open>auto simp: current_at_def\<close>)
qed

lemma known_result_step:
  assumes del: "delivered_at state_at cache b (before, r, cancelled)" and ok: "cache_ok state_at cache"
    and res: "known_result (before, r, cancelled) (dirty, stats, cache) = (dirty', stats', cache')"
  shows "cache_ok state_at cache' \<and> (\<forall>a. a \<noteq> pAddress before \<longrightarrow> cache' a = cache a)
    \<and> (\<forall>p. cache' (pAddress before) = Some p \<longrightarrow> p = before \<or> current_at state_at (unat b) (pAddress before) p)
    \<and> rsResolvedDirty stats' \<subseteq> insert (pAddress before) (rsResolvedDirty stats)
    \<and> (rsResolvedDirty stats' = rsResolvedDirty stats
       \<or> (\<forall>p. cache' (pAddress before) = Some p \<longrightarrow> current_at state_at (unat b) (pAddress before) p))"
proof -
  let ?a = "pAddress before"
  have before: "cache ?a = Some before" "to_lower ?a = ?a" "?a \<noteq> []"
    "pool_state before = state_at (unat (pLastUpdatedBlock before)) ?a"
    using del ok by (auto simp: delivered_at_def cache_ok_def)
  show ?thesis
  proof (cases r)
    case (Inl err)
    then show ?thesis using res ok before(1) by (auto simp: known_result_def Let_def)
  next
    case (Inr after)
    have after: "pAddress after = ?a" "pLastUpdatedBlock after = b" "pool_state after = state_at (unat b) ?a"
      using del Inr by (auto simp: delivered_at_def)
    let ?after = "if poolChanged before after then after else after\<lparr>pLastUpdatedBlock := pLastUpdatedBlock before\<rparr>"
    have c': "cache' = Put ?after cache" and r': "rsResolvedDirty stats' = insert ?a (rsResolvedDirty stats)"
      using res Inr before after by (auto simp: known_result_def Let_def name_set_def)
    have cur: "current_at state_at (unat b) ?a p" if "cache' ?a = Some p" for p
    proof (cases "poolChanged before after")
      case True
      then have "p = (if pLastUpdatedBlock before \<le> b then after else before)"
        using that c' before(1) after by (auto simp: Put_def split: if_splits)
      moreover have "unat b \<le> unat (pLastUpdatedBlock before)" if "\<not> pLastUpdatedBlock before \<le> b"
        using that by (simp add: word_le_nat_alt)
      ultimately show ?thesis using after(3) before(4) unfolding current_at_def by (cases "pLastUpdatedBlock before \<le> b") auto
    next
      case False
      then have "p = after\<lparr>pLastUpdatedBlock := pLastUpdatedBlock before\<rparr>"
        using that c' before(1) after by (auto simp: Put_def)
      then show ?thesis using after(3) by (auto simp: current_at_def pool_state_def)
    qed
    have at: "pAddress p = ?a \<and> pool_state p = state_at (unat (pLastUpdatedBlock p)) ?a" if "cache' ?a = Some p" for p
    proof (cases "poolChanged before after")
      case True
      then have "p = (if pLastUpdatedBlock before \<le> b then after else before)"
        using that c' before(1) after by (auto simp: Put_def split: if_splits)
      then show ?thesis using after before(4) by auto
    next
      case False
      then have "p = after\<lparr>pLastUpdatedBlock := pLastUpdatedBlock before\<rparr>"
        using that c' before(1) after by (auto simp: Put_def)
      then show ?thesis using False after(1) before(4) by (auto simp: pool_state_def poolChanged_def)
    qed
    have other: "cache' a = cache a" if "a \<noteq> ?a" for a
      using that c' after(1) by (auto simp: Put_def split: option.splits)
    have "cache_ok state_at cache'"
      unfolding cache_ok_def
    proof (intro allI impI)
      fix a p
      assume "cache' a = Some p"
      note p = this
      show "pAddress p = a \<and> to_lower a = a \<and> a \<noteq> [] \<and> pool_state p = state_at (unat (pLastUpdatedBlock p)) a"
      proof (cases "a = ?a")
        case True
        then show ?thesis using at [of p] p before(2,3) by simp
      next
        case False
        then have "cache a = Some p" using other [OF False] p by simp
        from cache_okD [OF ok this] show ?thesis .
      qed
    qed
    with other cur r' show ?thesis by auto
  qed
qed

lemma delivered_other:
  assumes "delivered_at state_at cache b x" "pAddress (fst x) \<noteq> a" "\<forall>c. c \<noteq> a \<longrightarrow> cache' c = cache c"
  shows "delivered_at state_at cache' b x"
  using assms by (auto simp: delivered_at_def split: prod.splits sum.splits)

lemma delivered_cached: "delivered_at state_at cache b y \<Longrightarrow> cache (pAddress (fst y)) = Some (fst y)"
  by (cases y) (simp add: delivered_at_def)

lemma known_fold:
  assumes "list_all (delivered_at state_at cache b) ds" "distinct (map fst ds)" "cache_ok state_at cache"
    "fold known_result ds (dirty, stats, cache) = (dirty', stats', cache')"
  shows "cache_ok state_at cache'
    \<and> (\<forall>a p. cache' a = Some p \<longrightarrow> cache a = Some p \<or> current_at state_at (unat b) a p)
    \<and> (\<forall>a\<in>rsResolvedDirty stats'. a \<in> rsResolvedDirty stats
         \<or> to_lower a = a \<and> (\<forall>p. cache' a = Some p \<longrightarrow> current_at state_at (unat b) a p))"
  using assms
proof (induction ds arbitrary: dirty stats cache)
  case (Cons x ds)
  obtain before r cancelled where x: "x = (before, r, cancelled)" by (metis prod.exhaust)
  obtain dirty1 stats1 cache1 where k: "known_result x (dirty, stats, cache) = (dirty1, stats1, cache1)"
    by (metis prod.exhaust)
  let ?a = "pAddress before"
  have del: "delivered_at state_at cache b (before, r, cancelled)" using Cons.prems(1) x by simp
  have at: "cache ?a = Some before" using del by (simp add: delivered_at_def)
  have low: "to_lower ?a = ?a" using cache_okD [OF Cons.prems(3) at] by simp
  note ks0 = known_result_step [OF del Cons.prems(3) k [unfolded x]]
  have ks: "cache_ok state_at cache1" "\<forall>a. a \<noteq> ?a \<longrightarrow> cache1 a = cache a"
    "\<forall>p. cache1 ?a = Some p \<longrightarrow> p = before \<or> current_at state_at (unat b) ?a p"
    "rsResolvedDirty stats1 \<subseteq> insert ?a (rsResolvedDirty stats)"
    "rsResolvedDirty stats1 = rsResolvedDirty stats \<or> (\<forall>p. cache1 ?a = Some p \<longrightarrow> current_at state_at (unat b) ?a p)"
    using ks0 by - (elim conjE, assumption)+
  have "pAddress (fst y) \<noteq> ?a" if "y \<in> set ds" for y
  proof
    assume eq: "pAddress (fst y) = ?a"
    have "cache (pAddress (fst y)) = Some (fst y)" using Cons.prems(1) that by (intro delivered_cached) (auto simp: list_all_iff)
    then have "fst y = before" using at unfolding eq by (metis option.inject)
    moreover have "before \<notin> fst ` set ds" using Cons.prems(2) x by simp
    ultimately show False using imageI [OF that, of fst] by simp
  qed
  then have rest: "list_all (delivered_at state_at cache1 b) ds"
    using Cons.prems(1) delivered_other [OF _ _ ks(2)] unfolding list_all_iff list.set by blast
  have ih: "cache_ok state_at cache'"
    "\<forall>a p. cache' a = Some p \<longrightarrow> cache1 a = Some p \<or> current_at state_at (unat b) a p"
    "\<forall>a\<in>rsResolvedDirty stats'. a \<in> rsResolvedDirty stats1
       \<or> to_lower a = a \<and> (\<forall>p. cache' a = Some p \<longrightarrow> current_at state_at (unat b) a p)"
    using Cons.IH [OF rest _ ks(1)] Cons.prems(2,4) k by auto
  have "cache a = Some p \<or> current_at state_at (unat b) a p" if "cache' a = Some p" for a p
    using ih(2) ks(2,3) at that by metis
  moreover have "a \<in> rsResolvedDirty stats \<or> to_lower a = a \<and> (\<forall>p. cache' a = Some p \<longrightarrow> current_at state_at (unat b) a p)"
    if "a \<in> rsResolvedDirty stats'" for a
    using ih(2,3) ks(4,5) low that by blast
  ultimately show ?case using ih(1) by blast
qed auto

lemma refreshKnownDirty_ok:
  assumes "list_all (delivered_at state_at cache b) ds" "distinct (map fst ds)" "cache_ok state_at cache"
    "refreshKnownDirty current pending ds cache = (dirty', stats', cache')"
  shows "cache_ok state_at cache'
    \<and> (\<forall>a p. cache' a = Some p \<longrightarrow> cache a = Some p \<or> current_at state_at (unat b) a p)
    \<and> (\<forall>a\<in>rsResolvedDirty stats'. to_lower a = a \<and> (\<forall>p. cache' a = Some p \<longrightarrow> current_at state_at (unat b) a p))"
proof (cases "current = [] \<or> pending = {} \<or> poolsByAddress current pending = []")
  case True
  then show ?thesis using assms by (auto simp: refreshKnownDirty_def no_refresh_def)
next
  case False
  then have "fold known_result ds (pending, no_refresh, cache) = (dirty', stats', cache')"
    using assms(4) by (simp add: refreshKnownDirty_def)
  from known_fold [OF assms(1-3) this] show ?thesis by (auto simp: no_refresh_def)
qed

lemma commit_block_fields [simp]:
  "pendingDirty (commit_block b i st) = pendingDirty st" "dirtyScanBlock (commit_block b i st) = dirtyScanBlock st"
  by (simp_all add: commit_block_def setLastStateBlock_def)

lemma touched_logs_for:
  assumes "a \<in> touched (set (chain k))" "a \<in> to_lower ` set addrs"
  shows "a \<in> touched (set (logs_for addrs chain k))"
  using assms by (auto simp: touched_def logs_for_def)

lemma sync_inv_scan:
  assumes inv: "sync_inv chain state_at d (st, cache)" and cur: "set current = ran cache"
    and adv: "advanceMarketStateSync kk d latest opts current st w = (s, st', w')"
  shows "sync_inv chain state_at d (st', cache)"
proof (cases "current = []")
  case True
  then have "st' = storeMarketSyncSnapshot s st"
    using adv by (auto simp: advanceMarketStateSync_def advance_with_def Let_def)
  then show ?thesis using inv by (simp add: sync_inv_def)
next
  case False
  let ?addrs = "map pAddress current"
  have inv': "logged chain state_at" "answers_from chain d" "0 < dirtyScanBlock st" "cache_ok state_at cache"
    "\<forall>a p. cache a = Some p \<longrightarrow> a \<notin> pendingDirty st \<longrightarrow> current_at state_at (unat (dirtyScanBlock st)) a p"
    using inv by (auto simp: sync_inv_def)
  have D: "unat (dirtyScanBlock st) \<le> unat (dirtyScanBlock st')"
    and P: "pendingDirty st' = pendingDirty st \<union> touched (\<Union>n\<in>{Suc (unat (dirtyScanBlock st)) .. unat (dirtyScanBlock st')}.
      set (logs_for ?addrs chain n))"
    using pool_scanner.advance_exact [of "(kk, d)" ?addrs "logs_for ?addrs chain" st latest opts w s st' w'] adv False inv'(2,3)
    by (auto simp: advanceMarketStateSync_def answers_from_def)
  have "current_at state_at (unat (dirtyScanBlock st')) a p" if "cache a = Some p" "a \<notin> pendingDirty st'" for a p
  proof (rule current_at_advance [OF inv'(1)])
    show "current_at state_at (unat (dirtyScanBlock st)) a p" using inv'(5) that P by blast
    have "pAddress p = a" "to_lower a = a" using inv'(4) that(1) by (auto simp: cache_ok_def)
    then have "a \<in> to_lower ` set ?addrs" using that(1) cur by (force simp: ran_def image_iff)
    then show "\<forall>k. unat (dirtyScanBlock st) < k \<and> k \<le> unat (dirtyScanBlock st') \<longrightarrow> a \<notin> touched (set (chain k))"
      using that(2) P touched_logs_for [of a chain _ ?addrs] by (fastforce simp: touched_def)
  qed
  then show ?thesis using inv' D by (auto simp: sync_inv_def word_less_nat_alt)
qed

lemma sync_inv_step:
  assumes "sync_inv chain state_at d s" "sync_step kk d state_at s t"
  shows "sync_inv chain state_at d t"
  using assms(2)
proof cases
  case (scan current cache latest opts st w s' st' w')
  then show ?thesis using sync_inv_scan [OF _ scan(3,4), of chain state_at] assms(1) by simp
next
  case (cycle cache b deliveries st current dirty stats cache')
  have b: "unat (dirtyScanBlock st) \<le> unat b" using cycle by (simp add: word_le_nat_alt)
  have ok: "cache_ok state_at cache" using assms(1) cycle(1) by (auto simp: sync_inv_def)
  note r = refreshKnownDirty_ok [OF cycle(3,4) ok cycle(6)]
  have "current_at state_at (unat (dirtyScanBlock st)) a p"
    if "cache' a = Some p" "a \<notin> pendingDirty st - (to_lower ` rsResolvedDirty stats - rsUnresolvedDirty stats)" for a p
    using that r assms(1) cycle(1) b by (fastforce simp: sync_inv_def intro: current_at_mono)
  then show ?thesis using assms(1) cycle(1,2) r by (auto simp: sync_inv_def ackPendingDirty_def)
next
  case (cancelled cache b deliveries st current dirty stats cache')
  have b: "unat (dirtyScanBlock st) \<le> unat b" using cancelled by (simp add: word_le_nat_alt)
  have ok: "cache_ok state_at cache" using assms(1) cancelled(1) by (auto simp: sync_inv_def)
  note r = refreshKnownDirty_ok [OF cancelled(3,4) ok cancelled(6)]
  show ?thesis using assms(1) cancelled(1,2) r b by (fastforce simp: sync_inv_def intro: current_at_mono)
qed

definition sync_init :: "(nat \<Rightarrow> LogEntry list) \<Rightarrow> chain_state \<Rightarrow> 'w Discoverer \<Rightarrow> SyncState \<times> pool_cache \<Rightarrow> bool" where
  "sync_init chain state_at d = (\<lambda>(st, cache).
     logged chain state_at \<and> answers_from chain d \<and> 0 < dirtyScanBlock st \<and> cache_ok state_at cache
     \<and> (\<forall>a p. cache a = Some p \<longrightarrow> dirtyScanBlock st \<le> pLastUpdatedBlock p))"

lemma sync_inv_init: "sync_init chain state_at d s \<Longrightarrow> sync_inv chain state_at d s"
  by (cases s) (auto simp: sync_init_def sync_inv_def current_at_def word_le_nat_alt dest: cache_okD)

interpretation sync_system: step_system "sync_init chain state_at d" "sync_step kk d state_at" "sync_inv chain state_at d"
  by unfold_locales (auto intro: sync_inv_init sync_inv_step)


definition quiet_discoverer :: "unit Discoverer" where
  "quiet_discoverer = demo_discoverer\<lparr>dCaller := demo_caller\<lparr>GetLogs := Some (\<lambda>_ _ _ w. (Inr [], w))\<rparr>\<rparr>"

definition quiet_pool :: Pool where
  "quiet_pool = \<lparr>pAddress = ''0xa'', pToken0 = ''0x1'', pToken1 = ''0x2'', pDEX = UniswapV3, pFee = 500, pLiquidity = Some 7,
     pSqrtPriceX96 = Some 9, pLastUpdatedBlock = 10\<rparr>"

definition quiet_state :: SyncState where
  "quiet_state = \<lparr>dirtyScanBlock = 10, pendingDirty = {}, syncRunning = True, syncLast = empty_snapshot, lastStateBlock = 0\<rparr>"


text \<open>
  The guard of the cycle step matters: the scanner may be ahead of the block at which a cycle reads. A pool that
  changed after that block is then read unchanged, acknowledged, and neither pending nor current.
\<close>

lemma ack_behind_watermark_loses_change:
  assumes "cache (pAddress p) = Some p" "to_lower (pAddress p) \<in> pendingDirty st" "pAddress p \<noteq> []"
    and "refreshKnownDirty [p] (pendingDirtySnapshot st) [(p, Inr (p\<lparr>pLastUpdatedBlock := b\<rparr>), False)] cache = (dirty, stats, cache')"
  shows "to_lower (pAddress p) \<notin> pendingDirty (ackPendingDirty (rsResolvedDirty stats) (rsUnresolvedDirty stats) st)
    \<and> cache' (pAddress p) = Some p"
proof -
  have ne: "to_lower (pAddress p) \<noteq> []" using assms(3) by simp
  have "poolsByAddress [p] (pendingDirty st) = [p]" using assms(2) by (simp add: poolsByAddress_def)
  moreover have "pendingDirty st \<noteq> {}" using assms(2) by auto
  ultimately have "known_result (p, Inr (p\<lparr>pLastUpdatedBlock := b\<rparr>), False) (pendingDirty st, no_refresh, cache) = (dirty, stats, cache')"
    using assms(4) by (simp add: refreshKnownDirty_def pendingDirtySnapshot_def)
  then have "rsResolvedDirty stats = {to_lower (pAddress p)}" "rsUnresolvedDirty stats = {}" "cache' = Put p cache"
    using ne by (auto simp: known_result_def poolChanged_def no_refresh_def name_set_def Let_def)
  then show ?thesis using assms(1) by (auto simp: ackPendingDirty_def Put_def)
qed

end
