(* ===== verification/MarketReconcile.thy ===== *)
theory MarketReconcile
  imports MarketSync Routes Config "HOL-Library.AList"
begin

text \<open>
  \<open>go/internal/market/engine.go\<close>, the market universe of the engine: staging and applying a new market
  configuration, the checkpointed reconciliation that rediscovers the pools a few jobs at a time and commits
  pool cache and route cache together, and the older concurrent \<open>fullReconcile\<close>. A Go map that is only iterated
  is an association list with distinct keys; the snapshot of the pool cache is an argument (its order is not fixed).
  Metrics, durations and RPC counts are left out.
\<close>

section \<open>Engine state\<close>

record ReconcileJob =
  jFrom :: string
  jTo :: string
  jDEX :: DEX
  jFee :: u32

record ReconcileState =
  rcJobs :: "ReconcileJob list"
  rcNext :: nat
  rcByPair :: by_pair
  rcDiscovered :: "(string \<times> Pool) list"
  rcMaxHops :: int
  rcMaxRoutes :: int
  rcBatches :: u64
  rcFailures :: nat

record EngineState =
  eMarket :: MarketConfig
  eEvaluatorMarket :: "MarketConfig option"
  eCache :: pool_cache
  eAmounts :: "(string \<times> bigint) list"
  eRouteCache :: "Route list"
  eUniverseAssets :: "string list"
  eCyclesSinceFull :: u64
  eLastMaxHops :: int
  eLastMaxRoutes :: int
  ePendingMarket :: "MarketConfig option"
  ePendingPairKeys :: "string set"
  ePendingDynamic :: "string set"
  eLivePairKeys :: "string set"
  eLiveDynamic :: "string set"
  eExecutionAssets :: "string list"
  eForceFull :: bool
  eCrossVenueShareBPS :: int
  eReconciliation :: "ReconcileState option"
  eForceEvaluateNext :: bool

text \<open>The amounts that \<open>NewWithAmounts\<close> keeps: configured assets with a positive loan.\<close>

definition valid_amounts :: "MarketConfig \<Rightarrow> (string \<times> bigint) list \<Rightarrow> (string \<times> bigint) list" where
  "valid_amounts market amounts = filter (\<lambda>(symbol, amount). token market symbol \<noteq> None \<and> big_pos amount) amounts"

definition NewWithAmounts :: "MarketConfig \<Rightarrow> bool \<Rightarrow> pool_cache \<Rightarrow> (string \<times> bigint) list \<Rightarrow> EngineState" where
  "NewWithAmounts market evaluator cache amounts =
     \<lparr>eMarket = market, eEvaluatorMarket = (if evaluator then Some market else None), eCache = cache,
      eAmounts = valid_amounts market amounts,
      eRouteCache = [], eUniverseAssets = MarketAssets market, eCyclesSinceFull = 0, eLastMaxHops = 0, eLastMaxRoutes = 0,
      ePendingMarket = None, ePendingPairKeys = {}, ePendingDynamic = {}, eLivePairKeys = {}, eLiveDynamic = {},
      eExecutionAssets = mExecutionAssetNames market, eForceFull = False, eCrossVenueShareBPS = 0,
      eReconciliation = None, eForceEvaluateNext = False\<rparr>"

definition New :: "MarketConfig \<Rightarrow> bool \<Rightarrow> pool_cache \<Rightarrow> bigint \<Rightarrow> EngineState" where
  "New market evaluator cache amount =
     NewWithAmounts market evaluator cache
       (if amount \<noteq> None \<and> mBaseAsset market \<noteq> '''' then [(mBaseAsset market, amount)] else [])"

section \<open>Market configuration\<close>

definition QueueLiveMarket :: "MarketConfig \<Rightarrow> string list \<Rightarrow> string list \<Rightarrow> EngineState \<Rightarrow> EngineState" where
  "QueueLiveMarket next pairKeys dynamicSymbols e =
     e\<lparr>ePendingMarket := Some (next\<lparr>mExecutionAssetNames := eExecutionAssets e\<rparr>),
       ePendingPairKeys := (\<lambda>key. to_lower (trim_space key)) ` set pairKeys,
       ePendingDynamic := set dynamicSymbols\<rparr>"

definition QueueMarketConfig :: "MarketConfig \<Rightarrow> EngineState \<Rightarrow> EngineState" where
  "QueueMarketConfig next e = QueueLiveMarket next [] [] e"

definition SetPairRouting :: "int \<Rightarrow> EngineState \<Rightarrow> EngineState" where
  "SetPairRouting crossVenueShareBPS e =
     e\<lparr>eCrossVenueShareBPS := (if crossVenueShareBPS < 0 then 0 else if crossVenueShareBPS > 10000 then 10000
                               else crossVenueShareBPS)\<rparr>"

definition stringSetEqual :: "string set \<Rightarrow> string set \<Rightarrow> bool" where
  "stringSetEqual a b \<longleftrightarrow> card a = card b \<and> (\<forall>key\<in>a. key \<in> b)"

text \<open>\<open>reflect.DeepEqual\<close> of two market configurations; the token tables are compared as maps.\<close>

definition market_equal :: "MarketConfig \<Rightarrow> MarketConfig \<Rightarrow> bool" where
  "market_equal m n \<longleftrightarrow> m\<lparr>mTokens := []\<rparr> = n\<lparr>mTokens := []\<rparr> \<and> length (mTokens m) = length (mTokens n)
     \<and> list_all (\<lambda>(name, t). token n name = Some t) (mTokens m)"

definition applyPendingMarket :: "EngineState \<Rightarrow> bool \<times> EngineState" where
  "applyPendingMarket e =
     (let pairKeys = ePendingPairKeys e; dynamic = ePendingDynamic e;
          e1 = e\<lparr>ePendingMarket := None, ePendingPairKeys := {}, ePendingDynamic := {}\<rparr>
      in case ePendingMarket e of
           None \<Rightarrow> (False, e1)
         | Some next \<Rightarrow>
             if market_equal (eMarket e) next \<and> stringSetEqual (eLivePairKeys e) pairKeys
                \<and> stringSetEqual (eLiveDynamic e) dynamic then (False, e1)
             else (True, e1\<lparr>eMarket := next, eLivePairKeys := pairKeys, eLiveDynamic := dynamic,
                            eEvaluatorMarket := (if eEvaluatorMarket e = None then None else Some next),
                            eUniverseAssets := MarketAssets next, eForceFull := True\<rparr>))"

definition canonicalAddressPair :: "string \<Rightarrow> string \<Rightarrow> string" where
  "canonicalAddressPair a b =
     (let a1 = to_lower (trim_space a); b1 = to_lower (trim_space b)
      in if b1 < a1 then b1 @ '':'' @ a1 else a1 @ '':'' @ b1)"

definition marketPairAllowed :: "EngineState \<Rightarrow> string \<Rightarrow> string \<Rightarrow> bool" where
  "marketPairAllowed e from to =
     (if from \<notin> eLiveDynamic e \<and> to \<notin> eLiveDynamic e then True
      else case (token (eMarket e) from, token (eMarket e) to) of
             (Some a, Some b) \<Rightarrow> canonicalAddressPair (tAddress a) (tAddress b) \<in> eLivePairKeys e
           | _ \<Rightarrow> False)"

definition loanAssets :: "EngineState \<Rightarrow> string list" where
  "loanAssets e =
     (let assets = sort (map fst (filter (\<lambda>(asset, amount). big_pos amount) (eAmounts e)))
      in if assets = [] then ExecutionAssets (eMarket e) else assets)"

section \<open>Reconciliation\<close>

text \<open>The two nested loops over \<open>symbols\<close>: every unordered pair once.\<close>

fun market_pairs :: "string list \<Rightarrow> (string \<times> string) list" where
  "market_pairs [] = []"
| "market_pairs (from # symbols) = map (\<lambda>to. (from, to)) symbols @ market_pairs symbols"

definition mk_job :: "string \<Rightarrow> string \<Rightarrow> DEX \<Rightarrow> u32 \<Rightarrow> ReconcileJob" where
  "mk_job from to dex fee = \<lparr>jFrom = from, jTo = to, jDEX = dex, jFee = fee\<rparr>"

definition pair_jobs :: "u32 list \<Rightarrow> EngineState \<Rightarrow> string \<times> string \<Rightarrow> ReconcileJob list" where
  "pair_jobs fees e = (\<lambda>(from, to).
     if marketPairAllowed e from to
     then map (mk_job from to UniswapV3) fees @ [mk_job from to CamelotV3 0] else [])"

definition startReconciliation :: "u32 list \<Rightarrow> int \<Rightarrow> int \<Rightarrow> EngineState \<Rightarrow> EngineState" where
  "startReconciliation fees maxHops maxRoutes e =
     e\<lparr>eReconciliation := Some \<lparr>rcJobs = concat (map (pair_jobs fees e) (market_pairs (MarketAssets (eMarket e)))),
         rcNext = 0, rcByPair = (\<lambda>_. []), rcDiscovered = [], rcMaxHops = maxHops, rcMaxRoutes = maxRoutes,
         rcBatches = 0, rcFailures = 0\<rparr>\<rparr>"

record ReconcileReport =
  rrPending :: bool
  rrBatchSize :: int
  rrUnitsDone :: nat
  rrUnitsTotal :: nat
  rrUnitsThisCycle :: nat
  rrFailures :: nat
  rrError :: bool
  rrCompleted :: bool
  rrFullReconcile :: bool
  rrFailedUnits :: nat
  rrDiscoveredPools :: nat
  rrGeneratedRoutes :: nat
  rrRouteCacheReady :: bool
  rrRouteCacheSize :: nat

definition reconciliationUnitsDone :: "ReconcileState option \<Rightarrow> nat" where
  "reconciliationUnitsDone st = (case st of None \<Rightarrow> 0 | Some s \<Rightarrow> rcNext s)"

definition reconciliationUnitsTotal :: "ReconcileState option \<Rightarrow> nat" where
  "reconciliationUnitsTotal st = (case st of None \<Rightarrow> 0 | Some s \<Rightarrow> length (rcJobs s))"

definition describeReconciliation :: "EngineState \<Rightarrow> ReconcileReport \<Rightarrow> ReconcileReport" where
  "describeReconciliation e report =
     (case eReconciliation e of
        None \<Rightarrow> report
      | Some st \<Rightarrow> report\<lparr>rrPending := True, rrUnitsDone := rcNext st, rrUnitsTotal := length (rcJobs st),
                          rrFailures := rcFailures st\<rparr>)"

definition record_pool :: "Pool \<Rightarrow> (string \<times> Pool) list \<Rightarrow> (string \<times> Pool) list" where
  "record_pool p m = AList.update (to_lower (pAddress p)) p m"

definition append_to :: "string \<times> string \<Rightarrow> Pool list \<Rightarrow> by_pair \<Rightarrow> by_pair" where
  "append_to pair found byPair = byPair(pair := byPair pair @ found)"

definition add_found :: "ReconcileJob \<Rightarrow> Pool list \<Rightarrow> ReconcileState \<Rightarrow> ReconcileState" where
  "add_found job found st =
     (let pair = (jFrom job, jTo job); reverse = (jTo job, jFrom job)
      in st\<lparr>rcByPair := append_to reverse found (append_to pair found (rcByPair st)),
            rcDiscovered := fold record_pool found (rcDiscovered st),
            rcNext := rcNext st + 1\<rparr>)"

text \<open>One job: whether the batch stops (its context has expired), whether an error was seen, and the new checkpoint.\<close>

definition run_job :: "keccak \<Rightarrow> 'w Discoverer \<Rightarrow> ('w \<Rightarrow> bool) \<Rightarrow> MarketConfig \<Rightarrow> u64 \<Rightarrow> ReconcileJob \<Rightarrow> ReconcileState \<Rightarrow> 'w
    \<Rightarrow> (bool \<times> bool \<times> ReconcileState) \<times> 'w" where
  "run_job kk d expired market stateBlock job st w =
     (case (token market (jFrom job), token market (jTo job)) of
        (Some a, Some b) \<Rightarrow>
          (case (if jDEX job = UniswapV3 then DiscoverUniswapFeeAt kk d (tAddress a) (tAddress b) (jFee job) stateBlock
                 else DiscoverCamelotPairAt kk d (tAddress a) (tAddress b) stateBlock) w of
             (Inl err, w1) \<Rightarrow>
               if expired w1 then ((True, True, st), w1)
               else ((False, True, st\<lparr>rcFailures := rcFailures st + 1, rcNext := rcNext st + 1\<rparr>), w1)
           | (Inr found, w1) \<Rightarrow> ((False, False, add_found job found st), w1))
      | _ \<Rightarrow> ((False, False, st\<lparr>rcNext := rcNext st + 1\<rparr>), w))"

fun run_jobs :: "keccak \<Rightarrow> 'w Discoverer \<Rightarrow> ('w \<Rightarrow> bool) \<Rightarrow> MarketConfig \<Rightarrow> u64 \<Rightarrow> int \<Rightarrow> ReconcileJob list \<Rightarrow> nat \<Rightarrow> bool
    \<Rightarrow> ReconcileState \<Rightarrow> 'w \<Rightarrow> (nat \<times> bool \<times> ReconcileState) \<times> 'w" where
  "run_jobs kk d expired market stateBlock batchSize [] processed err st w = ((processed, err, st), w)"
| "run_jobs kk d expired market stateBlock batchSize (job # jobs) processed err st w =
     (if int processed < batchSize
      then case run_job kk d expired market stateBlock job st w of
             ((stop, err1, st1), w1) \<Rightarrow>
               if stop then ((processed, err \<or> err1, st1), w1)
               else run_jobs kk d expired market stateBlock batchSize jobs (processed + 1) (err \<or> err1) st1 w1
      else ((processed, err, st), w))"

text \<open>The commit: the newest known version of every discovered pool, in address order.\<close>

definition newest :: "Pool list \<Rightarrow> string \<times> Pool \<Rightarrow> Pool" where
  "newest snapshot = (\<lambda>(address, pool).
     case fold (\<lambda>p m. m(to_lower (pAddress p) \<mapsto> p)) snapshot Map.empty address of
       Some newer \<Rightarrow> if pLastUpdatedBlock newer > pLastUpdatedBlock pool then newer else pool
     | None \<Rightarrow> pool)"

definition reconciled_pools :: "Pool list \<Rightarrow> ReconcileState \<Rightarrow> Pool list" where
  "reconciled_pools snapshot st =
     sort_slice (\<lambda>a b. to_lower (pAddress a) < to_lower (pAddress b)) (map (newest snapshot) (rcDiscovered st))"

definition reconciled_routes :: "EngineState \<Rightarrow> by_pair \<Rightarrow> int \<Rightarrow> int \<Rightarrow> Route list" where
  "reconciled_routes e byPair maxHops maxRoutes =
     filter (\<lambda>r. int (length (rHops r)) \<le> maxHops)
       (BuildForStartsWithCrossVenueShare (loanAssets e) (MarketAssets (eMarket e)) byPair maxRoutes
          (eCrossVenueShareBPS e))"

definition commit_reconciliation :: "Pool list \<Rightarrow> ReconcileState \<Rightarrow> EngineState \<Rightarrow> ReconcileReport \<Rightarrow> ReconcileReport \<times> EngineState" where
  "commit_reconciliation snapshot st e report =
     (let discovered = reconciled_pools snapshot st;
          filtered = reconciled_routes e (rcByPair st) (rcMaxHops st) (rcMaxRoutes st)
      in (report\<lparr>rrPending := False, rrCompleted := True, rrFullReconcile := True, rrFailedUnits := rcFailures st,
                 rrDiscoveredPools := length discovered, rrGeneratedRoutes := length filtered,
                 rrRouteCacheReady := (filtered \<noteq> []), rrRouteCacheSize := length filtered\<rparr>,
          e\<lparr>eCache := Replace discovered (eCache e), eRouteCache := filtered, eCyclesSinceFull := 0,
            eLastMaxHops := rcMaxHops st, eLastMaxRoutes := rcMaxRoutes st, eForceFull := False,
            eForceEvaluateNext := True, eReconciliation := None\<rparr>))"

definition advanceReconciliationBatchWithin :: "keccak \<Rightarrow> 'w Discoverer \<Rightarrow> ('w \<Rightarrow> bool) \<Rightarrow> u64 \<Rightarrow> int \<Rightarrow> Pool list
    \<Rightarrow> EngineState \<Rightarrow> ReconcileReport \<Rightarrow> 'w \<Rightarrow> (ReconcileReport \<times> EngineState) \<times> 'w" where
  "advanceReconciliationBatchWithin kk d expired stateBlock batchSize snapshot e report w =
     (case eReconciliation e of
        None \<Rightarrow> ((report, e), w)
      | Some st \<Rightarrow>
          case run_jobs kk d expired (eMarket e) stateBlock (if batchSize < 1 then 1 else batchSize)
                 (drop (rcNext st) (rcJobs st)) 0 False st w of
            ((processed, err, st1), w1) \<Rightarrow>
              let st2 = st1\<lparr>rcBatches := rcBatches st1 + 1\<rparr>;
                  e1 = e\<lparr>eReconciliation := Some st2\<rparr>;
                  report1 = report\<lparr>rrPending := True, rrBatchSize := int processed, rrUnitsDone := rcNext st2,
                              rrUnitsTotal := length (rcJobs st2), rrUnitsThisCycle := processed,
                              rrFailures := rcFailures st2, rrError := (err \<or> rrError report)\<rparr>
              in if rcNext st2 < length (rcJobs st2) then ((report1, e1), w1)
                 else (commit_reconciliation snapshot st2 e1 report1, w1))"

definition advanceReconciliationBatch :: "keccak \<Rightarrow> 'w Discoverer \<Rightarrow> ('w \<Rightarrow> bool) \<Rightarrow> u64 \<Rightarrow> int \<Rightarrow> Pool list
    \<Rightarrow> EngineState \<Rightarrow> ReconcileReport \<Rightarrow> 'w \<Rightarrow> (ReconcileReport \<times> EngineState) \<times> 'w" where
  "advanceReconciliationBatch kk d expired stateBlock batchSize snapshot e report w =
     advanceReconciliationBatchWithin kk d expired stateBlock batchSize snapshot e report w"

definition advanceBackgroundReconciliationBatch :: "keccak \<Rightarrow> 'w Discoverer \<Rightarrow> ('w \<Rightarrow> bool) \<Rightarrow> u64 \<Rightarrow> int \<Rightarrow> Pool list
    \<Rightarrow> EngineState \<Rightarrow> ReconcileReport \<Rightarrow> 'w \<Rightarrow> (ReconcileReport \<times> EngineState) \<times> 'w" where
  "advanceBackgroundReconciliationBatch kk d expired stateBlock batchSize snapshot e report w =
     advanceReconciliationBatchWithin kk d expired stateBlock (if batchSize > 1 then 1 else batchSize) snapshot e report w"

section \<open>The concurrent reconciliation\<close>

text \<open>The collector of \<open>fullReconcile\<close>: worker results \<open>((from, to), result)\<close> in the order of their delivery.\<close>

definition collect_result :: "(string \<times> string) \<times> Pool list result \<Rightarrow> by_pair \<times> Pool list \<times> string option
    \<Rightarrow> by_pair \<times> Pool list \<times> string option" where
  "collect_result = (\<lambda>((from, to), r) (byPair, discovered, firstErr).
     case r of
       Inl err \<Rightarrow> (byPair, discovered, if firstErr = None then Some err else firstErr)
     | Inr found \<Rightarrow> (byPair((from, to) := found, (to, from) := found), discovered @ found, firstErr))"

definition keep_block :: "Pool list \<Rightarrow> Pool \<Rightarrow> Pool" where
  "keep_block snapshot pool =
     (case fold (\<lambda>p m. m(to_lower (pAddress p) \<mapsto> p)) snapshot Map.empty (to_lower (pAddress pool)) of
        Some old \<Rightarrow> if poolChanged old pool then pool else pool\<lparr>pLastUpdatedBlock := pLastUpdatedBlock old\<rparr>
      | None \<Rightarrow> pool)"

definition fullReconcile :: "Pool list \<Rightarrow> ((string \<times> string) \<times> Pool list result) list \<Rightarrow> int \<Rightarrow> int \<Rightarrow> EngineState
    \<Rightarrow> Route list result \<times> EngineState" where
  "fullReconcile snapshot results maxHops maxRoutes e =
     (case fold collect_result results (\<lambda>_. [], [], None) of
        (byPair, discovered, Some err) \<Rightarrow> (Inl err, e)
      | (byPair, discovered, None) \<Rightarrow>
          let e1 = e\<lparr>eCache := Replace (map (keep_block snapshot) discovered) (eCache e)\<rparr>
          in (Inr (reconciled_routes e1 byPair maxHops maxRoutes), e1))"

section \<open>Checkpoints\<close>

text \<open>What a checkpoint keeps: every pool of the pair table is recorded under its address, both directions of a pair
  have the same pools, and the position stays within the job list.\<close>

definition checkpoint_ok :: "ReconcileState \<Rightarrow> bool" where
  "checkpoint_ok st \<longleftrightarrow> rcNext st \<le> length (rcJobs st)
     \<and> distinct (map fst (rcDiscovered st))
     \<and> (\<forall>(a, p)\<in>set (rcDiscovered st). to_lower (pAddress p) = a)
     \<and> (\<forall>pair. \<forall>p\<in>set (rcByPair st pair). to_lower (pAddress p) \<in> fst ` set (rcDiscovered st))
     \<and> (\<forall>a b. rcByPair st (a, b) = rcByPair st (b, a))"

lemma record_pools:
  assumes "distinct (map fst m)" "\<forall>(a, p)\<in>set m. to_lower (pAddress p) = a"
  shows "distinct (map fst (fold record_pool ps m))"
    and "\<forall>(a, p)\<in>set (fold record_pool ps m). to_lower (pAddress p) = a"
    and "fst ` set (fold record_pool ps m) = fst ` set m \<union> (\<lambda>p. to_lower (pAddress p)) ` set ps"
proof -
  have one: "distinct (map fst (record_pool p m)) \<and> (\<forall>(a, p)\<in>set (record_pool p m). to_lower (pAddress p) = a)
      \<and> fst ` set (record_pool p m) = insert (to_lower (pAddress p)) (fst ` set m)"
    if "distinct (map fst m)" "\<forall>(a, p)\<in>set m. to_lower (pAddress p) = a" for p m
  proof -
    have "set (record_pool p m) \<subseteq> insert (to_lower (pAddress p), p) (set m)"
      unfolding record_pool_def by (induction m) auto
    then show ?thesis using that by (auto simp: record_pool_def distinct_update dom_update)
  qed
  have "distinct (map fst (fold record_pool ps m)) \<and> (\<forall>(a, p)\<in>set (fold record_pool ps m). to_lower (pAddress p) = a)
      \<and> fst ` set (fold record_pool ps m) = fst ` set m \<union> (\<lambda>p. to_lower (pAddress p)) ` set ps"
    using assms
  proof (induction ps arbitrary: m)
    case (Cons p ps)
    show ?case using Cons.IH [of "record_pool p m"] one [OF Cons.prems, of p] by auto
  qed simp
  then show "distinct (map fst (fold record_pool ps m))"
    "\<forall>(a, p)\<in>set (fold record_pool ps m). to_lower (pAddress p) = a"
    "fst ` set (fold record_pool ps m) = fst ` set m \<union> (\<lambda>p. to_lower (pAddress p)) ` set ps" by blast+
qed

lemma add_found_fields [simp]:
  "rcNext (add_found job found st) = rcNext st + 1" "rcJobs (add_found job found st) = rcJobs st"
  "rcMaxHops (add_found job found st) = rcMaxHops st" "rcMaxRoutes (add_found job found st) = rcMaxRoutes st"
  "rcDiscovered (add_found job found st) = fold record_pool found (rcDiscovered st)"
  by (simp_all add: add_found_def Let_def)

lemma append_to_apply: "append_to k xs m j = (if j = k then m j @ xs else m j)"
  by (simp add: append_to_def)

lemma append_to_subset: "set (append_to k xs m j) \<subseteq> set (m j) \<union> set xs"
  by (simp add: append_to_apply)

lemma append_both_sym:
  assumes "m (x, y) = m (y, x)"
  shows "append_to (t, f) xs (append_to (f, t) xs m) (x, y) = append_to (t, f) xs (append_to (f, t) xs m) (y, x)"
  unfolding append_to_apply prod.inject using assms by (cases "x = t"; cases "y = f"; cases "x = f"; cases "y = t") simp_all

lemma add_found_table:
  "rcByPair (add_found job found st) =
     append_to (jTo job, jFrom job) found (append_to (jFrom job, jTo job) found (rcByPair st))"
  by (simp add: add_found_def Let_def)

lemma add_found_pair:
  "set (rcByPair (add_found job found st) pair) \<subseteq> set (rcByPair st pair) \<union> set found"
  unfolding add_found_table by (rule order.trans [OF append_to_subset Un_least [OF append_to_subset Un_upper2]])

lemma add_found_sym:
  assumes "\<forall>a b. rcByPair st (a, b) = rcByPair st (b, a)"
  shows "rcByPair (add_found job found st) (x, y) = rcByPair (add_found job found st) (y, x)"
  unfolding add_found_table by (rule append_both_sym) (use assms in blast)

lemma checkpoint_ok_add_found:
  assumes ok: "checkpoint_ok st" and "rcNext st < length (rcJobs st)"
  shows "checkpoint_ok (add_found job found st)"
proof -
  have d: "distinct (map fst (rcDiscovered st))" "\<forall>(a, p)\<in>set (rcDiscovered st). to_lower (pAddress p) = a"
    using ok by (auto simp: checkpoint_ok_def)
  have "\<forall>pair. \<forall>p\<in>set (rcByPair (add_found job found st) pair).
      to_lower (pAddress p) \<in> fst ` set (fold record_pool found (rcDiscovered st))"
    using ok add_found_pair [of job found st] unfolding record_pools(3) [OF d] checkpoint_ok_def by blast
  then show ?thesis
    using assms record_pools(1,2) [OF d, of found] add_found_sym [of st job found]
    unfolding checkpoint_ok_def add_found_fields Suc_eq_plus1 [symmetric] Suc_le_eq by blast
qed

lemma run_job_step:
  assumes "run_job kk d expired market b job st w = ((stop, err, st'), w')"
  shows "rcJobs st' = rcJobs st \<and> rcMaxHops st' = rcMaxHops st \<and> rcMaxRoutes st' = rcMaxRoutes st
    \<and> rcNext st' = (if stop then rcNext st else rcNext st + 1) \<and> (stop \<longrightarrow> expired w')
    \<and> (checkpoint_ok st \<longrightarrow> rcNext st < length (rcJobs st) \<longrightarrow> checkpoint_ok st')"
proof -
  have skip: "checkpoint_ok (st\<lparr>rcNext := Suc (rcNext st)\<rparr>) \<and> checkpoint_ok (st\<lparr>rcFailures := f, rcNext := Suc (rcNext st)\<rparr>)"
    if "checkpoint_ok st" "rcNext st < length (rcJobs st)" for f
    using that by (simp add: checkpoint_ok_def)
  show ?thesis
    using assms skip checkpoint_ok_add_found [of st job]
    by (auto simp: run_job_def split: option.splits sum.splits prod.splits if_splits)
qed

text \<open>A batch runs a prefix of the remaining jobs, as many as its size allows unless its context expires; a job that
  fails with a live context is passed over.\<close>

lemma run_jobs_progress:
  assumes "run_jobs kk d expired market b n jobs p err st w = ((p', err', st'), w')"
    and "jobs = drop (rcNext st) (rcJobs st)" and "checkpoint_ok st"
  shows "checkpoint_ok st' \<and> rcJobs st' = rcJobs st \<and> rcMaxHops st' = rcMaxHops st \<and> rcMaxRoutes st' = rcMaxRoutes st
    \<and> p \<le> p' \<and> rcNext st' = rcNext st + (p' - p) \<and> p' - p \<le> min (length jobs) (nat (n - int p))
    \<and> (expired w' \<or> p' - p = min (length jobs) (nat (n - int p)))"
  using assms
proof (induction jobs arbitrary: p err st w)
  case (Cons job jobs)
  show ?case
  proof (cases "int p < n")
    case True
    obtain stop err1 st1 w1 where r: "run_job kk d expired market b job st w = ((stop, err1, st1), w1)"
      by (metis prod.exhaust)
    have less: "rcNext st < length (rcJobs st)" using Cons.prems(2) by (metis drop_eq_Nil list.distinct(1) not_le)
    note st1 = run_job_step [OF r]
    show ?thesis
    proof (cases stop)
      case True
      then have "p' = p" "st' = st1" "w' = w1" using Cons.prems(1) \<open>int p < n\<close> r by auto
      then show ?thesis using st1 True Cons.prems(3) less by simp
    next
      case False
      have run: "run_jobs kk d expired market b n jobs (p + 1) (err \<or> err1) st1 w1 = ((p', err', st'), w')"
        using Cons.prems(1) \<open>int p < n\<close> r False by simp
      have rest: "jobs = drop (rcNext st1) (rcJobs st1)"
        using Cons.prems(2) st1 False less by (metis Suc_eq_plus1 drop_Suc list.sel(3) tl_drop)
      have ok1: "checkpoint_ok st1" using st1 Cons.prems(3) less by blast
      show ?thesis using Cons.IH [OF run rest ok1] st1 False True by auto
    qed
  next
    case False
    then have "p' = p" "st' = st" "w' = w" using Cons.prems(1) by auto
    then show ?thesis using Cons.prems(3) False by simp
  qed
qed auto

section \<open>The commit\<close>

lemma lower_table_key:
  "fold (\<lambda>p m. m(to_lower (pAddress p) \<mapsto> p)) ps m a = Some q \<Longrightarrow> to_lower (pAddress q) = a \<or> m a = Some q"
proof (induction ps arbitrary: m)
  case (Cons p ps)
  from Cons.IH [of "m(to_lower (pAddress p) \<mapsto> p)"] Cons.prems show ?case by (auto split: if_splits)
qed simp

lemma newest_address:
  "to_lower (pAddress p) = a \<Longrightarrow> to_lower (pAddress (newest snapshot (a, p))) = a"
  by (auto simp: newest_def dest: lower_table_key split: option.splits)

lemma reconciled_addresses:
  assumes "checkpoint_ok st"
  shows "distinct (map (\<lambda>p. to_lower (pAddress p)) (reconciled_pools snapshot st))"
    and "(\<lambda>p. to_lower (pAddress p)) ` set (reconciled_pools snapshot st) = fst ` set (rcDiscovered st)"
proof -
  have key: "map (\<lambda>p. to_lower (pAddress p)) (map (newest snapshot) (rcDiscovered st)) = map fst (rcDiscovered st)"
    using assms by (auto simp: checkpoint_ok_def intro!: newest_address)
  show "distinct (map (\<lambda>p. to_lower (pAddress p)) (reconciled_pools snapshot st))"
    using assms key by (simp add: reconciled_pools_def checkpoint_ok_def del: map_map)
  have "(\<lambda>p. to_lower (pAddress p)) ` set (map (newest snapshot) (rcDiscovered st)) = fst ` set (rcDiscovered st)"
    using arg_cong [OF key, of set] by (simp only: set_map)
  then show "(\<lambda>p. to_lower (pAddress p)) ` set (reconciled_pools snapshot st) = fst ` set (rcDiscovered st)"
    by (simp only: reconciled_pools_def set_sort_slice)
qed

lemma committed_cache:
  assumes "checkpoint_ok st"
  shows "ran (Replace (reconciled_pools snapshot st) c) = set (reconciled_pools snapshot st)"
proof -
  have "distinct (map pAddress (reconciled_pools snapshot st))"
    using reconciled_addresses(1) [OF assms, of snapshot] by (auto simp: distinct_map inj_on_def)
  from Replace_distinct [OF this] show ?thesis by (simp add: Snapshot_def)
qed

text \<open>A cached route: a cycle of two to four hops whose pools are all in the pool cache.\<close>

definition route_cached :: "pool_cache \<Rightarrow> Route \<Rightarrow> bool" where
  "route_cached c r \<longleftrightarrow> length (rHops r) \<in> {2, 3, 4} \<and> length (rSymbols r) = Suc (length (rHops r))
     \<and> hd (rSymbols r) = last (rSymbols r) \<and> distinct (butlast (rSymbols r))
     \<and> list_all (\<lambda>p. \<exists>q\<in>ran c. to_lower (pAddress q) = to_lower (pAddress p)) (rHops r)"

lemma built_hops:
  assumes "valid_cycle byPair r" "p \<in> set (rHops r)"
  obtains pair where "p \<in> set (byPair pair)"
proof -
  obtain i where "i < length (rHops r)" "p = rHops r ! i" using assms(2) by (auto simp: in_set_conv_nth)
  then show thesis using assms(1) that by (metis (no_types, lifting) list_all2_nthD valid_cycle_def)
qed

lemma valid_cycle_shape:
  assumes "valid_cycle byPair r"
  shows "length (rHops r) \<in> {2, 3, 4} \<and> length (rSymbols r) = Suc (length (rHops r))
    \<and> hd (rSymbols r) = last (rSymbols r) \<and> distinct (butlast (rSymbols r))"
proof -
  have "length (rHops r) = length (rSymbols r) - 1" "3 \<le> length (rSymbols r)" "length (rSymbols r) \<le> 5"
    using assms by (auto simp: valid_cycle_def Let_def dest: list_all2_lengthD)
  then show ?thesis using assms by (auto simp: valid_cycle_def Let_def)
qed

lemma committed_routes_cached:
  assumes "checkpoint_ok st"
  shows "list_all (route_cached (Replace (reconciled_pools snapshot st) c)) (reconciled_routes e (rcByPair st) mh mr)"
  unfolding list_all_iff
proof
  fix r assume "r \<in> set (reconciled_routes e (rcByPair st) mh mr)"
  then have v: "valid_cycle (rcByPair st) r"
    using build_ok by (fastforce simp: reconciled_routes_def list_all_iff built_ok_def)
  have "\<exists>q\<in>ran (Replace (reconciled_pools snapshot st) c). to_lower (pAddress q) = to_lower (pAddress p)"
    if p: "p \<in> set (rHops r)" for p
  proof -
    obtain pair where "p \<in> set (rcByPair st pair)" using built_hops [OF v p] .
    then have "to_lower (pAddress p) \<in> fst ` set (rcDiscovered st)" using assms unfolding checkpoint_ok_def by blast
    then show ?thesis
      unfolding committed_cache [OF assms] reconciled_addresses(2) [OF assms, of snapshot, symmetric] by auto
  qed
  then show "route_cached (Replace (reconciled_pools snapshot st) c) r"
    using valid_cycle_shape [OF v] by (simp add: route_cached_def list_all_iff)
qed

section \<open>The engine's universe as a step system\<close>

text \<open>The engine is driven by the market cycle: configurations are staged and applied, reconciliations are started and
  advanced by batches of any size against any block, and in between refreshed pools are stored.\<close>

inductive engine_step :: "keccak \<Rightarrow> 'w Discoverer \<Rightarrow> EngineState \<Rightarrow> EngineState \<Rightarrow> bool" for kk d where
  queue: "engine_step kk d e (QueueLiveMarket next pairKeys dynamicSymbols e)"
| apply_market: "engine_step kk d e (snd (applyPendingMarket e))"
| start: "engine_step kk d e (startReconciliation fees maxHops maxRoutes e)"
| batch: "advanceReconciliationBatchWithin kk d expired b n snapshot e report w = ((report', e'), w') \<Longrightarrow> engine_step kk d e e'"
| refresh: "eCache e (pAddress pool) \<noteq> None \<Longrightarrow> engine_step kk d e (e\<lparr>eCache := Put pool (eCache e)\<rparr>)"

inductive_cases engine_stepE: "engine_step kk d e e'"

definition engine_inv :: "string list \<Rightarrow> EngineState \<Rightarrow> bool" where
  "engine_inv allowed e \<longleftrightarrow>
     list_all (route_cached (eCache e)) (eRouteCache e)
     \<and> (\<forall>a p. eCache e a = Some p \<longrightarrow> pAddress p = a)
     \<and> (case eReconciliation e of None \<Rightarrow> True | Some st \<Rightarrow> checkpoint_ok st)
     \<and> eExecutionAssets e = allowed \<and> mExecutionAssetNames (eMarket e) = allowed
     \<and> (case ePendingMarket e of None \<Rightarrow> True | Some m \<Rightarrow> mExecutionAssetNames m = allowed)"

lemma checkpoint_ok_start:
  "case eReconciliation (startReconciliation fees mh mr e) of None \<Rightarrow> True | Some st \<Rightarrow> checkpoint_ok st"
  by (simp add: startReconciliation_def checkpoint_ok_def)

lemma Put_ran:
  assumes "c (pAddress pool) \<noteq> None" "\<forall>a p. c a = Some p \<longrightarrow> pAddress p = a"
  shows "(\<forall>a p. Put pool c a = Some p \<longrightarrow> pAddress p = a) \<and> (\<lambda>p. pAddress p) ` ran (Put pool c) = pAddress ` ran c"
proof -
  have k: "\<forall>a p. Put pool c a = Some p \<longrightarrow> pAddress p = a"
    using assms(2) pool_store.put_lookup_cases [of pool c] by metis
  have keys: "pAddress ` ran m = dom m" if "\<forall>a p. m a = Some p \<longrightarrow> pAddress p = a" for m :: pool_cache
    using that by (force simp: ran_def dom_def image_def)
  have "dom (Put pool c) = dom c"
    using assms(1) by (auto simp: Put_def dom_def split: option.splits if_splits)
  then show ?thesis using k keys [OF k] keys [OF assms(2)] by simp
qed

lemma route_cached_addresses:
  assumes "pAddress ` ran c = pAddress ` ran c'" "route_cached c r"
  shows "route_cached c' r"
proof -
  have "(\<exists>q\<in>ran c'. to_lower (pAddress q) = a) \<longleftrightarrow> (\<exists>q\<in>ran c. to_lower (pAddress q) = a)" for a
    using assms(1) by (metis (no_types, lifting) image_iff)
  then show ?thesis using assms(2) by (simp add: route_cached_def)
qed

lemma checkpoint_ok_next: "checkpoint_ok st \<Longrightarrow> rcNext st \<le> length (rcJobs st)"
  by (simp add: checkpoint_ok_def)

lemma checkpoint_ok_batches: "checkpoint_ok (st\<lparr>rcBatches := n\<rparr>) \<longleftrightarrow> checkpoint_ok st"
  by (simp add: checkpoint_ok_def)

lemma advance_cases:
  assumes "advanceReconciliationBatchWithin kk d expired b n snapshot e report w = ((report', e'), w')"
    and "eReconciliation e = Some st" and "checkpoint_ok st"
  obtains (pending) st' where "eReconciliation e' = Some st'" "e' = e\<lparr>eReconciliation := Some st'\<rparr>" "checkpoint_ok st'"
      "rcJobs st' = rcJobs st" "rcNext st' < length (rcJobs st)"
      "rcMaxHops st' = rcMaxHops st" "rcMaxRoutes st' = rcMaxRoutes st" "rrCompleted report' = rrCompleted report"
      "rcNext st \<le> rcNext st'" "expired w' \<or> rcNext st + nat (max 1 n) \<le> rcNext st'"
  | (completed) st' where "checkpoint_ok st'" "rcJobs st' = rcJobs st" "rcNext st' = length (rcJobs st)"
      "rcMaxHops st' = rcMaxHops st" "rcMaxRoutes st' = rcMaxRoutes st" "eReconciliation e' = None" "rrCompleted report'"
      "e' = snd (commit_reconciliation snapshot st' (e\<lparr>eReconciliation := Some st'\<rparr>) report)"
proof -
  let ?n = "if n < 1 then 1 else n"
  obtain p err st1 w1 where r: "run_jobs kk d expired (eMarket e) b ?n (drop (rcNext st) (rcJobs st)) 0 False st w
      = ((p, err, st1), w1)" by (metis prod.exhaust)
  note pr = run_jobs_progress [OF r refl assms(3)]
  define st2 where "st2 = st1\<lparr>rcBatches := rcBatches st1 + 1\<rparr>"
  have "p \<le> length (rcJobs st) - rcNext st" "rcNext st2 = rcNext st + p" using pr by (simp_all add: st2_def)
  then have le: "rcNext st2 \<le> length (rcJobs st)" using checkpoint_ok_next [OF assms(3)] by linarith
  have st2: "checkpoint_ok st2" "rcJobs st2 = rcJobs st" "rcNext st2 = rcNext st + p"
    "rcMaxHops st2 = rcMaxHops st" "rcMaxRoutes st2 = rcMaxRoutes st"
    using pr by (simp_all add: st2_def checkpoint_ok_batches)
  show thesis
  proof (cases "rcNext st2 < length (rcJobs st2)")
    case True
    then have "w' = w1" "e' = e\<lparr>eReconciliation := Some st2\<rparr>" "rrCompleted report' = rrCompleted report"
      using assms(1,2) r by (auto simp: advanceReconciliationBatchWithin_def Let_def st2_def)
    moreover have "expired w1 \<or> rcNext st + nat (max 1 n) \<le> rcNext st2"
      using pr True st2 by (auto simp: min_def max_def split: if_splits)
    ultimately show thesis using pending [of st2] True st2 by simp
  next
    case False
    then have "e' = snd (commit_reconciliation snapshot st2 (e\<lparr>eReconciliation := Some st2\<rparr>) report)"
      "eReconciliation e' = None" "rrCompleted report'"
      using assms(1,2) r by (auto simp: advanceReconciliationBatchWithin_def Let_def st2_def commit_reconciliation_def)
    moreover have "rcNext st2 = length (rcJobs st)" using False st2(2) le by simp
    ultimately show thesis using completed [of st2] st2 by simp
  qed
qed

lemma commit_fields [simp]:
  "eCache (snd (commit_reconciliation snapshot st e report)) = Replace (reconciled_pools snapshot st) (eCache e)"
  "eRouteCache (snd (commit_reconciliation snapshot st e report)) = reconciled_routes e (rcByPair st) (rcMaxHops st) (rcMaxRoutes st)"
  "eReconciliation (snd (commit_reconciliation snapshot st e report)) = None"
  "eExecutionAssets (snd (commit_reconciliation snapshot st e report)) = eExecutionAssets e"
  "eMarket (snd (commit_reconciliation snapshot st e report)) = eMarket e"
  "ePendingMarket (snd (commit_reconciliation snapshot st e report)) = ePendingMarket e"
  by (simp_all add: commit_reconciliation_def Let_def)

lemma Replace_keys: "Replace ps c a = Some p \<Longrightarrow> pAddress p = a"
proof -
  have "fold (\<lambda>pool m. m(pAddress pool \<mapsto> pool)) ps m a = Some p \<Longrightarrow> pAddress p = a \<or> m a = Some p" for m
  proof (induction ps arbitrary: m)
    case (Cons q ps)
    from Cons.IH [of "m(pAddress q \<mapsto> q)"] Cons.prems show ?case by (auto split: if_splits)
  qed simp
  from this [of Map.empty] show "Replace ps c a = Some p \<Longrightarrow> pAddress p = a" by (simp add: Replace_def)
qed

lemma engine_inv_batch:
  assumes inv: "engine_inv allowed e"
    and adv: "advanceReconciliationBatchWithin kk d expired b n snapshot e report w = ((report', e'), w')"
  shows "engine_inv allowed e'"
proof (cases "eReconciliation e")
  case None
  then have "e' = e" using adv by (simp add: advanceReconciliationBatchWithin_def)
  then show ?thesis using inv by simp
next
  case (Some st)
  have ok: "checkpoint_ok st" using inv Some by (simp add: engine_inv_def)
  from adv Some ok show ?thesis
  proof (cases rule: advance_cases)
    case (pending st')
    then show ?thesis using inv by (simp add: engine_inv_def)
  next
    case (completed st')
    note routes = committed_routes_cached [OF completed(1)]
    show ?thesis using inv routes Replace_keys unfolding engine_inv_def completed(8) by simp
  qed
qed

lemma engine_inv_step:
  assumes "engine_inv allowed e" "engine_step kk d e e'"
  shows "engine_inv allowed e'"
  using assms(2)
proof cases
  case (queue market pairKeys dynamicSymbols)
  then show ?thesis using assms(1) by (simp add: engine_inv_def QueueLiveMarket_def)
next
  case apply_market
  then show ?thesis
    using assms(1) by (auto simp: engine_inv_def applyPendingMarket_def Let_def split: option.splits)
next
  case (start fees maxHops maxRoutes)
  then show ?thesis using assms(1) checkpoint_ok_start [of fees maxHops maxRoutes e]
    by (simp add: engine_inv_def startReconciliation_def)
next
  case (batch expired b n snapshot report w report' w')
  show ?thesis by (rule engine_inv_batch [OF assms(1) batch])
next
  case (refresh pool)
  note put = Put_ran [of "eCache e" pool, OF refresh(2)]
  have keys: "\<forall>a p. eCache e a = Some p \<longrightarrow> pAddress p = a" and routes: "list_all (route_cached (eCache e)) (eRouteCache e)"
    using assms(1) unfolding engine_inv_def by blast+
  note kept = put [OF keys]
  have "list_all (route_cached (Put pool (eCache e))) (eRouteCache e)"
    using routes route_cached_addresses [OF conjunct2 [OF kept, symmetric]] by (rule list.pred_mono_strong)
  then show ?thesis using assms(1) kept refresh(1) by (simp add: engine_inv_def)
qed

definition engine_init :: "string list \<Rightarrow> EngineState \<Rightarrow> bool" where
  "engine_init allowed e \<longleftrightarrow> (\<exists>market evaluator amounts.
     e = NewWithAmounts market evaluator NewPoolCache amounts \<and> mExecutionAssetNames market = allowed)"

interpretation universe: step_system "engine_init allowed" "engine_step kk d" "engine_inv allowed"
proof unfold_locales
  show "engine_inv allowed s" if "engine_init allowed s" for s
    using that by (auto simp: engine_init_def engine_inv_def NewWithAmounts_def NewPoolCache_def)
qed (rule engine_inv_step)

text \<open>
  Whatever configurations are staged and applied and however reconciliations are started, interrupted and
  advanced, every route of the route cache is a cycle of two to four hops over distinct assets whose pools are all
  in the pool cache (the two caches are only ever replaced together), and neither the staged nor the active
  market can change the execution allow-list the engine was started with.
\<close>

theorem route_cache_consistent:
  assumes "engine_init allowed e0" and "(engine_step kk d)\<^sup>*\<^sup>* e0 e"
  shows "list_all (route_cached (eCache e)) (eRouteCache e) \<and> mExecutionAssetNames (eMarket e) = allowed
    \<and> (case ePendingMarket e of None \<Rightarrow> True | Some m \<Rightarrow> mExecutionAssetNames m = allowed)"
  using universe.inv_reachable [OF assms] unfolding engine_inv_def by blast

text \<open>A run of the reconciliation: one batch per head, each with its own block and view of the pool cache.\<close>

fun reconcile_heads :: "keccak \<Rightarrow> 'w Discoverer \<Rightarrow> ('w \<Rightarrow> bool) \<Rightarrow> int \<Rightarrow> (u64 \<times> Pool list) list \<Rightarrow> EngineState
    \<Rightarrow> ReconcileReport \<Rightarrow> 'w \<Rightarrow> (ReconcileReport \<times> EngineState) \<times> 'w" where
  "reconcile_heads kk d expired n [] e report w = ((report, e), w)"
| "reconcile_heads kk d expired n ((b, snapshot) # heads) e report w =
     (case advanceReconciliationBatchWithin kk d expired b n snapshot e report w of
        ((report1, e1), w1) \<Rightarrow> reconcile_heads kk d expired n heads e1 report1 w1)"

lemma reconcile_heads_idle:
  "eReconciliation e = None \<Longrightarrow> reconcile_heads kk d expired n heads e report w = ((report, e), w)"
  by (induction heads) (auto simp: advanceReconciliationBatchWithin_def)

lemma reconcile_heads_complete:
  assumes "\<And>w. \<not> expired w" and "eReconciliation e = Some st" and "checkpoint_ok st"
    and "heads \<noteq> []" and "length (rcJobs st) \<le> rcNext st + length heads * nat (max 1 n)"
    and "reconcile_heads kk d expired n heads e report w = ((report', e'), w')"
  shows "eReconciliation e' = None \<and> rrCompleted report'"
  using assms(2-6)
proof (induction heads arbitrary: e st report w)
  case (Cons head heads)
  obtain b snapshot where head: "head = (b, snapshot)" by (metis prod.exhaust)
  obtain report1 e1 w1 where a: "advanceReconciliationBatchWithin kk d expired b n snapshot e report w = ((report1, e1), w1)"
    by (metis prod.exhaust)
  have rest: "reconcile_heads kk d expired n heads e1 report1 w1 = ((report', e'), w')"
    using Cons.prems(5) a head by simp
  from a Cons.prems(1,2) show ?case
  proof (cases rule: advance_cases)
    case (pending st')
    have step: "rcNext st + nat (max 1 n) \<le> rcNext st'" using pending(10) assms(1) by blast
    have "heads \<noteq> []" using pending(5) step Cons.prems(4) by auto
    moreover have "length (rcJobs st') \<le> rcNext st' + length heads * nat (max 1 n)"
      using step Cons.prems(4) pending(4) by simp
    ultimately show ?thesis using Cons.IH [OF pending(1,3) _ _ rest] by blast
  next
    case (completed st')
    then show ?thesis
      using rest reconcile_heads_idle [OF completed(6), of kk d expired n heads report1 w1] completed(6) by simp
  qed
qed simp

text \<open>
  C20: a reconciliation finishes: started on any engine, and given at least \<open>ceil (jobs / batch size)\<close> heads whose
  batches do not run into their timeout, it has committed, whichever of its discovery calls failed.
\<close>

theorem reconciliation_completes:
  assumes "\<And>w. \<not> expired w" and "heads \<noteq> []"
    and "reconciliationUnitsTotal (eReconciliation (startReconciliation fees maxHops maxRoutes e)) \<le> length heads * nat (max 1 n)"
  shows "case reconcile_heads kk d expired n heads (startReconciliation fees maxHops maxRoutes e) report w of
    ((report', e'), w') \<Rightarrow> eReconciliation e' = None \<and> rrCompleted report'"
proof -
  obtain st where st: "eReconciliation (startReconciliation fees maxHops maxRoutes e) = Some st" "checkpoint_ok st" "rcNext st = 0"
    using checkpoint_ok_start [of fees maxHops maxRoutes e] by (auto simp: startReconciliation_def)
  then show ?thesis
    using reconcile_heads_complete [of expired, OF assms(1) st(1,2) assms(2), of n kk d report w] assms(3)
    by (auto simp: reconciliationUnitsTotal_def split: prod.splits)
qed

definition pair_market :: MarketConfig where
  "pair_market = \<lparr>mAavePool = '''', mUniswapFactory = '''', mUniswapSwapRouter = '''', mUniswapQuoterV2 = '''',
     mCamelotFactory = '''', mCamelotSwapRouter = '''', mCamelotQuoter = '''', mETHUSDFeed = '''', mSequencerUptimeFeed = '''',
     mArbGasInfo = '''', mExecutionAssetNames = [''A'', ''B''], mMarketAssetNames = [], mBaseAsset = ''A'',
     mIntermediateTokens = [''B''], mUniswapFeeTiers = [500],
     mTokens = [(''A'', \<lparr>tSymbol = ''A'', tAddress = ''0x1'', tDecimals = 6, tUSDFeed = ''''\<rparr>),
                (''B'', \<lparr>tSymbol = ''B'', tAddress = ''0x2'', tDecimals = 18, tUSDFeed = ''''\<rparr>)]\<rparr>"

definition pair_engine :: EngineState where
  "pair_engine = NewWithAmounts pair_market True NewPoolCache [(''A'', Some 1000)]"

definition blank_report :: ReconcileReport where
  "blank_report = \<lparr>rrPending = False, rrBatchSize = 0, rrUnitsDone = 0, rrUnitsTotal = 0, rrUnitsThisCycle = 0, rrFailures = 0,
     rrError = False, rrCompleted = False, rrFullReconcile = False, rrFailedUnits = 0, rrDiscoveredPools = 0,
     rrGeneratedRoutes = 0, rrRouteCacheReady = False, rrRouteCacheSize = 0\<rparr>"

lemma pair_engine_units: "reconciliationUnitsTotal (eReconciliation (startReconciliation [500] 3 10 pair_engine)) = 2"
  by code_simp

theorem reconciliation_completes_witness:
  "case reconcile_heads (\<lambda>_. replicate 32 0) quiet_discoverer (\<lambda>_. False) 1 [(7, []), (8, [])]
      (startReconciliation [500] 3 10 pair_engine) blank_report () of
     ((report', e'), w') \<Rightarrow> eReconciliation e' = None \<and> rrCompleted report'"
  by (rule reconciliation_completes) (simp_all add: pair_engine_units)

theorem route_cache_consistent_witness:
  "mExecutionAssetNames (eMarket (snd (applyPendingMarket (QueueLiveMarket (pair_market\<lparr>mExecutionAssetNames := [''C'']\<rparr>) [] [''C''] pair_engine))))
     = [''A'', ''B'']"
proof -
  let ?q = "QueueLiveMarket (pair_market\<lparr>mExecutionAssetNames := [''C'']\<rparr>) [] [''C''] pair_engine"
  have init: "engine_init [''A'', ''B''] pair_engine"
    unfolding engine_init_def pair_engine_def by (intro exI conjI, rule refl) (simp add: pair_market_def)
  have "engine_step (\<lambda>_. replicate 32 0) quiet_discoverer pair_engine ?q" by (rule engine_step.queue)
  then have "(engine_step (\<lambda>_. replicate 32 0) quiet_discoverer)\<^sup>*\<^sup>* pair_engine (snd (applyPendingMarket ?q))"
    by (rule converse_rtranclp_into_rtranclp) (rule r_into_rtranclp, rule engine_step.apply_market)
  from route_cache_consistent [OF init this] show ?thesis by blast
qed

text \<open>The jobs: each admitted pair once, with every fee tier of the one venue and the one pool of the other.\<close>

lemma set_market_pairs:
  "sorted_wrt (<) symbols \<Longrightarrow> set (market_pairs symbols) = {(a, b). a \<in> set symbols \<and> b \<in> set symbols \<and> a < b}"
  by (induction symbols) auto

lemma reconciliation_jobs:
  assumes "eReconciliation (startReconciliation fees maxHops maxRoutes e) = Some st"
  shows "set (rcJobs st) = {mk_job a b dex fee | a b dex fee. a \<in> set (MarketAssets (eMarket e)) \<and> b \<in> set (MarketAssets (eMarket e))
    \<and> a < b \<and> marketPairAllowed e a b \<and> (dex = UniswapV3 \<and> fee \<in> set fees \<or> dex = CamelotV3 \<and> fee = 0)}"
proof -
  have "sorted_wrt (<) (MarketAssets (eMarket e))"
    by (simp add: MarketAssets_def ExecutionAssets_def Let_def strict_sorted_iff)
  note pairs = set_market_pairs [OF this]
  have jobs: "set (rcJobs st) = (\<Union>pair\<in>set (market_pairs (MarketAssets (eMarket e))). set (pair_jobs fees e pair))"
    using assms by (auto simp: startReconciliation_def)
  have one: "set (pair_jobs fees e (a, b)) = {mk_job a b dex fee | dex fee. marketPairAllowed e a b
      \<and> (dex = UniswapV3 \<and> fee \<in> set fees \<or> dex = CamelotV3 \<and> fee = 0)}" for a b
    by (auto simp: pair_jobs_def)
  have "(\<Union>pair\<in>{(a, b). P a b}. f pair) = {x. \<exists>a b. P a b \<and> x \<in> f (a, b)}" for P and f :: "string \<times> string \<Rightarrow> ReconcileJob set"
    by auto
  then show ?thesis unfolding jobs pairs by (simp add: one) blast
qed

text \<open>
  A job whose discovery call fails is passed over so that one unavailable provider cannot block the checkpoint;
  but the commit replaces the whole pool cache by the discovered pools: whatever was cached for the failed pair is
  evicted with its routes, although the comment on that branch says the entry is preserved.
\<close>

lemma failed_discovery_evicts:
  assumes "eReconciliation e = Some st" "rcJobs st = [job]" "rcNext st = 0" "rcDiscovered st = []"
    and "run_job kk d expired (eMarket e) b job st w = ((False, True, st1), w1)"
    and "advanceReconciliationBatchWithin kk d expired b 1 snapshot e report w = ((report', e'), w')"
  shows "eCache e' = Map.empty"
proof -
  have st1: "rcNext st1 = 1" "rcJobs st1 = [job]" "rcDiscovered st1 = []"
    using assms(2-5) by (auto simp: run_job_def split: option.splits sum.splits prod.splits if_splits)
  have "e' = snd (commit_reconciliation snapshot (st1\<lparr>rcBatches := rcBatches st1 + 1\<rparr>)
      (e\<lparr>eReconciliation := Some (st1\<lparr>rcBatches := rcBatches st1 + 1\<rparr>)\<rparr>) report)"
    using assms st1 by (auto simp: advanceReconciliationBatchWithin_def Let_def commit_reconciliation_def)
  then show ?thesis using st1 by (simp add: reconciled_pools_def Replace_def)
qed

end
