(* ===== verification/Float64.thy ===== *)
theory Float64
  imports Prelude
begin

text \<open>
  The \<open>float64\<close> values that the ranking code computes with. The model does not fix their rounding: a record holds
  the operations the Go code applies to them, and every definition that ranks takes it as an argument. What is proved
  over it therefore holds for IEEE arithmetic, or says which law of it is used (\<open>float_order\<close>).
\<close>

record 'f FloatOps =
  fAdd :: "'f \<Rightarrow> 'f \<Rightarrow> 'f"
  fSub :: "'f \<Rightarrow> 'f \<Rightarrow> 'f"
  fMul :: "'f \<Rightarrow> 'f \<Rightarrow> 'f"
  fDiv :: "'f \<Rightarrow> 'f \<Rightarrow> 'f"
  fLt :: "'f \<Rightarrow> 'f \<Rightarrow> bool"
  fLe :: "'f \<Rightarrow> 'f \<Rightarrow> bool"
  fNum :: "rat \<Rightarrow> 'f"
  fInt :: "'f \<Rightarrow> int"

text \<open>
  \<open>fNum\<close> is the \<open>float64\<close> of a constant of the source, of an integer (\<open>float64(n)\<close>) or of an exact fraction
  (\<open>big.Rat.Float64\<close>), \<open>fInt\<close> the conversion to \<open>int64\<close>. The scoring code also uses the package \<open>math\<close>.
\<close>

record 'f MathOps = "'f FloatOps" +
  fLog :: "'f \<Rightarrow> 'f"
  fLog1p :: "'f \<Rightarrow> 'f"
  fExp :: "'f \<Rightarrow> 'f"
  fSqrt :: "'f \<Rightarrow> 'f"
  fPow :: "'f \<Rightarrow> 'f \<Rightarrow> 'f"
  fMin :: "'f \<Rightarrow> 'f \<Rightarrow> 'f"
  fMax :: "'f \<Rightarrow> 'f \<Rightarrow> 'f"
  fRound :: "'f \<Rightarrow> 'f"
  fIsNaN :: "'f \<Rightarrow> bool"
  fIsInf :: "'f \<Rightarrow> bool"

abbreviation fZero :: "('f, 'z) FloatOps_scheme \<Rightarrow> 'f" where
  "fZero F \<equiv> fNum F 0"

text \<open>\<open>x == y\<close>.\<close>

abbreviation fEq :: "('f, 'z) FloatOps_scheme \<Rightarrow> 'f \<Rightarrow> 'f \<Rightarrow> bool" where
  "fEq F x y \<equiv> fLe F x y \<and> fLe F y x"

definition fFinite :: "('f, 'z) MathOps_scheme \<Rightarrow> 'f \<Rightarrow> bool" where
  "fFinite F x \<longleftrightarrow> \<not> fIsNaN F x \<and> \<not> fIsInf F x"

abbreviation fOfInt :: "('f, 'z) FloatOps_scheme \<Rightarrow> int \<Rightarrow> 'f" where
  "fOfInt F i \<equiv> fNum F (of_int i)"

text \<open>Exact arithmetic on rationals, with truncation towards zero.\<close>

definition rat_ops :: "rat FloatOps" where
  "rat_ops = \<lparr>fAdd = (+), fSub = (-), fMul = (*), fDiv = (/), fLt = (<), fLe = (\<le>), fNum = id,
     fInt = (\<lambda>x. if x < 0 then - \<lfloor>- x\<rfloor> else \<lfloor>x\<rfloor>)\<rparr>"

lemma rat_ops_sel [simp]:
  "fAdd rat_ops = (+)" "fSub rat_ops = (-)" "fMul rat_ops = (*)" "fDiv rat_ops = (/)" "fLt rat_ops = (<)"
  "fLe rat_ops = (\<le>)" "fNum rat_ops = id" "fInt rat_ops x = (if x < 0 then - \<lfloor>- x\<rfloor> else \<lfloor>x\<rfloor>)"
  by (simp_all add: rat_ops_def)

text \<open>The law the rankings rely on: on the values compared (no NaN) the order is a strict linear one.\<close>

locale float_order =
  fixes F :: "('f, 'z) FloatOps_scheme" and real_value :: "'f \<Rightarrow> bool"
  assumes lt_irrefl: "real_value x \<Longrightarrow> \<not> fLt F x x"
    and lt_trans: "real_value x \<Longrightarrow> real_value y \<Longrightarrow> real_value z \<Longrightarrow> fLt F x y \<Longrightarrow> fLt F y z \<Longrightarrow> fLt F x z"
    and lt_total: "real_value x \<Longrightarrow> real_value y \<Longrightarrow> x = y \<or> fLt F x y \<or> fLt F y x"
begin

lemma lt_asym: "real_value x \<Longrightarrow> real_value y \<Longrightarrow> fLt F x y \<Longrightarrow> \<not> fLt F y x"
  using lt_irrefl lt_trans by blast

lemma not_lt_trans:
  "real_value x \<Longrightarrow> real_value y \<Longrightarrow> real_value z \<Longrightarrow> \<not> fLt F y x \<Longrightarrow> \<not> fLt F z y \<Longrightarrow> \<not> fLt F z x"
  using lt_total [of x y] lt_total [of y z] lt_trans lt_asym by metis

end

interpretation rat_order: float_order rat_ops "\<lambda>_. True"
  by unfold_locales auto

text \<open>
  Rationals in place of \<open>float64\<close>, to evaluate the scoring code on examples: the transcendental functions are replaced by
  simple ones, which no statement about a concrete value depends on.
\<close>

definition rat_math :: "rat MathOps" where
  "rat_math = \<lparr>fAdd = (+), fSub = (-), fMul = (*), fDiv = (/), fLt = (<), fLe = (\<le>), fNum = id,
     fInt = (\<lambda>x. if x < 0 then - \<lfloor>- x\<rfloor> else \<lfloor>x\<rfloor>), fLog = (\<lambda>x. x - 1), fLog1p = id, fExp = (\<lambda>x. 1 + x), fSqrt = id,
     fPow = (\<lambda>x y. x * x), fMin = min, fMax = max, fRound = (\<lambda>x. of_int (round x)), fIsNaN = (\<lambda>_. False), fIsInf = (\<lambda>_. False)\<rparr>"

end
