(* ===== verification/NearMiss.thy ===== *)
theory NearMiss
  imports Float64 Opportunity "HOL-Library.AList"
begin

text \<open>
  \<open>go/internal/nearmiss/nearmiss.go\<close>: the economic record of an evaluated route, its integer score, and the bounded
  memory of routes that feeds the pre-quote ranking. Durations are in milliseconds, \<open>int64\<close> scores are integers.
  The JSON rendering of a record (\<open>Fields\<close>) is left out.
\<close>

section \<open>Records\<close>

record Record =
  nmRoute :: string
  nmDEXPath :: string
  nmHopCount :: int
  nmLoanAsset :: string
  nmAmountIn :: bigint
  nmAmountOut :: bigint
  nmGrossProfit :: bigint
  nmAavePremium :: bigint
  nmL1Fee :: bigint
  nmL2Fee :: bigint
  nmPriceImpactBPS :: u64
  nmNetProfit :: bigint
  nmMinProfit :: bigint
  nmGapToProfit :: bigint
  nmRejectionReason :: string
  nmScore :: int
  nmLatencyMS :: int
  nmQuoteSuccessful :: bool
  nmSufficientLiquidity :: bool
  nmCrossVenue :: bool
  nmFailureCount :: u64
  nmTimestamp :: int

definition DEXPath :: "Route \<Rightarrow> string" where
  "DEXPath route = join '' -> '' (map pDEX (rHops route))"

definition CrossVenue :: "Route \<Rightarrow> bool" where
  "CrossVenue route \<longleftrightarrow> card (set (map pDEX (rHops route))) > 1"

definition routeHasLiquidity :: "Route \<Rightarrow> bool" where
  "routeHasLiquidity route \<longleftrightarrow> rHops route \<noteq> [] \<and> list_all (\<lambda>hop. big_pos (pLiquidity hop)) (rHops route)"

definition PriceImpactBPS :: "bigint \<Rightarrow> bigint \<Rightarrow> u64" where
  "PriceImpactBPS amountIn amountOut =
     (case (amountIn, amountOut) of
        (Some i, Some out) \<Rightarrow>
          if i \<le> 0 \<or> out \<ge> i then 0
          else let scaled = big_div ((i - out) * 10000) i
               in if scaled < 0 \<or> scaled \<ge> 2 ^ 64 then - 1 else of_int scaled
      | _ \<Rightarrow> 0)"

definition Gap :: "bigint \<Rightarrow> bigint \<Rightarrow> int" where
  "Gap net minProfit = (let gap = big_or_zero minProfit - big_or_zero net in if gap < 0 then 0 else gap)"

definition gapBonus :: "bigint \<Rightarrow> int" where
  "gapBonus gap =
     (case gap of
        None \<Rightarrow> 2500
      | Some g \<Rightarrow>
          if g \<le> 0 then 2500
          else let digits = length (show_int g)
               in if digits \<le> 3 then 2000 else if digits \<le> 5 then 1500 else if digits \<le> 7 then 1000
                  else if digits \<le> 9 then 500 else 0)"

definition Score :: "Record \<Rightarrow> int" where
  "Score r =
     1000 + (if nmCrossVenue r then 2500 else - 600) + (if nmQuoteSuccessful r then 1000 else - 2000)
     + (if nmSufficientLiquidity r then 750 else - 1500)
     - nmHopCount r * 75 - big_quo (sint (nmPriceImpactBPS r)) 2 - sint (nmFailureCount r) * 150
     - big_quo (nmLatencyMS r) 25 + gapBonus (nmGapToProfit r)"

definition FromOpportunity :: "Opportunity \<Rightarrow> string \<Rightarrow> int \<Rightarrow> u64 \<Rightarrow> Record" where
  "FromOpportunity op reason latency failureCount =
     (let record = \<lparr>nmRoute = Route_String (oRoute op), nmDEXPath = DEXPath (oRoute op),
            nmHopCount = int (length (rHops (oRoute op))),
            nmLoanAsset = (case rSymbols (oRoute op) of [] \<Rightarrow> '''' | s # _ \<Rightarrow> s),
            nmAmountIn = Some (oAmountIn op), nmAmountOut = Some (oAmountOut op), nmGrossProfit = Some (oGrossProfit op),
            nmAavePremium = Some (oAavePremium op), nmL1Fee = Some (oL1DataFee op), nmL2Fee = Some (oGasEstimate op),
            nmPriceImpactBPS = PriceImpactBPS (Some (oAmountIn op)) (Some (oAmountOut op)),
            nmNetProfit = Some (oExpectedProfit op), nmMinProfit = Some (oMinProfit op),
            nmGapToProfit = Some (Gap (Some (oExpectedProfit op)) (Some (oMinProfit op))),
            nmRejectionReason = trim_space reason, nmScore = 0, nmLatencyMS = latency,
            nmQuoteSuccessful = (oAmountOut op > 0), nmSufficientLiquidity = routeHasLiquidity (oRoute op),
            nmCrossVenue = CrossVenue (oRoute op), nmFailureCount = failureCount, nmTimestamp = oTimestamp op\<rparr>
      in record\<lparr>nmScore := Score record\<rparr>)"

definition compareBig :: "bigint \<Rightarrow> bigint \<Rightarrow> int" where
  "compareBig a b = sgn (big_or_zero a - big_or_zero b)"

text \<open>The order of \<open>Snapshot\<close>: the closest to profit first, then the higher score, then the route.\<close>

definition closer :: "Record \<Rightarrow> Record \<Rightarrow> bool" where
  "closer l r =
     (if compareBig (nmGapToProfit l) (nmGapToProfit r) \<noteq> 0 then compareBig (nmGapToProfit l) (nmGapToProfit r) < 0
      else if nmScore l \<noteq> nmScore r then nmScore l > nmScore r else nmRoute l < nmRoute r)"

definition Snapshot :: "Record list \<Rightarrow> int \<Rightarrow> Record list" where
  "Snapshot records limit =
     (if limit < 1 \<or> records = [] then [] else take (nat limit) (sort_slice closer records))"

definition Distribution :: "Record list \<Rightarrow> nat \<times> nat \<times> nat" where
  "Distribution records =
     (length (filter (\<lambda>r. nmScore r \<ge> 4000) records),
      length (filter (\<lambda>r. nmScore r < 4000 \<and> nmScore r \<ge> 2000) records),
      length (filter (\<lambda>r. nmScore r < 2000) records))"

definition reason_of :: "Record \<Rightarrow> string" where
  "reason_of r = (let reason = trim_space (nmRejectionReason r) in if reason = '''' then ''unknown'' else reason)"

definition RejectionReasons :: "Record list \<Rightarrow> string \<Rightarrow> nat" where
  "RejectionReasons records reason = length (filter (\<lambda>r. reason_of r = reason) records)"

section \<open>Route memory\<close>

record 'f RouteStats =
  stGapEMA :: 'f
  stNetProfitEMA :: 'f
  stQuoteSuccessEMA :: 'f
  stFailureEMA :: 'f
  stLastScore :: int
  stLastSeenBlock :: u64
  stLastDirtyBlock :: u64
  stCrossVenue :: bool
  stObservations :: u64
  stLastLatencyMS :: 'f

record 'f RouteMemory =
  mmRoutes :: "(string \<times> 'f RouteStats) list"
  mmMaxRoutes :: int

definition NewRouteMemory :: "int \<Rightarrow> 'f RouteMemory" where
  "NewRouteMemory maxRoutes = \<lparr>mmRoutes = [], mmMaxRoutes = (if maxRoutes < 1 then 4096 else maxRoutes)\<rparr>"

definition ema :: "'f FloatOps \<Rightarrow> 'f \<Rightarrow> 'f \<Rightarrow> 'f \<Rightarrow> 'f" where
  "ema F previous next alpha =
     (if fLe F alpha (fNum F 0) then previous else if fLe F (fNum F 1) alpha then next
      else fAdd F (fMul F previous (fSub F (fNum F 1) alpha)) (fMul F next alpha))"

definition boolFloat :: "'f FloatOps \<Rightarrow> bool \<Rightarrow> 'f" where
  "boolFloat F v = (if v then fNum F 1 else fNum F 0)"

definition magnitude :: "'f FloatOps \<Rightarrow> bigint \<Rightarrow> 'f" where
  "magnitude F v =
     (case v of
        None \<Rightarrow> fNum F 0
      | Some x \<Rightarrow> if x = 0 then fNum F 0 else fOfInt F (int (length (show_int \<bar>x\<bar>))))"

definition signedMagnitude :: "'f FloatOps \<Rightarrow> bigint \<Rightarrow> 'f" where
  "signedMagnitude F v =
     (case v of
        None \<Rightarrow> fNum F 0
      | Some x \<Rightarrow> if x = 0 then fNum F 0 else fMul F (if x < 0 then fNum F (- 1) else fNum F 1) (magnitude F v))"

definition minUint64 :: "u64 \<Rightarrow> u64 \<Rightarrow> u64" where
  "minUint64 a b = (if a < b then a else b)"

definition zero_stats :: "'f FloatOps \<Rightarrow> 'f RouteStats" where
  "zero_stats F = \<lparr>stGapEMA = fNum F 0, stNetProfitEMA = fNum F 0, stQuoteSuccessEMA = fNum F 0, stFailureEMA = fNum F 0,
     stLastScore = 0, stLastSeenBlock = 0, stLastDirtyBlock = 0, stCrossVenue = False, stObservations = 0,
     stLastLatencyMS = fNum F 0\<rparr>"

definition lookup_stats :: "string \<Rightarrow> 'f RouteMemory \<Rightarrow> 'f RouteStats option" where
  "lookup_stats key m = map_of (mmRoutes m) (trim_space key)"

definition fresh_stats :: "'f FloatOps \<Rightarrow> Record \<Rightarrow> u64 \<Rightarrow> 'f RouteStats" where
  "fresh_stats F r block =
     \<lparr>stGapEMA = magnitude F (nmGapToProfit r), stNetProfitEMA = signedMagnitude F (nmNetProfit r),
      stQuoteSuccessEMA = boolFloat F (nmQuoteSuccessful r),
      stFailureEMA = boolFloat F (big_pos (nmGapToProfit r) \<or> trim_space (nmRejectionReason r) \<noteq> ''''),
      stLastScore = nmScore r, stLastSeenBlock = block, stLastDirtyBlock = 0, stCrossVenue = nmCrossVenue r,
      stObservations = 1, stLastLatencyMS = fOfInt F (nmLatencyMS r)\<rparr>"

definition blend_stats :: "'f FloatOps \<Rightarrow> 'f RouteStats \<Rightarrow> 'f RouteStats \<Rightarrow> 'f RouteStats" where
  "blend_stats F previous s =
     (let alpha = fNum F (35 / 100)
      in s\<lparr>stGapEMA := ema F (stGapEMA previous) (stGapEMA s) alpha,
           stNetProfitEMA := ema F (stNetProfitEMA previous) (stNetProfitEMA s) alpha,
           stQuoteSuccessEMA := ema F (stQuoteSuccessEMA previous) (stQuoteSuccessEMA s) alpha,
           stFailureEMA := ema F (stFailureEMA previous) (stFailureEMA s) alpha,
           stLastDirtyBlock := stLastDirtyBlock previous, stObservations := stObservations previous + 1,
           stLastLatencyMS := ema F (stLastLatencyMS previous) (stLastLatencyMS s) alpha\<rparr>)"

text \<open>\<open>pruneLocked\<close>; the entries of equal age are dropped in map order.\<close>

definition by_age :: "string \<times> 'f RouteStats \<Rightarrow> string \<times> 'f RouteStats \<Rightarrow> bool" where
  "by_age a b \<longleftrightarrow> stLastSeenBlock (snd a) < stLastSeenBlock (snd b)"

definition pruneLocked :: "'f RouteMemory \<Rightarrow> 'f RouteMemory" where
  "pruneLocked m =
     (if mmMaxRoutes m < 1 \<or> int (length (mmRoutes m)) \<le> mmMaxRoutes m then m
      else let items = sort_slice by_age (mmRoutes m);
               victims = map fst (take (length (mmRoutes m) - nat (mmMaxRoutes m)) items)
           in m\<lparr>mmRoutes := filter (\<lambda>(key, _). key \<notin> set victims) (mmRoutes m)\<rparr>)"

definition Observe :: "'f FloatOps \<Rightarrow> string \<Rightarrow> Record \<Rightarrow> u64 \<Rightarrow> 'f RouteMemory \<Rightarrow> 'f RouteMemory" where
  "Observe F key r block m =
     (let key = trim_space key
      in if key = '''' then m
         else let fresh = fresh_stats F r block;
                  stats = (case map_of (mmRoutes m) key of None \<Rightarrow> fresh | Some previous \<Rightarrow> blend_stats F previous fresh)
              in pruneLocked (m\<lparr>mmRoutes := AList.update key stats (mmRoutes m)\<rparr>))"

definition MarkDirty :: "'f FloatOps \<Rightarrow> string \<Rightarrow> u64 \<Rightarrow> 'f RouteMemory \<Rightarrow> 'f RouteMemory" where
  "MarkDirty F key block m =
     (let key = trim_space key
      in if key = '''' then m
         else let stats = (case map_of (mmRoutes m) key of None \<Rightarrow> zero_stats F | Some s \<Rightarrow> s)
              in m\<lparr>mmRoutes := AList.update key
                     (stats\<lparr>stLastDirtyBlock := block, stFailureEMA := fMul F (stFailureEMA stats) (fNum F (1 / 2))\<rparr>)
                     (mmRoutes m)\<rparr>)"

record 'f PreQuoteInput =
  pqKey :: string
  pqCrossVenue :: bool
  pqVolatility :: 'f
  pqCurrentBlock :: u64

definition age_penalty :: "u64 \<Rightarrow> u64 \<Rightarrow> int" where
  "age_penalty current seen =
     (if current > seen then let age = current - seen in if age > 240 then uint (minUint64 (age - 240) 600) else 0 else 0)"

definition PreQuoteScore :: "'f FloatOps \<Rightarrow> 'f RouteMemory \<Rightarrow> 'f PreQuoteInput \<Rightarrow> int" where
  "PreQuoteScore F m input =
     (let vol = (if fLt F (fNum F 5) (pqVolatility input) then fNum F 5 else pqVolatility input);
          score = 1000 + (if pqCrossVenue input then 500 else 0)
                  + (if fLt F (fNum F 0) (pqVolatility input) then fInt F (fMul F vol (fNum F 150)) else 0)
      in case lookup_stats (pqKey input) m of
           None \<Rightarrow> score + 250
         | Some s \<Rightarrow>
             if stObservations s = 0 then score + 250
             else score + fInt F (fMul F (fOfInt F (stLastScore s - 1000)) (fNum F (55 / 100)))
                  + fInt F (fMul F (fSub F (stQuoteSuccessEMA s) (fNum F (1 / 2))) (fNum F 900))
                  - fInt F (fMul F (stFailureEMA s) (fNum F 700))
                  + (if fLe F (stGapEMA s) (fNum F 6) then 550 else if fLe F (stGapEMA s) (fNum F 9) then 250 else 0)
                  - (if fLt F (fNum F 0) (stLastLatencyMS s) then fInt F (fDiv F (stLastLatencyMS s) (fNum F 50)) else 0)
                  - age_penalty (pqCurrentBlock input) (stLastSeenBlock s))"

section \<open>Economics of a record\<close>

lemma Gap_zero_iff: "Gap (Some net) (Some minimum) = 0 \<longleftrightarrow> minimum \<le> net"
  by (simp add: Gap_def Let_def)

lemma PriceImpactBPS_bound:
  assumes "0 \<le> out"
  shows "PriceImpactBPS (Some i) (Some out) \<le> 10000"
proof (cases "i \<le> 0 \<or> out \<ge> i")
  case False
  then have "0 \<le> (i - out) * 10000" "(i - out) * 10000 \<le> i * 10000" using assms by auto
  then have "0 \<le> (i - out) * 10000 div i" "(i - out) * 10000 div i \<le> 10000"
    using False zdiv_mono1 [of "(i - out) * 10000" "i * 10000" i] by (auto simp: pos_imp_zdiv_nonneg_iff)
  then show ?thesis
    using False by (simp add: PriceImpactBPS_def Let_def word_le_def unsigned_of_int take_bit_int_eq_self)
qed (simp add: PriceImpactBPS_def)

section \<open>The memory evicts the least recently seen routes\<close>

interpretation age_order: strict_weak by_age
  using key_asc.strict_weak_axioms [of "\<lambda>x. stLastSeenBlock (snd x)"] by (simp add: by_age_def [abs_def])

lemma filter_victims:
  assumes "distinct (map fst xs)" "mset ys = mset xs"
  shows "set (filter (\<lambda>(key, _). key \<notin> set (map fst (take n ys))) xs) = set (drop n ys)"
    and "length (filter (\<lambda>(key, _). key \<notin> set (map fst (take n ys))) xs) = length xs - n"
proof -
  let ?P = "\<lambda>(key, _). key \<notin> set (map fst (take n ys))"
  have dist: "distinct (map fst ys)"
    using assms by (metis mset_map mset_eq_imp_distinct_iff)
  have none: "filter ?P (take n ys) = []" by (force simp: filter_empty_conv)
  have "fst x \<notin> fst ` set (take n ys)" if "x \<in> set (drop n ys)" for x
    using dist that by (metis (mono_tags, lifting) append_take_drop_id disjoint_iff distinct_append image_eqI list.set_map map_append)
  then have all: "filter ?P (drop n ys) = drop n ys" by (force simp: filter_id_conv)
  have split: "filter ?P ys = drop n ys"
    by (metis append_Nil append_take_drop_id filter_append none all)
  have "mset (filter ?P xs) = mset (filter ?P ys)" using assms(2) by (metis mset_filter)
  then show "set (filter ?P xs) = set (drop n ys)" "length (filter ?P xs) = length xs - n"
    using split assms(2) by (metis mset_eq_setD, metis length_drop size_mset)
qed

lemma distinct_filter_keys: "distinct (map fst xs) \<Longrightarrow> distinct (map fst (filter P xs))"
  by (induction xs) auto

lemma pruneLocked_lru:
  assumes dist: "distinct (map fst (mmRoutes m))" and "1 \<le> mmMaxRoutes m" and m': "m' = pruneLocked m"
  shows "distinct (map fst (mmRoutes m')) \<and> int (length (mmRoutes m')) = min (int (length (mmRoutes m))) (mmMaxRoutes m)
    \<and> mmMaxRoutes m' = mmMaxRoutes m \<and> set (mmRoutes m') \<subseteq> set (mmRoutes m)
    \<and> list_all (\<lambda>old. old \<in> set (mmRoutes m') \<or> list_all (\<lambda>kept. stLastSeenBlock (snd old) \<le> stLastSeenBlock (snd kept)) (mmRoutes m'))
        (mmRoutes m)"
proof (cases "int (length (mmRoutes m)) \<le> mmMaxRoutes m")
  case True
  then show ?thesis using assms by (simp add: pruneLocked_def list_all_iff)
next
  case False
  define items where "items = sort_slice by_age (mmRoutes m)"
  define n where "n = length (mmRoutes m) - nat (mmMaxRoutes m)"
  have ms: "mset items = mset (mmRoutes m)" by (simp add: items_def)
  have routes: "mmRoutes m' = filter (\<lambda>(key, _). key \<notin> set (map fst (take n items))) (mmRoutes m)" "mmMaxRoutes m' = mmMaxRoutes m"
    using False assms(2,3) by (simp_all add: pruneLocked_def items_def n_def Let_def)
  note fv = filter_victims [OF dist ms, of n]
  have kept: "set (mmRoutes m') = set (drop n items)" "length (mmRoutes m') = length (mmRoutes m) - n"
    using fv routes by simp_all
  have "sorted_wrt (\<lambda>a b. \<not> by_age b a) items" unfolding items_def by (rule age_order.ordered_sort_slice)
  then have "sorted_wrt (\<lambda>a b. \<not> by_age b a) (take n items @ drop n items)" by simp
  then have older: "\<not> by_age b a" if "a \<in> set (take n items)" "b \<in> set (drop n items)" for a b
    using that unfolding sorted_wrt_append by blast
  have "list_all (\<lambda>old. old \<in> set (mmRoutes m') \<or> list_all (\<lambda>kept. stLastSeenBlock (snd old) \<le> stLastSeenBlock (snd kept)) (mmRoutes m'))
        (mmRoutes m)"
    unfolding list_all_iff
  proof
    fix old assume "old \<in> set (mmRoutes m)"
    then have "old \<in> set (take n items) \<or> old \<in> set (drop n items)"
      using ms by (metis Un_iff append_take_drop_id mset_eq_setD set_append)
    then show "old \<in> set (mmRoutes m') \<or> (\<forall>kept\<in>set (mmRoutes m'). stLastSeenBlock (snd old) \<le> stLastSeenBlock (snd kept))"
      using older kept(1) unfolding by_age_def not_less by blast
  qed
  moreover have "int (length (mmRoutes m')) = mmMaxRoutes m" using kept(2) False assms(2) by (simp add: n_def)
  ultimately show ?thesis using False routes distinct_filter_keys [OF dist] by auto
qed

lemma update_keeps: "old \<in> set xs \<Longrightarrow> fst old \<noteq> k \<Longrightarrow> old \<in> set (AList.update k s xs)"
  by (induction xs) auto

lemma Observe_keys:
  "distinct (map fst (mmRoutes m)) \<Longrightarrow> distinct (map fst (AList.update k s (mmRoutes m)))"
  by (rule distinct_update)


definition demo_record :: Record where
  "demo_record = \<lparr>nmRoute = ''A'', nmDEXPath = '''', nmHopCount = 2, nmLoanAsset = ''A'', nmAmountIn = Some 100, nmAmountOut = Some 90,
     nmGrossProfit = None, nmAavePremium = None, nmL1Fee = None, nmL2Fee = None, nmPriceImpactBPS = 1000,
     nmNetProfit = Some (- 10), nmMinProfit = Some 5, nmGapToProfit = Some 15, nmRejectionReason = '''', nmScore = 100,
     nmLatencyMS = 3, nmQuoteSuccessful = True, nmSufficientLiquidity = True, nmCrossVenue = False, nmFailureCount = 0,
     nmTimestamp = 0\<rparr>"


text \<open>
  \<open>MarkDirty\<close> creates an entry with all averages zero for a route that was never observed. The market cycle marks
  every affected route before it evaluates it, so the first observation of a route is blended with these zeros: one
  successful quote gives a success average of 0.35, which the pre-quote score punishes.
\<close>

lemma first_observation_diluted:
  assumes "trim_space key \<noteq> ''''" and "nmQuoteSuccessful r"
  shows "\<exists>s. mmRoutes (Observe rat_ops key r b2 (MarkDirty rat_ops key b1 (NewRouteMemory 8192))) = [(trim_space key, s)]
    \<and> stObservations s = 1 \<and> stQuoteSuccessEMA s = 35 / 100"
  using assms
  by (simp add: Observe_def MarkDirty_def NewRouteMemory_def pruneLocked_def blend_stats_def fresh_stats_def zero_stats_def
      boolFloat_def ema_def Let_def)

end
