(* ===== verification/Volatility.thy ===== *)
theory Volatility
  imports Float64 Pools
begin

text \<open>
  \<open>go/internal/volatility/volatility.go\<close>: search-priority signals from the movement of a pool's price between two
  observations and from the dispersion of the prices of one pair over its pools.
\<close>

record Signal =
  MovementBPS :: u64
  DispersionBPS :: u64

definition Signal_Score :: "'f FloatOps \<Rightarrow> Signal \<Rightarrow> 'f \<Rightarrow> 'f" where
  "Signal_Score F s weight =
     (let weight = (if fLt F weight (fNum F 0) then fNum F 0 else weight)
      in fMul F (fOfInt F (uint (MovementBPS s + DispersionBPS s))) weight)"

definition relativeBPS :: "bigint \<Rightarrow> bigint \<Rightarrow> u64" where
  "relativeBPS a b =
     (case (a, b) of
        (Some x, Some y) \<Rightarrow>
          if x \<le> 0 \<or> y \<le> 0 then 0
          else of_int (big_div (\<bar>x - y\<bar> * 10000) (if y > x then y else x))
      | _ \<Rightarrow> 0)"

definition pairKey :: "string \<Rightarrow> string \<Rightarrow> string" where
  "pairKey a b =
     (let x = to_lower a; y = to_lower b in if y < x then y @ '':'' @ x else x @ '':'' @ y)"

text \<open>The tracker's state: the last price of every pool it has seen.\<close>

type_synonym tracker = "string \<rightharpoonup> int"

type_synonym signals = "string \<rightharpoonup> Signal"

definition priced :: "Pool \<Rightarrow> bool" where
  "priced p \<longleftrightarrow> big_pos (pSqrtPriceX96 p)"

definition observe_pool :: "Pool \<Rightarrow> signals \<times> tracker \<Rightarrow> signals \<times> tracker" where
  "observe_pool p = (\<lambda>(result, previous).
     if \<not> priced p then (result, previous)
     else let key = to_lower (pAddress p)
          in (result(key \<mapsto> \<lparr>MovementBPS = relativeBPS (previous key) (pSqrtPriceX96 p), DispersionBPS = 0\<rparr>),
              previous(key \<mapsto> the (pSqrtPriceX96 p))))"

text \<open>The pools grouped by pair, in the order of \<open>active\<close>; the groups are disjoint, so that the order in which Go's map
  yields them does not matter.\<close>

definition pair_groups :: "Pool list \<Rightarrow> Pool list list" where
  "pair_groups active =
     (let ps = filter priced active; key = (\<lambda>p. pairKey (pToken0 p) (pToken1 p))
      in map (\<lambda>k. filter (\<lambda>p. key p = k) ps) (remdups (map key ps)))"

definition price :: "Pool \<Rightarrow> int" where
  "price p = big_or_zero (pSqrtPriceX96 p)"

definition pair_dispersion :: "Pool list \<Rightarrow> u64" where
  "pair_dispersion pair =
     relativeBPS (Some (foldl (\<lambda>m p. if price p < m then price p else m) (price (hd pair)) (tl pair)))
                 (Some (foldl (\<lambda>m p. if price p > m then price p else m) (price (hd pair)) (tl pair)))"

definition set_dispersion :: "u64 \<Rightarrow> Pool \<Rightarrow> signals \<Rightarrow> signals" where
  "set_dispersion dispersion p m =
     (let key = to_lower (pAddress p);
          signal = (case m key of Some s \<Rightarrow> s | None \<Rightarrow> \<lparr>MovementBPS = 0, DispersionBPS = 0\<rparr>)
      in m(key \<mapsto> signal\<lparr>DispersionBPS := dispersion\<rparr>))"

definition disperse :: "Pool list \<Rightarrow> signals \<Rightarrow> signals" where
  "disperse pair result =
     (if length pair < 2 then result else fold (set_dispersion (pair_dispersion pair)) pair result)"

definition Observe :: "Pool list \<Rightarrow> tracker \<Rightarrow> signals \<times> tracker" where
  "Observe active previous =
     (case fold observe_pool active (Map.empty, previous) of
        (result, previous') \<Rightarrow> (fold disperse (pair_groups active) result, previous'))"

definition signal_score :: "'f FloatOps \<Rightarrow> signals \<Rightarrow> 'f \<Rightarrow> Pool \<Rightarrow> 'f" where
  "signal_score F signals weight p =
     Signal_Score F (case signals (to_lower (pAddress p)) of Some s \<Rightarrow> s | None \<Rightarrow> \<lparr>MovementBPS = 0, DispersionBPS = 0\<rparr>) weight"

definition RankPools :: "'f FloatOps \<Rightarrow> Pool list \<Rightarrow> signals \<Rightarrow> 'f \<Rightarrow> Pool list" where
  "RankPools F active signals weight =
     sort_slice (\<lambda>a b. let left = signal_score F signals weight a; right = signal_score F signals weight b
                       in if left \<noteq> right then fLt F right left
                          else to_lower (pAddress a) < to_lower (pAddress b)) active"

section \<open>Signals are basis points\<close>

lemma relativeBPS_int:
  assumes "0 < x" "0 < y"
  shows "uint (relativeBPS (Some x) (Some y)) = \<bar>x - y\<bar> * 10000 div max x y"
    and "\<bar>x - y\<bar> * 10000 div max x y \<in> {0..10000}"
proof -
  have m: "0 < max x y" "0 \<le> \<bar>x - y\<bar> * 10000" "\<bar>x - y\<bar> * 10000 \<le> max x y * 10000" using assms by auto
  have "\<bar>x - y\<bar> * 10000 div max x y \<le> max x y * 10000 div max x y" using m by (intro zdiv_mono1) auto
  then show r: "\<bar>x - y\<bar> * 10000 div max x y \<in> {0..10000}"
    using m by (auto simp: pos_imp_zdiv_nonneg_iff)
  have "(if y > x then y else x) = max x y" by auto
  then show "uint (relativeBPS (Some x) (Some y)) = \<bar>x - y\<bar> * 10000 div max x y"
    using assms m(1) r by (simp add: relativeBPS_def unsigned_of_int take_bit_int_eq_self)
qed

lemma relativeBPS_le: "relativeBPS a b \<le> 10000"
proof (cases "big_pos a \<and> big_pos b")
  case True
  then obtain x y where "a = Some x" "b = Some y" "0 < x" "0 < y" by (auto elim!: big_posE)
  then show ?thesis using relativeBPS_int [of x y] by (simp add: word_le_def)
next
  case False
  then have "relativeBPS a b = 0" by (cases a; cases b) (auto simp: relativeBPS_def)
  then show ?thesis by simp
qed

lemma relativeBPS_commute: "relativeBPS a b = relativeBPS b a"
  by (cases a; cases b) (auto simp: relativeBPS_def abs_minus_commute)

definition bounded_signals :: "signals \<Rightarrow> bool" where
  "bounded_signals m \<longleftrightarrow> (\<forall>k s. m k = Some s \<longrightarrow> MovementBPS s \<le> 10000 \<and> DispersionBPS s \<le> 10000)"

lemma bounded_observe_pool: "bounded_signals (fst s) \<Longrightarrow> bounded_signals (fst (observe_pool p s))"
  by (auto simp: observe_pool_def bounded_signals_def relativeBPS_le Let_def split: prod.splits)

lemma bounded_disperse: "bounded_signals m \<Longrightarrow> bounded_signals (disperse pair m)"
proof -
  have "bounded_signals (set_dispersion (pair_dispersion pair) p m)" if "bounded_signals m" for p m
    using that relativeBPS_le
    by (auto simp: bounded_signals_def set_dispersion_def pair_dispersion_def Let_def split: option.splits)
  then show "bounded_signals m \<Longrightarrow> bounded_signals (disperse pair m)"
    unfolding disperse_def by (auto intro: fold_keeps [where P = bounded_signals])
qed

text \<open>
  A volatility signal is a pair of basis points: whatever prices the tracker has seen before, both parts of every
  signal are at most 10000, so their 64-bit sum in the score cannot wrap.
\<close>

theorem signals_bounded:
  "bounded_signals (fst (Observe active previous))"
proof -
  have one: "bounded_signals (fst (fold observe_pool active s))" if "bounded_signals (fst s)" for s
    using that by (rule fold_keeps [where P = "\<lambda>s. bounded_signals (fst s)"]) (rule bounded_observe_pool)
  have groups: "bounded_signals (fold disperse gs m)" if "bounded_signals m" for gs m
    using that by (rule fold_keeps [where P = bounded_signals]) (rule bounded_disperse)
  obtain result previous' where r: "fold observe_pool active (Map.empty, previous) = (result, previous')" by fastforce
  have "bounded_signals (fst (fold observe_pool active (Map.empty, previous)))"
    by (rule one) (simp add: bounded_signals_def)
  then show ?thesis using r groups by (simp add: Observe_def)
qed

text \<open>The tracker never forgets a pool, although its comment calls it bounded by the active pool set.\<close>

lemma tracker_only_grows: "dom previous \<subseteq> dom (snd (Observe active previous))"
proof -
  have "dom (snd s) \<subseteq> dom (snd (fold observe_pool active s))" for s
  proof (induction active arbitrary: s)
    case (Cons p ps)
    have "dom (snd s) \<subseteq> dom (snd (observe_pool p s))"
      by (auto simp: observe_pool_def Let_def split: prod.splits)
    then show ?case using Cons.IH [of "observe_pool p s"] by auto
  qed simp
  from this [of "(Map.empty, previous)"] show ?thesis by (auto simp: Observe_def split: prod.splits)
qed

end
