(* ===== verification/MarketSelect.thy ===== *)
theory MarketSelect
  imports NearMiss Volatility MarketReconcile
begin

text \<open>
  \<open>go/internal/market/engine.go\<close>, choice of the routes a cycle spends its quotes on: pre-quote ranking and the
  exploit/new/explore slots, the quote-cost bound, the choice of the routes that are optimised, and the merge of
  near misses. \<open>int64\<close> scores and counters are integers; the \<open>float64\<close> parts of the ranking go through
  \<open>FloatOps\<close>.
\<close>

section \<open>Keys and ranking inputs\<close>

definition routeKey :: "Route \<Rightarrow> string" where
  "routeKey route =
     join ''|'' ([Route_String route, DEXPath route] @ map (\<lambda>hop. to_lower (pAddress hop)) (rHops route))"

definition routeVolatility :: "'f FloatOps \<Rightarrow> Route \<Rightarrow> signals \<Rightarrow> 'f \<Rightarrow> 'f" where
  "routeVolatility F route signals weight =
     (if rHops route = [] then fNum F 0
      else fDiv F (foldl (\<lambda>total pool. fAdd F total (signal_score F signals weight pool)) (fNum F 0) (rHops route))
                  (fOfInt F (int (length (rHops route)))))"

fun pair_quality :: "'f FloatOps \<Rightarrow> (string \<Rightarrow> string \<Rightarrow> 'f \<times> bool) \<Rightarrow> MarketConfig \<Rightarrow> string list \<Rightarrow> 'f \<Rightarrow> 'f \<Rightarrow> ('f \<times> 'f) option" where
  "pair_quality F pairScore market (x # y # rest) weak denom =
     (case (token market x, token market y) of
        (Some a, Some b) \<Rightarrow>
          (case pairScore (tAddress a) (tAddress b) of
             (s, known) \<Rightarrow>
               if \<not> known \<or> fLe F s (fNum F 0) then None
               else pair_quality F pairScore market (y # rest) (if fLt F s weak then s else weak)
                      (fAdd F denom (fDiv F (fNum F 1) s)))
      | _ \<Rightarrow> None)"
| "pair_quality F pairScore market _ weak denom = Some (weak, denom)"

definition routePairQuality :: "'f FloatOps \<Rightarrow> (string \<Rightarrow> string \<Rightarrow> 'f \<times> bool) option \<Rightarrow> MarketConfig \<Rightarrow> Route \<Rightarrow> 'f" where
  "routePairQuality F pairScore market route =
     (case pairScore of
        None \<Rightarrow> fNum F 0
      | Some score \<Rightarrow>
          if length (rSymbols route) < 2 then fNum F 0
          else case pair_quality F score market (rSymbols route) (fNum F 100) (fNum F 0) of
                 None \<Rightarrow> fNum F 0
               | Some (weak, denom) \<Rightarrow>
                   let harm = fDiv F (fOfInt F (int (length (rSymbols route)) - 1)) denom
                   in fAdd F (fMul F (fNum F (6 / 10)) weak) (fMul F (fNum F (4 / 10)) harm))"

fun distinct_keys :: "string set \<Rightarrow> Route list \<Rightarrow> Route list" where
  "distinct_keys seen [] = []"
| "distinct_keys seen (route # rest) =
     (if routeKey route \<in> seen then distinct_keys seen rest
      else route # distinct_keys (insert (routeKey route) seen) rest)"

definition dedupeRoutes :: "Route list \<Rightarrow> Route list" where
  "dedupeRoutes candidates = (if length candidates < 2 then candidates else distinct_keys {} candidates)"

definition boundedRoutes :: "Route list \<Rightarrow> int \<Rightarrow> Route list" where
  "boundedRoutes candidates limit =
     (if limit < 1 \<or> int (length candidates) \<le> limit then candidates else take (nat limit) candidates)"

section \<open>Selection\<close>

record scoredRoute =
  scRoute :: Route
  scKey :: string
  scScore :: int
  scObservations :: u64
  scCrossVenue :: bool

record evaluationSelection =
  seExploit :: int
  seExplore :: int
  seNew :: int
  seCrossVenue :: int
  seSameDEX :: int
  seAvgScore :: int
  seScores :: "string \<rightharpoonup> int"
  seKinds :: "string \<rightharpoonup> string"

definition no_selection :: evaluationSelection where
  "no_selection = \<lparr>seExploit = 0, seExplore = 0, seNew = 0, seCrossVenue = 0, seSameDEX = 0, seAvgScore = 0,
     seScores = Map.empty, seKinds = Map.empty\<rparr>"

definition score_route :: "'f FloatOps \<Rightarrow> 'f RouteMemory \<Rightarrow> (string \<Rightarrow> string \<Rightarrow> 'f \<times> bool) option \<Rightarrow> MarketConfig
    \<Rightarrow> signals \<Rightarrow> 'f \<Rightarrow> u64 \<Rightarrow> Route \<Rightarrow> scoredRoute" where
  "score_route F memory pairScore market signals weight stateBlock route =
     (let key = routeKey route; cross = CrossVenue route;
          score = PreQuoteScore F memory \<lparr>pqKey = key, pqCrossVenue = cross,
                    pqVolatility = routeVolatility F route signals weight, pqCurrentBlock = stateBlock\<rparr>
      in \<lparr>scRoute = route, scKey = key,
          scScore = score + (if cross \<and> length (rHops route) = 2 then 400 else 0)
                    + fInt F (fMul F (routePairQuality F pairScore market route) (fNum F 50)),
          scObservations = (case lookup_stats key memory of None \<Rightarrow> 0 | Some s \<Rightarrow> stObservations s),
          scCrossVenue = cross\<rparr>)"

text \<open>\<open>limit\<close> is already at most the number of scored routes.\<close>

definition explore_slots :: "int \<Rightarrow> int \<Rightarrow> int" where
  "explore_slots limit ratio =
     (let slots = big_quo (limit * ratio) 10000;
          slots1 = (if ratio > 0 \<and> slots = 0 \<and> limit > 1 then 1 else slots)
      in if slots1 > limit then limit else slots1)"

definition new_slots :: "int \<Rightarrow> int \<Rightarrow> int" where
  "new_slots limit exploreSlots =
     (let slots = big_quo limit 10; slots1 = (if slots = 0 \<and> limit \<ge> 3 then 1 else slots)
      in if slots1 + exploreSlots > limit then 0 else slots1)"

definition by_score :: "scoredRoute \<Rightarrow> scoredRoute \<Rightarrow> bool" where
  "by_score a b = (if scScore a \<noteq> scScore b then scScore a > scScore b else scKey a < scKey b)"

definition by_novelty :: "scoredRoute \<Rightarrow> scoredRoute \<Rightarrow> bool" where
  "by_novelty a b =
     (if scObservations a \<noteq> scObservations b then scObservations a < scObservations b
      else if scScore a \<noteq> scScore b then scScore a > scScore b else scKey a < scKey b)"

text \<open>The closure \<open>add\<close>: the selected routes so far and their kinds, whose domain is \<open>selectedKeys\<close>.\<close>

type_synonym picked = "Route list \<times> (string \<rightharpoonup> string)"

definition add_pick :: "int \<Rightarrow> string \<Rightarrow> scoredRoute \<Rightarrow> picked \<Rightarrow> bool \<times> picked" where
  "add_pick limit kind item = (\<lambda>(selected, kinds).
     if int (length selected) \<ge> limit \<or> kinds (scKey item) \<noteq> None then (False, selected, kinds)
     else (True, selected @ [scRoute item], kinds(scKey item \<mapsto> kind)))"

fun pick :: "int \<Rightarrow> int \<Rightarrow> string \<Rightarrow> (scoredRoute \<Rightarrow> bool) \<Rightarrow> scoredRoute list \<Rightarrow> int \<Rightarrow> picked \<Rightarrow> int \<times> picked" where
  "pick limit slots kind ok [] n st = (n, st)"
| "pick limit slots kind ok (item # items) n st =
     (if n \<ge> slots then (n, st)
      else if \<not> ok item then pick limit slots kind ok items n st
      else case add_pick limit kind item st of
             (added, st') \<Rightarrow> pick limit slots kind ok items (if added then n + 1 else n) st')"

fun fill :: "int \<Rightarrow> scoredRoute list \<Rightarrow> int \<Rightarrow> picked \<Rightarrow> int \<times> picked" where
  "fill limit [] n st = (n, st)"
| "fill limit (item # items) n st =
     (if int (length (fst st)) \<ge> limit then (n, st)
      else case add_pick limit ''exploit'' item st of
             (added, st') \<Rightarrow> fill limit items (if added then n + 1 else n) st')"

definition score_selection :: "scoredRoute list \<Rightarrow> Route list \<Rightarrow> evaluationSelection \<Rightarrow> evaluationSelection" where
  "score_selection scored selected sel =
     (let hit = (\<lambda>route. find (\<lambda>item. scKey item = routeKey route) scored);
          hits = List.map_filter hit selected;
          total = sum_list (map scScore hits)
      in sel\<lparr>seScores := fold (\<lambda>item m. m(scKey item \<mapsto> scScore item)) hits (seScores sel),
             seCrossVenue := seCrossVenue sel + int (length (filter scCrossVenue hits)),
             seSameDEX := seSameDEX sel + int (length (filter (\<lambda>i. \<not> scCrossVenue i) hits)),
             seAvgScore := (if selected = [] then seAvgScore sel else big_quo total (int (length selected)))\<rparr>)"

definition select_scored :: "int \<Rightarrow> int \<Rightarrow> scoredRoute list \<Rightarrow> Route list \<times> evaluationSelection" where
  "select_scored limit0 ratio items =
     (let limit = (if limit0 > int (length items) then int (length items) else limit0);
          exploreSlots = explore_slots limit ratio;
          newSlots = new_slots limit exploreSlots;
          exploitSlots = limit - exploreSlots - newSlots;
          scored = sort_slice by_score items;
          (exploit, st1) = pick limit exploitSlots ''exploit'' (\<lambda>_. True) scored 0 ([], Map.empty);
          (new, st2) = pick limit newSlots ''new'' (\<lambda>item. scObservations item = 0) scored 0 st1;
          (explore, st3) = pick limit exploreSlots ''explore'' (\<lambda>_. True) (sort_slice by_novelty scored) 0 st2;
          (exploit', (selected, kinds)) = fill limit scored exploit st3
      in (selected, score_selection scored selected
            (no_selection\<lparr>seExploit := exploit', seNew := new, seExplore := explore, seKinds := kinds\<rparr>)))"

definition summarizeLegacySelection :: "Route list \<Rightarrow> evaluationSelection" where
  "summarizeLegacySelection selected =
     no_selection\<lparr>seExploit := int (length selected), seScores := fold (\<lambda>r m. m(routeKey r \<mapsto> 0)) selected Map.empty,
       seCrossVenue := int (length (filter CrossVenue selected)),
       seSameDEX := int (length (filter (\<lambda>r. \<not> CrossVenue r) selected))\<rparr>"

definition selectEvaluationCandidates :: "'f FloatOps \<Rightarrow> 'f RouteMemory \<Rightarrow> (string \<Rightarrow> string \<Rightarrow> 'f \<times> bool) option \<Rightarrow> MarketConfig
    \<Rightarrow> Route list \<Rightarrow> SearchOptions \<Rightarrow> signals \<Rightarrow> 'f \<Rightarrow> u64 \<Rightarrow> Route list \<times> evaluationSelection" where
  "selectEvaluationCandidates F memory pairScore market candidates options signals weight stateBlock =
     (let limit = EvaluationRoutesPerAsset options
      in if DisablePreQuoteRanking options
         then let selected = boundedRoutes (dedupeRoutes candidates) limit in (selected, summarizeLegacySelection selected)
         else if limit < 1 \<or> candidates = [] then ([], no_selection)
         else select_scored limit (ExploreRatioBPS options)
                (map (score_route F memory pairScore market signals weight stateBlock) (distinct_keys {} candidates)))"

section \<open>Quote cost\<close>

definition route_cost :: "Route \<Rightarrow> int" where
  "route_cost route = (if length (rHops route) < 1 then 1 else int (length (rHops route)))"

fun bound_routes :: "int \<Rightarrow> Route list \<Rightarrow> int \<Rightarrow> Route list \<times> int" where
  "bound_routes budget [] used = ([], used)"
| "bound_routes budget (route # rest) used =
     (if used + route_cost route > budget then bound_routes budget rest used
      else case bound_routes budget rest (used + route_cost route) of (out, spent) \<Rightarrow> (route # out, spent))"

definition boundRoutesByQuoteCost :: "Route list \<Rightarrow> int \<Rightarrow> Route list \<times> int" where
  "boundRoutesByQuoteCost input budget = (if budget < 1 then ([], 0) else bound_routes budget input 0)"

definition summarizeBoundedSelection :: "Route list \<Rightarrow> evaluationSelection \<Rightarrow> evaluationSelection" where
  "summarizeBoundedSelection selected original =
     (let score = (\<lambda>r. case seScores original (routeKey r) of Some s \<Rightarrow> s | None \<Rightarrow> 0);
          kind = (\<lambda>r. case seKinds original (routeKey r) of Some k \<Rightarrow> k | None \<Rightarrow> '''')
      in \<lparr>seExploit = int (length (filter (\<lambda>r. kind r \<noteq> ''new'' \<and> kind r \<noteq> ''explore'') selected)),
          seExplore = int (length (filter (\<lambda>r. kind r = ''explore'') selected)),
          seNew = int (length (filter (\<lambda>r. kind r = ''new'') selected)),
          seCrossVenue = int (length (filter CrossVenue selected)),
          seSameDEX = int (length (filter (\<lambda>r. \<not> CrossVenue r) selected)),
          seAvgScore = (if selected = [] then 0 else big_quo (sum_list (map score selected)) (int (length selected))),
          seScores = fold (\<lambda>r m. m(routeKey r \<mapsto> score r)) selected Map.empty,
          seKinds = fold (\<lambda>r m. m(routeKey r \<mapsto> kind r)) selected Map.empty\<rparr>)"

section \<open>Evaluated routes\<close>

record evaluatedRoute =
  erRoute :: Route
  erScore :: bigint
  erNearMiss :: "Record option"
  erRouteScore :: int
  erPreQuoteScore :: int
  erQuoteSuccessful :: bool
  erQuoteAgeBlocks :: u64

definition optimizerEligible :: "evaluatedRoute \<Rightarrow> bool" where
  "optimizerEligible item \<longleftrightarrow>
     big_pos (erScore item) \<or>
     (case erNearMiss item of
        None \<Rightarrow> False
      | Some r \<Rightarrow>
          (case (nmGapToProfit r, nmMinProfit r) of
             (Some gap, Some minimum) \<Rightarrow> minimum > 0 \<and> gap \<le> minimum * 3
           | _ \<Rightarrow> False))"

record optimizerCandidate =
  ocRoute :: Route
  ocScore :: int
  ocNetProfit :: bigint
  ocMinProfit :: bigint
  ocGap :: bigint

definition better_candidate :: "evaluatedRoute \<Rightarrow> evaluatedRoute \<Rightarrow> bool" where
  "better_candidate a b =
     (if erRouteScore a \<noteq> erRouteScore b then erRouteScore a > erRouteScore b
      else case (erScore a, erScore b) of
             (Some l, Some r) \<Rightarrow> if l \<noteq> r then l > r else Route_String (erRoute a) < Route_String (erRoute b)
           | (_, right) \<Rightarrow> right = None)"

definition mk_candidate :: "evaluatedRoute \<Rightarrow> optimizerCandidate" where
  "mk_candidate item =
     \<lparr>ocRoute = erRoute item, ocScore = erRouteScore item,
      ocNetProfit = Option.bind (erNearMiss item) nmNetProfit, ocMinProfit = Option.bind (erNearMiss item) nmMinProfit,
      ocGap = Option.bind (erNearMiss item) nmGapToProfit\<rparr>"

definition selectOptimizerCandidates :: "evaluatedRoute list \<Rightarrow> int \<Rightarrow> optimizerCandidate list" where
  "selectOptimizerCandidates evaluated limit =
     (if limit < 1 \<or> evaluated = [] then []
      else take (nat limit) (map mk_candidate (filter optimizerEligible (sort_slice better_candidate evaluated))))"

definition updateRouteFailures :: "evaluatedRoute list \<Rightarrow> (string \<rightharpoonup> u64) \<Rightarrow> string \<rightharpoonup> u64" where
  "updateRouteFailures evaluated failures =
     fold (\<lambda>item m.
        if erScore item = None then m
        else let key = routeKey (erRoute item)
             in if (case erNearMiss item of None \<Rightarrow> False | Some r \<Rightarrow> big_pos (nmGapToProfit r))
                then m(key \<mapsto> (case m key of None \<Rightarrow> 0 | Some n \<Rightarrow> n) + 1) else m(key := None)) evaluated failures"

definition updateRouteMemory :: "'f FloatOps \<Rightarrow> evaluatedRoute list \<Rightarrow> u64 \<Rightarrow> 'f RouteMemory \<Rightarrow> 'f RouteMemory" where
  "updateRouteMemory F evaluated block memory =
     fold (\<lambda>item m. case erNearMiss item of None \<Rightarrow> m
                    | Some r \<Rightarrow> NearMiss.Observe F (routeKey (erRoute item)) r block m) evaluated memory"

definition reviveDirtyRouteMemory :: "'f FloatOps \<Rightarrow> Route list \<Rightarrow> u64 \<Rightarrow> 'f RouteMemory \<Rightarrow> 'f RouteMemory" where
  "reviveDirtyRouteMemory F affected block memory =
     fold (\<lambda>route m. MarkDirty F (routeKey route) block m) affected memory"

definition near_miss_key :: "Record \<Rightarrow> string" where
  "near_miss_key r = nmRoute r @ ''|'' @ nmDEXPath r @ ''|'' @ (case nmAmountIn r of None \<Rightarrow> '''' | Some a \<Rightarrow> show_int a)"

definition keep_newest :: "Record \<Rightarrow> (string \<times> Record) list \<Rightarrow> (string \<times> Record) list" where
  "keep_newest r byKey =
     (case map_of byKey (near_miss_key r) of
        Some old \<Rightarrow> if nmTimestamp r > nmTimestamp old then AList.update (near_miss_key r) r byKey else byKey
      | None \<Rightarrow> AList.update (near_miss_key r) r byKey)"

definition newer_first :: "Record \<Rightarrow> Record \<Rightarrow> bool" where
  "newer_first a b = (if nmTimestamp a \<noteq> nmTimestamp b then nmTimestamp a > nmTimestamp b else nmRoute a < nmRoute b)"

definition mergeNearMisses :: "Record list \<Rightarrow> Record list \<Rightarrow> int \<Rightarrow> Record list" where
  "mergeNearMisses previous current limit =
     (if limit < 1 then []
      else take (nat limit) (sort_slice newer_first (map snd (fold keep_newest (previous @ current) []))))"

definition combineAverages :: "int \<Rightarrow> u64 \<Rightarrow> int \<Rightarrow> u64 \<Rightarrow> int" where
  "combineAverages current currentCount next nextCount =
     (let total = currentCount + nextCount
      in if total = 0 then 0 else big_quo (sint currentCount * current + sint nextCount * next) (sint total))"

definition quoteAgeBlocks :: "u64 \<Rightarrow> u64 \<Rightarrow> u64" where
  "quoteAgeBlocks stateBlock sourceBlock =
     (if stateBlock = 0 \<or> sourceBlock = 0 \<or> stateBlock \<le> sourceBlock then 0 else stateBlock - sourceBlock)"

definition forcedRouteSourceBlock :: "Route \<Rightarrow> u64" where
  "forcedRouteSourceBlock route =
     foldl (\<lambda>source pool. if pLastUpdatedBlock pool = 0 then source
                          else if source = 0 \<or> pLastUpdatedBlock pool < source then pLastUpdatedBlock pool else source)
       0 (rHops route)"

section \<open>The selection fills its limit with distinct routes\<close>

lemma distinct_keys_spec:
  "distinct (map routeKey (distinct_keys seen rs)) \<and> set (distinct_keys seen rs) \<subseteq> set rs
   \<and> routeKey ` set (distinct_keys seen rs) = routeKey ` set rs - seen"
proof (induction rs arbitrary: seen)
  case (Cons r rs)
  show ?case using Cons.IH [of seen] Cons.IH [of "insert (routeKey r) seen"] by (auto 0 3)
qed simp

lemma length_distinct_keys: "length (distinct_keys {} rs) = card (routeKey ` set rs)"
  using distinct_keys_spec [of "{}" rs] by (metis Diff_empty distinct_card length_map list.set_map)

definition keyed :: "scoredRoute \<Rightarrow> bool" where
  "keyed item \<longleftrightarrow> scKey item = routeKey (scRoute item)"

definition picked_ok :: "int \<Rightarrow> scoredRoute set \<Rightarrow> picked \<Rightarrow> bool" where
  "picked_ok limit items st \<longleftrightarrow> dom (snd st) = routeKey ` set (fst st) \<and> distinct (map routeKey (fst st))
     \<and> int (length (fst st)) \<le> limit \<and> set (fst st) \<subseteq> scRoute ` items"

lemma add_pick_ok:
  assumes "picked_ok limit items st" "item \<in> items" "keyed item" "add_pick limit kind item st = (added, st')"
  shows "picked_ok limit items st' \<and> length (fst st') = length (fst st) + (if added then 1 else 0)
    \<and> set (fst st) \<subseteq> set (fst st') \<and> dom (snd st) \<subseteq> dom (snd st')"
proof (cases added)
  case True
  then have st': "fst st' = fst st @ [scRoute item]" "dom (snd st') = insert (scKey item) (dom (snd st))"
    and fresh: "int (length (fst st)) < limit" "scKey item \<notin> dom (snd st)"
    using assms(4) by (cases st; auto simp: add_pick_def split: if_splits)+
  show ?thesis
    using assms(1-3) fresh True unfolding picked_ok_def keyed_def st' by auto
next
  case False
  then have "st' = st" using assms(4) by (cases st) (auto simp: add_pick_def split: if_splits)
  then show ?thesis using assms(1) False by simp
qed

lemma pick_ok:
  assumes "picked_ok limit items st" "set xs \<subseteq> items" "\<forall>i\<in>items. keyed i" "pick limit slots kind ok xs n st = (n', st')"
  shows "picked_ok limit items st' \<and> n' - n = int (length (fst st')) - int (length (fst st)) \<and> set (fst st) \<subseteq> set (fst st')"
  using assms(1,2,4)
proof (induction xs arbitrary: n st)
  case (Cons x xs)
  obtain added st1 where a: "add_pick limit kind x st = (added, st1)" by (metis prod.exhaust)
  have x: "x \<in> items" "keyed x" "set xs \<subseteq> items" using Cons.prems(2) assms(3) by auto
  note one = add_pick_ok [OF Cons.prems(1) x(1,2) a]
  show ?case
  proof (cases "n \<ge> slots \<or> \<not> ok x")
    case True
    then show ?thesis using Cons.prems Cons.IH [OF Cons.prems(1) x(3)] by (auto split: if_splits)
  next
    case False
    then have "pick limit slots kind ok xs (if added then n + 1 else n) st1 = (n', st')"
      using Cons.prems(3) a by simp
    from Cons.IH [OF conjunct1 [OF one] x(3) this] one show ?thesis by (auto split: if_splits)
  qed
qed simp

lemma fill_ok:
  assumes "picked_ok limit items st" "set xs \<subseteq> items" "\<forall>i\<in>items. keyed i" "fill limit xs n st = (n', st')"
  shows "picked_ok limit items st' \<and> n' - n = int (length (fst st')) - int (length (fst st)) \<and> set (fst st) \<subseteq> set (fst st')
    \<and> dom (snd st) \<subseteq> dom (snd st') \<and> (limit \<le> int (length (fst st')) \<or> scKey ` set xs \<subseteq> dom (snd st'))"
  using assms(1,2,4)
proof (induction xs arbitrary: n st)
  case (Cons x xs)
  obtain added st1 where a: "add_pick limit ''exploit'' x st = (added, st1)" by (metis prod.exhaust)
  have x: "x \<in> items" "keyed x" "set xs \<subseteq> items" using Cons.prems(2) assms(3) by auto
  note one = add_pick_ok [OF Cons.prems(1) x(1,2) a]
  show ?case
  proof (cases "int (length (fst st)) \<ge> limit")
    case True
    then show ?thesis using Cons.prems by auto
  next
    case False
    then have f: "fill limit xs (if added then n + 1 else n) st1 = (n', st')" using Cons.prems(3) a by simp
    have "scKey x \<in> dom (snd st1)" using False a by (cases st) (auto simp: add_pick_def split: if_splits)
    note rest = Cons.IH [OF conjunct1 [OF one] x(3) f]
    have "dom (snd st) \<subseteq> dom (snd st')" "set (fst st) \<subseteq> set (fst st')" using rest one by blast+
    moreover have "n' - n = int (length (fst st')) - int (length (fst st))" using rest one by (auto split: if_splits)
    moreover have "limit \<le> int (length (fst st')) \<or> scKey ` set (x # xs) \<subseteq> dom (snd st')"
      using rest \<open>scKey x \<in> dom (snd st1)\<close> by auto
    ultimately show ?thesis using rest by blast
  qed
qed simp

lemma pick_best:
  assumes "distinct (map scKey xs)" "\<forall>i\<in>set xs. kinds (scKey i) = None" "slots - n \<le> limit - int (length selected)" "n \<le> slots"
  shows "\<exists>kinds'. pick limit slots kind (\<lambda>_. True) xs n (selected, kinds)
    = (n + int (length (take (nat (slots - n)) xs)), selected @ map scRoute (take (nat (slots - n)) xs), kinds')"
  using assms
proof (induction xs arbitrary: n selected kinds)
  case (Cons x xs)
  show ?case
  proof (cases "n = slots")
    case False
    let ?s = "selected @ [scRoute x]" and ?k = "kinds(scKey x \<mapsto> kind)"
    have other: "scKey i \<noteq> scKey x" if "i \<in> set xs" for i
      using Cons.prems(1) that by (metis distinct.simps(2) image_eqI list.set_map list.simps(9))
    have "int (length selected) < limit" using False Cons.prems by simp
    then have "pick limit slots kind (\<lambda>_. True) (x # xs) n (selected, kinds) = pick limit slots kind (\<lambda>_. True) xs (n + 1) (?s, ?k)"
      using False Cons.prems by (simp add: add_pick_def)
    moreover have "\<exists>kinds'. pick limit slots kind (\<lambda>_. True) xs (n + 1) (?s, ?k)
        = (n + 1 + int (length (take (nat (slots - (n + 1))) xs)), ?s @ map scRoute (take (nat (slots - (n + 1))) xs), kinds')"
      using Cons.prems False other by (intro Cons.IH) auto
    moreover have "nat (slots - n) = Suc (nat (slots - (n + 1)))" using False Cons.prems by simp
    ultimately show ?thesis by auto
  qed simp
qed simp

lemma slots_bounds:
  assumes "0 \<le> limit" "0 \<le> ratio"
  shows "0 \<le> explore_slots limit ratio \<and> explore_slots limit ratio \<le> limit
    \<and> 0 \<le> new_slots limit (explore_slots limit ratio) \<and> explore_slots limit ratio + new_slots limit (explore_slots limit ratio) \<le> limit"
  using assms by (auto simp: explore_slots_def new_slots_def Let_def pos_imp_zdiv_nonneg_iff)

interpretation score_order: strict_weak by_score
  by unfold_locales (auto simp: by_score_def split: if_splits)

lemma select_scored_spec:
  assumes keys: "distinct (map scKey items)" and keyed: "\<forall>i\<in>set items. keyed i" and "1 \<le> limit" and "0 \<le> ratio"
    and sel: "select_scored limit ratio items = (selected, s)"
  defines "n \<equiv> min limit (int (length items))"
  shows "int (length selected) = n \<and> distinct (map routeKey selected) \<and> set selected \<subseteq> scRoute ` set items
    \<and> seExploit s + seNew s + seExplore s = n
    \<and> set (map scRoute (take (nat (n - explore_slots n ratio - new_slots n (explore_slots n ratio))) (sort_slice by_score items)))
        \<subseteq> set selected"
proof -
  let ?e = "explore_slots n ratio" let ?w = "new_slots n ?e" let ?x = "n - ?e - ?w"
  have n: "(if limit > int (length items) then int (length items) else limit) = n" by (auto simp: n_def)
  have n0: "0 \<le> n" using assms(3) by (simp add: n_def)
  note slots = slots_bounds [OF n0 assms(4)]
  define scored where "scored = sort_slice by_score items"
  have sset: "set scored = set items" "length scored = length items" by (simp_all add: scored_def)
  have skeys: "distinct (map scKey scored)" using keys by (simp add: scored_def)
  obtain kinds1 where p1: "pick n ?x ''exploit'' (\<lambda>_. True) scored 0 ([], Map.empty)
      = (int (length (take (nat ?x) scored)), map scRoute (take (nat ?x) scored), kinds1)"
    using pick_best [OF skeys, of Map.empty ?x 0 n "[]"] slots by auto
  define st1 where "st1 = (map scRoute (take (nat ?x) scored), kinds1)"
  obtain c2 st2 where p2: "pick n ?w ''new'' (\<lambda>item. scObservations item = 0) scored 0 st1 = (c2, st2)"
    by (metis prod.exhaust)
  obtain c3 st3 where p3: "pick n ?e ''explore'' (\<lambda>_. True) (sort_slice by_novelty scored) 0 st2 = (c3, st3)"
    by (metis prod.exhaust)
  obtain c4 sel4 kinds4 where p4: "fill n scored (int (length (take (nat ?x) scored))) st3 = (c4, sel4, kinds4)"
    by (metis prod.exhaust)
  have res: "selected = sel4" "seExploit s = c4" "seNew s = c2" "seExplore s = c3"
    using sel p1 p2 p3 p4 n
    by (auto simp: select_scored_def Let_def scored_def st1_def score_selection_def split: prod.splits)
  have ok0: "picked_ok n (set items) ([], Map.empty)" using n0 by (simp add: picked_ok_def)
  have sub: "set scored \<subseteq> set items" "set (sort_slice by_novelty scored) \<subseteq> set items" using sset by simp_all
  note o1 = pick_ok [OF ok0 sub(1) keyed p1 [folded st1_def]]
  note o2 = pick_ok [OF conjunct1 [OF o1] sub(1) keyed p2]
  note o3 = pick_ok [OF conjunct1 [OF o2] sub(2) keyed p3]
  note o4 = fill_ok [OF conjunct1 [OF o3] sub(1) keyed p4]
  have ok: "picked_ok n (set items) (sel4, kinds4)" using o4 by blast
  have "n \<le> int (length sel4)"
  proof (rule ccontr)
    assume "\<not> n \<le> int (length sel4)"
    then have "scKey ` set items \<subseteq> dom kinds4" using o4 sset(1) by simp
    moreover have "dom kinds4 = routeKey ` set sel4" using ok by (simp add: picked_ok_def)
    ultimately have "scKey ` set items \<subseteq> routeKey ` set sel4" by simp
    then have "card (scKey ` set items) \<le> length sel4"
      by (metis List.finite_set card_length card_mono finite_imageI length_map list.set_map order.trans)
    moreover have "card (scKey ` set items) = length items" using keys by (metis distinct_card length_map list.set_map)
    ultimately show False using \<open>\<not> n \<le> int (length sel4)\<close> by (simp add: n_def)
  qed
  then have len: "int (length sel4) = n" using ok by (simp add: picked_ok_def)
  have "set (map scRoute (take (nat ?x) scored)) \<subseteq> set sel4"
    using o2 o3 o4 by (auto simp: st1_def)
  moreover have "c4 + c2 + c3 = n" using o1 o2 o3 o4 len by (simp add: st1_def)
  ultimately show ?thesis using ok len res by (simp add: picked_ok_def scored_def)
qed

text \<open>
  C27: with pre-quote ranking the engine selects, of the candidates of an asset, exactly as many routes as its limit
  allows (all distinct ones if there are fewer), never a route twice, and always the best-scored ones of the exploit
  share; exploit, new and explore counts add up to the selection.
\<close>

theorem selection_exact:
  assumes "\<not> DisablePreQuoteRanking options" and "1 \<le> EvaluationRoutesPerAsset options" and "0 \<le> ExploreRatioBPS options"
  shows "case selectEvaluationCandidates F memory pairScore market candidates options signals weight stateBlock of (selected, s) \<Rightarrow>
    int (length selected) = min (EvaluationRoutesPerAsset options) (int (card (routeKey ` set candidates)))
    \<and> distinct (map routeKey selected) \<and> set selected \<subseteq> set candidates
    \<and> seExploit s + seNew s + seExplore s = int (length selected)
    \<and> (let items = map (score_route F memory pairScore market signals weight stateBlock) (distinct_keys {} candidates);
           n = int (length selected); e = explore_slots n (ExploreRatioBPS options)
       in set (map scRoute (take (nat (n - e - new_slots n e)) (sort_slice by_score items))) \<subseteq> set selected)"
proof (cases "candidates = []")
  case True
  then show ?thesis
    using assms by (simp add: selectEvaluationCandidates_def no_selection_def Let_def)
next
  case False
  define items where "items = map (score_route F memory pairScore market signals weight stateBlock) (distinct_keys {} candidates)"
  obtain selected s where sel: "select_scored (EvaluationRoutesPerAsset options) (ExploreRatioBPS options) items = (selected, s)"
    by fastforce
  have "map scKey items = map routeKey (distinct_keys {} candidates)"
    by (simp add: items_def score_route_def Let_def)
  then have keys: "distinct (map scKey items)" using distinct_keys_spec [of "{}" candidates] by simp
  have kd: "\<forall>i\<in>set items. keyed i" by (auto simp: items_def keyed_def score_route_def Let_def)
  have routes: "scRoute ` set items \<subseteq> set candidates"
    using distinct_keys_spec [of "{}" candidates] by (auto simp: items_def score_route_def Let_def)
  have len: "length items = card (routeKey ` set candidates)" by (simp add: items_def length_distinct_keys)
  have "selectEvaluationCandidates F memory pairScore market candidates options signals weight stateBlock = (selected, s)"
    using assms False sel by (simp add: selectEvaluationCandidates_def Let_def items_def)
  then show ?thesis
    using select_scored_spec [OF keys kd assms(2,3) sel] routes unfolding len items_def [symmetric] by (simp add: Let_def) blast
qed

definition one_route :: Route where
  "one_route = mk_route [''A'', ''B'', ''A''] [quiet_pool, quiet_pool]"

theorem selection_exact_witness:
  "set (fst (selectEvaluationCandidates rat_ops (NewRouteMemory 10) None pair_market [one_route] DefaultSearchOptions
     Map.empty 0 7)) = {one_route}"
proof -
  obtain selected s where sel: "selectEvaluationCandidates rat_ops (NewRouteMemory 10) None pair_market [one_route]
      DefaultSearchOptions Map.empty 0 7 = (selected, s)" by fastforce
  have "int (length selected) = 1 \<and> set selected \<subseteq> {one_route}"
    using selection_exact [of DefaultSearchOptions "[one_route]" rat_ops "NewRouteMemory 10" None pair_market Map.empty 0 7]
    unfolding sel by (simp add: DefaultSearchOptions_def)
  then show ?thesis using sel by (cases selected) auto
qed

section \<open>Quote cost, optimiser candidates and near misses\<close>

lemma bound_routes_spec:
  assumes "bound_routes budget rs used = (out, spent)" "used \<le> budget"
  shows "spent = used + sum_list (map route_cost out) \<and> spent \<le> budget \<and> set out \<subseteq> set rs"
  using assms
proof (induction rs arbitrary: used out)
  case (Cons r rs)
  show ?case
  proof (cases "used + route_cost r > budget")
    case True
    then show ?thesis using Cons by (auto simp: subset_insertI2)
  next
    case False
    then obtain out1 where "bound_routes budget rs (used + route_cost r) = (out1, spent)" "out = r # out1"
      using Cons.prems(1) by (auto split: prod.splits)
    then show ?thesis using Cons.IH [of "used + route_cost r" out1] False by auto
  qed
qed simp

text \<open>A route that is left out did not fit into what was left of the budget when it was reached.\<close>

lemma boundRoutes_within:
  assumes "boundRoutesByQuoteCost rs budget = (out, used)"
  shows "used = sum_list (map route_cost out) \<and> used \<le> max 0 budget \<and> set out \<subseteq> set rs"
  using assms bound_routes_spec [of budget rs 0 out used] by (auto simp: boundRoutesByQuoteCost_def split: if_splits)

lemma route_cost_hops: "int (length (rHops r)) \<le> route_cost r" "1 \<le> route_cost r"
  by (auto simp: route_cost_def Suc_le_eq)

text \<open>
  A route is optimised only if it was profitable at the probed size or misses the required profit by at most three
  times that profit.
\<close>

lemma optimizer_candidates_close:
  assumes "c \<in> set (selectOptimizerCandidates evaluated limit)"
  shows "\<exists>item\<in>set evaluated. c = mk_candidate item \<and> optimizerEligible item"
  using assms by (auto simp: selectOptimizerCandidates_def dest!: in_set_takeD split: if_splits)

lemma optimizer_candidates_length: "int (length (selectOptimizerCandidates evaluated limit)) \<le> max 0 limit"
  by (auto simp: selectOptimizerCandidates_def min_def)

lemma map_of_keep:
  "map_of (keep_newest r m) =
     (if (case map_of m (near_miss_key r) of Some old \<Rightarrow> nmTimestamp r > nmTimestamp old | None \<Rightarrow> True)
      then (map_of m)(near_miss_key r \<mapsto> r) else map_of m)"
  by (simp add: keep_newest_def update_conv' split: option.split)

lemma keep_newest_keys:
  assumes "distinct (map fst m)" "\<forall>(k, r)\<in>set m. near_miss_key r = k"
  shows "distinct (map fst (keep_newest r m)) \<and> (\<forall>(k, r)\<in>set (keep_newest r m). near_miss_key r = k)
    \<and> set (keep_newest r m) \<subseteq> insert (near_miss_key r, r) (set m)
    \<and> (\<exists>s. map_of (keep_newest r m) (near_miss_key r) = Some s \<and> nmTimestamp r \<le> nmTimestamp s)
    \<and> (\<forall>k old. map_of m k = Some old \<longrightarrow> (\<exists>s. map_of (keep_newest r m) k = Some s \<and> nmTimestamp old \<le> nmTimestamp s))"
proof -
  have upd: "set (AList.update k v m) \<subseteq> insert (k, v) (set m)" for k v by (induction m) auto
  have "\<forall>(k, r)\<in>set (AList.update (near_miss_key r) r m). near_miss_key r = k"
    using upd [of "near_miss_key r" r] assms(2) by auto
  then have "distinct (map fst (keep_newest r m)) \<and> (\<forall>(k, r)\<in>set (keep_newest r m). near_miss_key r = k)
    \<and> set (keep_newest r m) \<subseteq> insert (near_miss_key r, r) (set m)"
    using assms upd [of "near_miss_key r" r] distinct_update [OF assms(1)]
    by (auto simp: keep_newest_def split: option.splits)
  moreover have "\<exists>s. map_of (keep_newest r m) (near_miss_key r) = Some s \<and> nmTimestamp r \<le> nmTimestamp s"
    unfolding map_of_keep by (simp split: option.split)
  moreover have "\<exists>s. map_of (keep_newest r m) k = Some s \<and> nmTimestamp old \<le> nmTimestamp s" if "map_of m k = Some old" for k old
    unfolding map_of_keep using that by (cases "k = near_miss_key r") (simp_all split: option.split)
  ultimately show ?thesis by blast
qed

lemma merged_table:
  assumes "distinct (map fst m)" "\<forall>(k, r)\<in>set m. near_miss_key r = k"
  shows "distinct (map fst (fold keep_newest rs m)) \<and> (\<forall>(k, r)\<in>set (fold keep_newest rs m). near_miss_key r = k)
    \<and> snd ` set (fold keep_newest rs m) \<subseteq> set rs \<union> snd ` set m
    \<and> (\<forall>k old. map_of m k = Some old \<longrightarrow> (\<exists>s. map_of (fold keep_newest rs m) k = Some s \<and> nmTimestamp old \<le> nmTimestamp s))
    \<and> (\<forall>r\<in>set rs. \<exists>s. map_of (fold keep_newest rs m) (near_miss_key r) = Some s \<and> nmTimestamp r \<le> nmTimestamp s)"
  using assms
proof (induction rs arbitrary: m)
  case (Cons r rs)
  note k = keep_newest_keys [OF Cons.prems, of r]
  note ih = Cons.IH [OF conjunct1 [OF k] conjunct1 [OF conjunct2 [OF k]]]
  have s1: "snd ` set (keep_newest r m) \<subseteq> insert r (snd ` set m)"
    using image_mono [OF conjunct1 [OF conjunct2 [OF conjunct2 [OF k]]], of snd] by simp
  have "\<exists>s. map_of (fold keep_newest rs (keep_newest r m)) k' = Some s \<and> nmTimestamp old \<le> nmTimestamp s"
    if "map_of m k' = Some old" for k' old
    using that k ih by (meson order.trans)
  moreover have "\<exists>s. map_of (fold keep_newest rs (keep_newest r m)) (near_miss_key r) = Some s \<and> nmTimestamp r \<le> nmTimestamp s"
    using k ih by (meson order.trans)
  moreover have "snd ` set (fold keep_newest rs (keep_newest r m)) \<subseteq> set (r # rs) \<union> snd ` set m"
    using subset_trans [OF conjunct1 [OF conjunct2 [OF conjunct2 [OF ih]]] Un_mono [OF subset_refl s1]] by auto
  ultimately show ?case using ih unfolding fold_Cons comp_apply list.set(2) ball_simps by blast
qed simp

interpretation recency_order: strict_weak newer_first
  by unfold_locales (auto simp: newer_first_def split: if_splits)

text \<open>The merged near misses: one per route, venue path and amount, the newest of each, newest first, within the limit.\<close>

lemma mergeNearMisses_newest:
  assumes "out = mergeNearMisses previous current limit"
  shows "int (length out) \<le> max 0 limit \<and> distinct (map near_miss_key out) \<and> set out \<subseteq> set (previous @ current)
    \<and> sorted_wrt (\<lambda>a b. nmTimestamp b \<le> nmTimestamp a) out"
proof (cases "limit < 1")
  case False
  define table where "table = fold keep_newest (previous @ current) []"
  have t: "distinct (map fst table)" "\<forall>(k, r)\<in>set table. near_miss_key r = k" "snd ` set table \<subseteq> set (previous @ current)"
    using merged_table [of "[]" "previous @ current"] by (auto simp: table_def)
  have "map near_miss_key (map snd table) = map fst table" using t(2) by auto
  then have keys: "distinct (map near_miss_key (map snd table))" using t(1) by metis
  let ?s = "sort_slice newer_first (map snd table)"
  have out: "out = take (nat limit) ?s" using assms False by (simp add: mergeNearMisses_def table_def)
  have "distinct (map near_miss_key ?s)" using keys by (simp only: distinct_map_sort_slice)
  then have "distinct (map near_miss_key out)" unfolding out by (simp add: take_map [symmetric])
  moreover have "sorted_wrt (\<lambda>a b. \<not> newer_first b a) out" unfolding out by (rule sorted_wrt_take [OF recency_order.ordered_sort_slice])
  then have "sorted_wrt (\<lambda>a b. nmTimestamp b \<le> nmTimestamp a) out"
    by (rule sorted_wrt_mono_rel [rotated]) (auto simp: newer_first_def split: if_splits)
  moreover have "set out \<subseteq> set (previous @ current)" using t(3) set_take_subset [of "nat limit" ?s] by (auto simp: out)
  ultimately show ?thesis using False by (simp add: out)
qed (simp add: assms mergeNearMisses_def)

end
