(* ===== verification/MarketEvaluate.thy ===== *)
theory MarketEvaluate
  imports MarketSelect Optimizer
begin

text \<open>
  \<open>go/internal/market/engine.go\<close>, evaluation of the selected routes: the probing quotes, the memoised loan-size
  search with its sample budgets, and the cycle's evaluation report. Routes and amounts are evaluated by workers;
  \<open>taken\<close> and \<open>schedule\<close> give the order in which they are (and, after a cancellation, which are not), each
  evaluation being one step of the opportunity engine. Durations come from a clock argument; the shadow observer, the
  RPC counters and the score-decile report are left out.
\<close>

section \<open>Probing the selected routes\<close>

definition evaluate_route :: "keccak \<Rightarrow> 'w Env \<Rightarrow> (Route \<Rightarrow> int) \<Rightarrow> (string \<rightharpoonup> u64) \<Rightarrow> (string \<rightharpoonup> int) \<Rightarrow> u64 \<Rightarrow> int \<Rightarrow> Route
    \<Rightarrow> Engine \<times> 'w \<Rightarrow> evaluatedRoute \<times> (Engine \<times> 'w)" where
  "evaluate_route kk v latency failures preQuoteScores stateBlock amount route s =
     (let pre = (case preQuoteScores (routeKey route) of None \<Rightarrow> 0 | Some x \<Rightarrow> x)
      in case Opportunity.Evaluate kk v route amount s of
           (Inl err, s') \<Rightarrow>
             (\<lparr>erRoute = route, erScore = None, erNearMiss = None, erRouteScore = 0, erPreQuoteScore = pre,
               erQuoteSuccessful = False, erQuoteAgeBlocks = 0\<rparr>, s')
         | (Inr op, s') \<Rightarrow>
             let reason = (if oExpectedProfit op \<le> oMinProfit op then ''profitability threshold not met'' else '''');
                 record = FromOpportunity op reason (latency route)
                            (case failures (routeKey route) of None \<Rightarrow> 0 | Some n \<Rightarrow> n)
             in (\<lparr>erRoute = route, erScore = Some (oExpectedProfit op), erNearMiss = Some record,
                  erRouteScore = nmScore record, erPreQuoteScore = pre, erQuoteSuccessful = True,
                  erQuoteAgeBlocks = quoteAgeBlocks stateBlock (forcedRouteSourceBlock route)\<rparr>, s'))"

fun collectEvaluated :: "(Route \<Rightarrow> 's \<Rightarrow> evaluatedRoute \<times> 's) \<Rightarrow> Route list \<Rightarrow> 's \<Rightarrow> evaluatedRoute list \<times> 's" where
  "collectEvaluated f [] s = ([], s)"
| "collectEvaluated f (route # rest) s =
     (case f route s of (item, s1) \<Rightarrow> case collectEvaluated f rest s1 of (items, s2) \<Rightarrow> (item # items, s2))"

definition evaluateCurrent :: "keccak \<Rightarrow> 'w Env \<Rightarrow> (Route \<Rightarrow> int) \<Rightarrow> (Route list \<Rightarrow> Route list) \<Rightarrow> Route list \<Rightarrow> int \<Rightarrow> u64
    \<Rightarrow> (string \<rightharpoonup> int) \<Rightarrow> (string \<rightharpoonup> u64) \<Rightarrow> Engine \<times> 'w \<Rightarrow> evaluatedRoute list \<times> (Engine \<times> 'w)" where
  "evaluateCurrent kk v latency taken cands amount stateBlock preQuoteScores failures s =
     (if cands = [] then ([], s)
      else collectEvaluated (evaluate_route kk v latency failures preQuoteScores stateBlock amount) (taken cands) s)"

section \<open>The loan-size search\<close>

definition optimizerAdapter_Evaluate :: "keccak \<Rightarrow> 'w Env \<Rightarrow> Route \<Rightarrow> int \<Rightarrow> Engine \<times> 'w \<Rightarrow> Evaluation result \<times> (Engine \<times> 'w)" where
  "optimizerAdapter_Evaluate kk v route amount s =
     (case EvaluateSilent kk v route amount s of
        (Inl err, s') \<Rightarrow> (Inl err, s')
      | (Inr op, s') \<Rightarrow> (Inr \<lparr>evAmount = amount, evNetProfit = Some (oExpectedProfit op),
                          evExecutable = (oExpectedProfit op > 0), evReason = '''', evPriceImpactBPS = 0\<rparr>, s'))"

text \<open>The memoising adapter: its \<open>seen\<close> map travels with the state.\<close>

type_synonym memo = "string \<rightharpoonup> Evaluation result"

definition memo_Evaluate :: "(int \<Rightarrow> 's \<Rightarrow> Evaluation result \<times> 's) \<Rightarrow> int \<Rightarrow> memo \<times> 's \<Rightarrow> Evaluation result \<times> (memo \<times> 's)" where
  "memo_Evaluate base amount = (\<lambda>(seen, s).
     case seen (show_int amount) of
       Some entry \<Rightarrow> (entry, seen, s)
     | None \<Rightarrow> (case base amount s of (r, s') \<Rightarrow> (r, seen(show_int amount \<mapsto> r), s')))"

fun evaluate_amounts :: "(int \<Rightarrow> 's \<Rightarrow> Evaluation result \<times> 's) \<Rightarrow> int list \<Rightarrow> 's \<Rightarrow> Evaluation result list \<times> 's" where
  "evaluate_amounts f [] s = ([], s)"
| "evaluate_amounts f (a # as) s =
     (case f a s of (r, s1) \<Rightarrow> case evaluate_amounts f as s1 of (rs, s2) \<Rightarrow> (r # rs, s2))"

text \<open>\<open>Optimize\<close> with a stateful evaluator; a failed search still reports how many sizes it evaluated.\<close>

definition optimize_with :: "(int \<Rightarrow> 's \<Rightarrow> Evaluation result \<times> 's) \<Rightarrow> (int list \<Rightarrow> int list) \<Rightarrow> string \<Rightarrow> Route \<Rightarrow> Range \<Rightarrow> 's
    \<Rightarrow> (OptimalLoan \<times> bool) \<times> 's" where
  "optimize_with f schedule asset route r s =
     (if \<not> range_ok r then ((no_loan '''' (mk_route [] []), False), s)
      else case evaluate_amounts f (schedule (candidates (the (rgMin r)) (the (rgMax r)) (rgSamples r))) s of
             (outs, s') \<Rightarrow> let best = fold absorb outs (no_loan asset route) in ((best, olAmount best \<noteq> None), s'))"

definition capLoanMax :: "bigint \<Rightarrow> bigint \<Rightarrow> bigint" where
  "capLoanMax configured available =
     (case configured of
        None \<Rightarrow> None
      | Some m \<Rightarrow> (case available of Some a \<Rightarrow> if 0 < a \<and> a < m then Some a else Some m | None \<Rightarrow> Some m))"

definition refineOptimizerRange :: "bigint \<Rightarrow> bigint \<Rightarrow> bigint \<Rightarrow> int \<times> int" where
  "refineOptimizerRange minimum maximum best =
     (case (minimum, maximum) of
        (Some mn, Some mx) \<Rightarrow>
          (case best of
             None \<Rightarrow> (mn, mx)
           | Some b \<Rightarrow>
               if mx \<le> mn then (mn, mx)
               else let quarter = big_div (mx - mn) 4
                    in if quarter \<le> 0 then (mn, mx)
                       else let left = (if b - quarter < mn then mn else b - quarter);
                                right = (if b + quarter > mx then mx else b + quarter)
                            in if right \<le> left then (mn, mx) else (left, right))
      | _ \<Rightarrow> (0, 0))"

definition samplesForScore :: "int \<Rightarrow> int \<Rightarrow> int \<Rightarrow> int" where
  "samplesForScore score high normal =
     (let high1 = (if high < 2 then 2 else high); normal1 = (if normal < 2 then 2 else normal);
          normal2 = (if normal1 > high1 then high1 else normal1)
      in if score \<ge> 4000 then high1 else if score < 2000 then 2 else normal2)"

definition shouldStopOptimizerAfterProbe :: "optimizerCandidate \<Rightarrow> OptimalLoan \<Rightarrow> int \<Rightarrow> bool" where
  "shouldStopOptimizerAfterProbe candidate best current =
     (if olNetProfit best > 0 then False
      else if ocScore candidate < 2000 then True
      else let limit = (if big_pos (ocMinProfit candidate) then big_or_zero (ocMinProfit candidate) * 25 else 0);
               limit1 = (if 0 < current \<and> big_div current 100 > limit then big_div current 100 else limit);
               limit2 = (if limit1 \<le> 0 then 1 else limit1)
           in - olNetProfit best > limit2)"

record OptimizeReport =
  orRuns :: nat
  orRequested :: int
  orSamples :: int
  orSaved :: int
  orDeepOptimized :: nat
  orProbeOnly :: nat
  orSkippedDeep :: nat
  orBudget :: "string \<rightharpoonup> int"

definition no_optimization :: OptimizeReport where
  "no_optimization = \<lparr>orRuns = 0, orRequested = 0, orSamples = 0, orSaved = 0, orDeepOptimized = 0, orProbeOnly = 0,
     orSkippedDeep = 0, orBudget = Map.empty\<rparr>"

text \<open>Ten times the configured amount, capped by the lender's available liquidity when it can be read; a tenth of it.\<close>

definition loan_max :: "(string \<Rightarrow> ('w, bigint) io) option \<Rightarrow> string \<Rightarrow> int \<Rightarrow> Engine \<times> 'w \<Rightarrow> bigint \<times> (Engine \<times> 'w)" where
  "loan_max liquidity asset current = (\<lambda>(e, w).
     case liquidity of
       None \<Rightarrow> (Some (current * 10), (e, w))
     | Some available \<Rightarrow>
         (case available asset w of
            (Inr a, w') \<Rightarrow> (capLoanMax (Some (current * 10)) a, (e, w'))
          | (Inl _, w') \<Rightarrow> (Some (current * 10), (e, w'))))"

definition loan_min :: "int \<Rightarrow> int" where
  "loan_min current = (if big_div current 10 \<le> 0 then current else big_div current 10)"

text \<open>The amount found becomes an emitted evaluation only when its profit is positive.\<close>

definition emit_best :: "keccak \<Rightarrow> 'w Env \<Rightarrow> Route \<Rightarrow> OptimalLoan \<Rightarrow> Engine \<times> 'w \<Rightarrow> Engine \<times> 'w" where
  "emit_best kk v route best s =
     (case olAmount best of
        Some amount \<Rightarrow> if olNetProfit best > 0 then snd (Opportunity.Evaluate kk v route amount s) else s
      | None \<Rightarrow> s)"

definition optimize_candidate :: "keccak \<Rightarrow> 'w Env \<Rightarrow> (Route \<Rightarrow> bool \<Rightarrow> int list \<Rightarrow> int list) \<Rightarrow> string \<Rightarrow> bigint \<Rightarrow> int \<Rightarrow> int \<Rightarrow> int \<Rightarrow> bool
    \<Rightarrow> optimizerCandidate \<Rightarrow> int \<times> OptimizeReport \<times> (Engine \<times> 'w) \<Rightarrow> int \<times> OptimizeReport \<times> (Engine \<times> 'w)" where
  "optimize_candidate kk v schedule asset mx current samples normalSamples earlyStop candidate = (\<lambda>(remaining, rep, s).
     let route = ocRoute candidate;
         requested = samplesForScore (ocScore candidate) samples normalSamples;
         rep1 = rep\<lparr>orRequested := orRequested rep + requested\<rparr>
     in if remaining < 2 then (remaining, rep1\<lparr>orSkippedDeep := orSkippedDeep rep1 + 1\<rparr>, s)
        else let allocated = min requested remaining;
                 f = memo_Evaluate (optimizerAdapter_Evaluate kk v route);
                 minimum = loan_min current
             in case optimize_with f (schedule route False) asset route
                       \<lparr>rgMin = Some minimum, rgMax = mx, rgSamples = min allocated 3\<rparr> (Map.empty, s) of
                  ((best, found), (seen, s1)) \<Rightarrow>
                    let rep2 = rep1\<lparr>orRuns := orRuns rep1 + 1, orBudget := (orBudget rep1)(routeKey route \<mapsto> allocated),
                                    orSamples := orSamples rep1 + olEvaluated best\<rparr>;
                        remaining1 = remaining - min (olEvaluated best) remaining;
                        probed = rep2\<lparr>orProbeOnly := orProbeOnly rep2 + 1, orSkippedDeep := orSkippedDeep rep2 + 1\<rparr>;
                        deepSamples = allocated - olEvaluated best
                    in if \<not> found then (remaining1, probed, s1)
                       else if earlyStop \<and> shouldStopOptimizerAfterProbe candidate best current \<or> deepSamples < 2
                       then (remaining1, probed, emit_best kk v route best s1)
                       else case refineOptimizerRange (Some minimum) mx (olAmount best) of
                              (lo, hi) \<Rightarrow>
                                (case optimize_with f (schedule route True) asset route
                                        \<lparr>rgMin = Some lo, rgMax = Some hi, rgSamples = deepSamples\<rparr> (seen, s1) of
                                   ((deep, deepFound), (_, s2)) \<Rightarrow>
                                     let rep3 = rep2\<lparr>orSamples := orSamples rep2 + olEvaluated deep,
                                                     orDeepOptimized := orDeepOptimized rep2 + 1\<rparr>;
                                         remaining2 = remaining1 - min (olEvaluated deep) remaining1;
                                         winner = (if deepFound \<and> olNetProfit deep > olNetProfit best then deep else best)
                                     in (remaining2, rep3, emit_best kk v route winner s2)))"

definition legacy_candidate :: "keccak \<Rightarrow> 'w Env \<Rightarrow> (Route \<Rightarrow> bool \<Rightarrow> int list \<Rightarrow> int list) \<Rightarrow> string \<Rightarrow> bigint \<Rightarrow> int \<Rightarrow> int
    \<Rightarrow> optimizerCandidate \<Rightarrow> OptimizeReport \<times> (Engine \<times> 'w) \<Rightarrow> OptimizeReport \<times> (Engine \<times> 'w)" where
  "legacy_candidate kk v schedule asset mx current samples candidate = (\<lambda>(rep, s).
     let route = ocRoute candidate;
         allocated = samplesForScore (ocScore candidate) samples (max 2 (big_quo samples 2));
         f = optimizerAdapter_Evaluate kk v route;
         range = (\<lambda>n. \<lparr>rgMin = Some (loan_min current), rgMax = mx, rgSamples = n\<rparr>)
     in case optimize_with f (schedule route False) asset route (range (min allocated 3)) s of
          ((best, found), s1) \<Rightarrow>
            let rep1 = rep\<lparr>orBudget := (orBudget rep)(routeKey route \<mapsto> allocated), orRequested := orRequested rep + allocated,
                          orRuns := orRuns rep + 1, orSamples := orSamples rep + olEvaluated best\<rparr>
            in if found \<and> min allocated 3 < allocated
               then case optimize_with f (schedule route True) asset route (range allocated) s1 of
                      ((deep, deepFound), s2) \<Rightarrow>
                        let winner = (if deepFound \<and> olNetProfit deep > olNetProfit best then deep else best)
                        in (rep1\<lparr>orSamples := orSamples rep1 + olEvaluated deep, orDeepOptimized := orDeepOptimized rep1 + 1\<rparr>,
                            emit_best kk v route winner s2)
               else (rep1\<lparr>orProbeOnly := orProbeOnly rep1 + 1\<rparr>, emit_best kk v route best s1))"

definition optimizeRoutesLegacy :: "keccak \<Rightarrow> 'w Env \<Rightarrow> (string \<Rightarrow> ('w, bigint) io) option \<Rightarrow> (Route \<Rightarrow> bool \<Rightarrow> int list \<Rightarrow> int list)
    \<Rightarrow> string \<Rightarrow> optimizerCandidate list \<Rightarrow> int \<Rightarrow> int \<Rightarrow> Engine \<times> 'w \<Rightarrow> OptimizeReport \<times> (Engine \<times> 'w)" where
  "optimizeRoutesLegacy kk v liquidity schedule asset cs current samples s =
     (if current \<le> 0 then (no_optimization, s)
      else case loan_max liquidity asset current s of
             (mx, s1) \<Rightarrow> fold (legacy_candidate kk v schedule asset mx current samples) cs (no_optimization, s1))"

definition optimizeRoutes :: "keccak \<Rightarrow> 'w Env \<Rightarrow> (string \<Rightarrow> ('w, bigint) io) option \<Rightarrow> (Route \<Rightarrow> bool \<Rightarrow> int list \<Rightarrow> int list)
    \<Rightarrow> string \<Rightarrow> optimizerCandidate list \<Rightarrow> int \<Rightarrow> int \<Rightarrow> int \<Rightarrow> int \<Rightarrow> bool \<Rightarrow> bool \<Rightarrow> Engine \<times> 'w \<Rightarrow> OptimizeReport \<times> (Engine \<times> 'w)" where
  "optimizeRoutes kk v liquidity schedule asset cs current samples normalSamples sampleBudget adaptive earlyStop s =
     (if \<not> adaptive then optimizeRoutesLegacy kk v liquidity schedule asset cs current samples s
      else if current \<le> 0 then (no_optimization, s)
      else case loan_max liquidity asset current s of
             (mx, s1) \<Rightarrow>
               (case fold (optimize_candidate kk v schedule asset mx current samples normalSamples earlyStop) cs
                       (sampleBudget, no_optimization, s1) of
                  (_, rep, s2) \<Rightarrow>
                    (if orRequested rep > orSamples rep then rep\<lparr>orSaved := orRequested rep - orSamples rep\<rparr> else rep, s2)))"

section \<open>The sample budget\<close>

text \<open>A schedule hands each candidate size to at most one worker.\<close>

definition fair_schedule :: "(Route \<Rightarrow> bool \<Rightarrow> int list \<Rightarrow> int list) \<Rightarrow> bool" where
  "fair_schedule schedule \<longleftrightarrow> (\<forall>route deep xs. length (schedule route deep xs) \<le> length xs)"

lemma evaluate_amounts_length: "evaluate_amounts f as s = (rs, s') \<Longrightarrow> length rs = length as"
  by (induction as arbitrary: s rs) (auto split: prod.splits)

lemma fold_absorb_evaluated: "olEvaluated (fold absorb outs b) = olEvaluated b + int (length outs)"
proof (induction outs arbitrary: b)
  case (Cons out outs)
  have "olEvaluated (absorb out b) = olEvaluated b + 1"
    by (simp add: absorb_def Let_def split: sum.split option.split)
  then show ?case using Cons.IH [of "absorb out b"] by simp
qed simp

lemma optimize_with_evaluated:
  assumes "\<And>xs. length (sched xs) \<le> length xs" "optimize_with f sched asset route r s = ((best, found), s')"
  shows "0 \<le> olEvaluated best \<and> olEvaluated best \<le> max 2 (rgSamples r)"
proof (cases "range_ok r")
  case True
  let ?xs = "candidates (the (rgMin r)) (the (rgMax r)) (rgSamples r)"
  obtain outs s1 where e: "evaluate_amounts f (sched ?xs) s = (outs, s1)" by fastforce
  have "best = fold absorb outs (no_loan asset route)" using assms(2) True e by (auto simp: optimize_with_def Let_def)
  then have "olEvaluated best = int (length (sched ?xs))"
    using evaluate_amounts_length [OF e] by (simp add: fold_absorb_evaluated no_loan_def)
  moreover have "int (length (sched ?xs)) \<le> max 2 (rgSamples r)"
    using assms(1) [of ?xs] candidates_length [of "the (rgMin r)" "the (rgMax r)" "rgSamples r"] by linarith
  ultimately show ?thesis by simp
next
  case False
  then show ?thesis using assms(2) by (auto simp: optimize_with_def no_loan_def)
qed

lemma samplesForScore_min: "2 \<le> samplesForScore score high normal"
  by (simp add: samplesForScore_def Let_def)

lemma optimize_candidate_budget:
  assumes fair: "fair_schedule schedule"
    and step: "optimize_candidate kk v schedule asset mx current samples normalSamples earlyStop c (remaining, rep, s) = (remaining', rep', s')"
  shows "orSamples rep' + remaining' = orSamples rep + remaining \<and> min 0 remaining \<le> remaining'"
proof (cases "remaining < 2")
  case True
  then show ?thesis using step by (auto simp: optimize_candidate_def Let_def)
next
  case False
  let ?route = "ocRoute c" let ?f = "memo_Evaluate (optimizerAdapter_Evaluate kk v ?route)"
  let ?alloc = "min (samplesForScore (ocScore c) samples normalSamples) remaining"
  have alloc: "2 \<le> ?alloc" "?alloc \<le> remaining" using False samplesForScore_min by auto
  have sched: "length (schedule ?route deep xs) \<le> length xs" for deep xs using fair by (simp add: fair_schedule_def)
  obtain best found seen s1 where p: "optimize_with ?f (schedule ?route False) asset ?route
      \<lparr>rgMin = Some (loan_min current), rgMax = mx, rgSamples = min ?alloc 3\<rparr> (Map.empty, s) = ((best, found), (seen, s1))"
    by (metis prod.exhaust)
  have probe: "0 \<le> olEvaluated best" "olEvaluated best \<le> ?alloc"
    using optimize_with_evaluated [OF sched p] alloc by auto
  obtain lo hi where r: "refineOptimizerRange (Some (loan_min current)) mx (olAmount best) = (lo, hi)" by fastforce
  obtain deep deepFound seen2 s2 where d: "optimize_with ?f (schedule ?route True) asset ?route
      \<lparr>rgMin = Some lo, rgMax = Some hi, rgSamples = ?alloc - olEvaluated best\<rparr> (seen, s1) = ((deep, deepFound), (seen2, s2))"
    by (metis prod.exhaust)
  have deeper: "0 \<le> olEvaluated deep" "2 \<le> ?alloc - olEvaluated best \<Longrightarrow> olEvaluated deep \<le> ?alloc - olEvaluated best"
    using optimize_with_evaluated [OF sched d] by auto
  show ?thesis
    using step False p r d probe deeper alloc
    by (auto simp: optimize_candidate_def Let_def min_def split: if_splits)
qed

lemma optimizeRoutes_budget:
  assumes "fair_schedule schedule"
    and "optimizeRoutes kk v liquidity schedule asset cs current samples normalSamples sampleBudget True earlyStop s = (rep, s')"
  shows "orSamples rep \<le> max 0 sampleBudget"
proof -
  have budget: "orSamples rep' + remaining' = orSamples rep + remaining \<and> min 0 remaining \<le> remaining'"
    if "fold (optimize_candidate kk v schedule asset mx current samples normalSamples earlyStop) cs (remaining, rep, s) = (remaining', rep', s')"
    for mx remaining rep s remaining' rep' s'
    using that
  proof (induction cs arbitrary: remaining rep s)
    case (Cons c cs)
    obtain remaining1 rep1 s1 where one: "optimize_candidate kk v schedule asset mx current samples normalSamples earlyStop c
        (remaining, rep, s) = (remaining1, rep1, s1)" by (metis prod.exhaust)
    note a = optimize_candidate_budget [OF assms(1) one]
    have "fold (optimize_candidate kk v schedule asset mx current samples normalSamples earlyStop) cs (remaining1, rep1, s1)
        = (remaining', rep', s')" using Cons.prems one by simp
    from Cons.IH [OF this] a show ?case by auto
  qed simp
  show ?thesis
    using budget assms(2) by (auto simp: optimizeRoutes_def no_optimization_def split: prod.splits if_splits) fastforce+
qed

text \<open>
  The adaptive loan-size search never evaluates more sizes than its sample budget, for any candidates, schedule of the
  workers, liquidity answers and evaluation results; what it spends is what it reports.
\<close>

theorem optimizer_within_budget:
  assumes "fair_schedule schedule"
  shows "case optimizeRoutes kk v liquidity schedule asset cs current samples normalSamples sampleBudget True earlyStop s of
    (rep, s') \<Rightarrow> orSamples rep \<le> max 0 sampleBudget"
proof -
  obtain rep s' where "optimizeRoutes kk v liquidity schedule asset cs current samples normalSamples sampleBudget True earlyStop s = (rep, s')"
    by (metis prod.exhaust)
  with optimizeRoutes_budget [OF assms this] show ?thesis by simp
qed

definition demo_candidates :: "optimizerCandidate list" where
  "demo_candidates = [\<lparr>ocRoute = ab_route, ocScore = 5000, ocNetProfit = None, ocMinProfit = None, ocGap = None\<rparr>]"

theorem optimizer_within_budget_witness:
  "case optimizeRoutes (\<lambda>_. replicate 32 0) demo_env None (\<lambda>_ _ xs. xs) ''A'' demo_candidates 10000 8 3 5 True True (idle_engine, ()) of
     (rep, s') \<Rightarrow> orSamples rep \<le> max 0 5"
  by (rule optimizer_within_budget) (simp add: fair_schedule_def)

section \<open>The memo\<close>

lemma memo_step:
  assumes "\<And>a s. fst (base a s) = g a" "\<forall>a r. seen (show_int a) = Some r \<longrightarrow> r = g a"
    and "memo_Evaluate base a (seen, s) = (r, seen', s')"
  shows "r = g a \<and> (\<forall>a r. seen' (show_int a) = Some r \<longrightarrow> r = g a) \<and> dom seen' = insert (show_int a) (dom seen)
    \<and> s' = (if show_int a \<in> dom seen then s else snd (base a s))"
proof (cases "seen (show_int a)")
  case None
  have b: "r = g a" "seen' = seen(show_int a \<mapsto> g a)" "s' = snd (base a s)"
    using assms(1) [of a s] assms(3) None by (auto simp: memo_Evaluate_def split: prod.splits)
  then show ?thesis using assms(2) None by (auto simp: fun_upd_def split: if_splits)
next
  case (Some r1)
  then have "r = r1" "seen' = seen" "s' = s" using assms(3) by (auto simp: memo_Evaluate_def)
  then show ?thesis using assms(2) Some by (auto simp: insert_absorb)
qed

fun fresh_amounts :: "string set \<Rightarrow> int list \<Rightarrow> int list" where
  "fresh_amounts known [] = []"
| "fresh_amounts known (a # as) =
     (if show_int a \<in> known then fresh_amounts known as else a # fresh_amounts (insert (show_int a) known) as)"

lemma fresh_amounts_once:
  "distinct (fresh_amounts known as) \<and> set (fresh_amounts known as) = {a \<in> set as. show_int a \<notin> known}"
  by (induction as arbitrary: known) auto

lemma memo_transparent_from:
  assumes "\<And>a s. fst (base a s) = g a" "\<forall>a r. seen (show_int a) = Some r \<longrightarrow> r = g a"
  shows "fst (evaluate_amounts (memo_Evaluate base) as (seen, s)) = map g as
    \<and> snd (snd (evaluate_amounts (memo_Evaluate base) as (seen, s))) = fold (\<lambda>a s. snd (base a s)) (fresh_amounts (dom seen) as) s"
  using assms(2)
proof (induction as arbitrary: seen s)
  case (Cons a as)
  obtain r seen1 s1 where m: "memo_Evaluate base a (seen, s) = (r, seen1, s1)" by (metis prod.exhaust)
  note step = memo_step [OF assms(1) Cons.prems m]
  obtain rs t where rest: "evaluate_amounts (memo_Evaluate base) as (seen1, s1) = (rs, t)" by (metis prod.exhaust)
  then have all: "evaluate_amounts (memo_Evaluate base) (a # as) (seen, s) = (r # rs, t)" using m by simp
  have "rs = map g as" "snd t = fold (\<lambda>a s. snd (base a s)) (fresh_amounts (dom seen1) as) s1"
    using Cons.IH [of seen1 s1] step rest by auto
  then show ?case using step unfolding all by (cases "show_int a \<in> dom seen") (simp_all add: insert_absorb)
qed simp



section \<open>Evaluation of a cycle\<close>

record evaluationReport =
  vrOptimizerRuns :: nat
  vrOptimizerRequested :: int
  vrOptimizerSamples :: int
  vrOptimizerSaved :: int
  vrRoutesEvaluated :: nat
  vrNearMisses :: "Record list"
  vrOptimizerBudget :: "string \<rightharpoonup> int"
  vrExploitSelected :: int
  vrExploreSelected :: int
  vrNewSelected :: int
  vrMemoryRoutes :: nat
  vrAvgPreQuoteScore :: int
  vrCrossVenueQuoted :: int
  vrSameDEXQuoted :: int
  vrRoutesConsidered :: nat
  vrQuoteAgeBlocks :: u64
  vrRoutesDeepOptimized :: nat
  vrRoutesProbeOnly :: nat
  vrRoutesSkippedDeep :: nat
  vrRoutesSkippedByPreQuote :: nat

definition no_evaluation :: evaluationReport where
  "no_evaluation = \<lparr>vrOptimizerRuns = 0, vrOptimizerRequested = 0, vrOptimizerSamples = 0, vrOptimizerSaved = 0,
     vrRoutesEvaluated = 0, vrNearMisses = [], vrOptimizerBudget = Map.empty, vrExploitSelected = 0, vrExploreSelected = 0,
     vrNewSelected = 0, vrMemoryRoutes = 0, vrAvgPreQuoteScore = 0, vrCrossVenueQuoted = 0, vrSameDEXQuoted = 0,
     vrRoutesConsidered = 0, vrQuoteAgeBlocks = 0, vrRoutesDeepOptimized = 0, vrRoutesProbeOnly = 0, vrRoutesSkippedDeep = 0,
     vrRoutesSkippedByPreQuote = 0\<rparr>"

text \<open>What the evaluation of a cycle is given besides the routes.\<close>

record ('f, 'w) EvalEnv =
  xFloat :: "'f FloatOps"
  xKeccak :: keccak
  xEvaluator :: "'w Env"
  xLatency :: "Route \<Rightarrow> int"
  xTaken :: "Route list \<Rightarrow> Route list"
  xSchedule :: "Route \<Rightarrow> bool \<Rightarrow> int list \<Rightarrow> int list"
  xLiquidity :: "(string \<Rightarrow> ('w, bigint) io) option"
  xPairScore :: "(string \<Rightarrow> string \<Rightarrow> 'f \<times> bool) option"
  xSignals :: signals
  xWeight :: 'f

text \<open>The part of the engine's state that evaluations change, and what the first pass hands to the second.\<close>

record ('f, 'w) EvalState =
  zFailures :: "string \<rightharpoonup> u64"
  zMemory :: "'f RouteMemory"
  zOpportunity :: "Engine \<times> 'w"
  zQuotes :: int
  zPending :: "(string \<times> int \<times> optimizerCandidate list) list"
  zEvaluated :: "evaluatedRoute list"
  zReport :: evaluationReport

definition near_misses_of :: "evaluatedRoute list \<Rightarrow> Record list" where
  "near_misses_of evaluated =
     List.map_filter (\<lambda>item. case erNearMiss item of
        Some r \<Rightarrow> if big_pos (nmGapToProfit r) then Some r else None | None \<Rightarrow> None) evaluated"

definition probe_report :: "nat \<Rightarrow> evaluationSelection \<Rightarrow> nat \<Rightarrow> evaluatedRoute list \<Rightarrow> evaluationReport \<Rightarrow> evaluationReport" where
  "probe_report considered sel selected evaluated rep =
     rep\<lparr>vrRoutesConsidered := vrRoutesConsidered rep + considered,
         vrRoutesSkippedByPreQuote := vrRoutesSkippedByPreQuote rep + (considered - selected),
         vrExploitSelected := vrExploitSelected rep + seExploit sel,
         vrExploreSelected := vrExploreSelected rep + seExplore sel,
         vrNewSelected := vrNewSelected rep + seNew sel,
         vrCrossVenueQuoted := vrCrossVenueQuoted rep + seCrossVenue sel,
         vrSameDEXQuoted := vrSameDEXQuoted rep + seSameDEX sel,
         vrAvgPreQuoteScore := combineAverages (vrAvgPreQuoteScore rep) (of_nat (vrRoutesEvaluated rep)) (seAvgScore sel) (of_nat selected),
         vrRoutesEvaluated := vrRoutesEvaluated rep + selected,
         vrNearMisses := vrNearMisses rep @ near_misses_of evaluated,
         vrQuoteAgeBlocks := fold (\<lambda>item m. if erQuoteAgeBlocks item > m then erQuoteAgeBlocks item else m) evaluated
                               (vrQuoteAgeBlocks rep)\<rparr>"

definition asset_quote_budget :: "int \<Rightarrow> int \<Rightarrow> int" where
  "asset_quote_budget remaining assetsRemaining =
     (if assetsRemaining > 0 then big_quo (remaining + assetsRemaining - 1) assetsRemaining else remaining)"

text \<open>One asset of the first pass; \<open>amount\<close> is its configured loan, \<open>left\<close> counts the assets still to come with this one.\<close>

definition probe_asset :: "('f, 'w) EvalEnv \<Rightarrow> SearchOptions \<Rightarrow> MarketConfig \<Rightarrow> u64 \<Rightarrow> string \<Rightarrow> int \<Rightarrow> Route list \<Rightarrow> int
    \<Rightarrow> ('f, 'w) EvalState \<Rightarrow> ('f, 'w) EvalState" where
  "probe_asset x options market stateBlock asset amount routes left z =
     (case selectEvaluationCandidates (xFloat x) (zMemory z) (xPairScore x) market routes options (xSignals x) (xWeight x) stateBlock of
        (selected0, sel0) \<Rightarrow>
          case boundRoutesByQuoteCost selected0 (asset_quote_budget (zQuotes z) left) of
            (selected, usedQuotes) \<Rightarrow>
              let sel = summarizeBoundedSelection selected sel0;
                  used = (if usedQuotes > zQuotes z then zQuotes z else usedQuotes)
              in case evaluateCurrent (xKeccak x) (xEvaluator x) (xLatency x) (xTaken x) selected amount stateBlock (seScores sel)
                        (zFailures z) (zOpportunity z) of
                   (evaluated, s) \<Rightarrow>
                     let already = sum_list (map (\<lambda>(_, _, cs). int (length cs)) (zPending z));
                         limit = min (OptimizerRoutesPerAsset options) (MaxOptimizedRoutes options - already);
                         cs = selectOptimizerCandidates evaluated limit
                     in z\<lparr>zQuotes := zQuotes z - used,
                          zReport := probe_report (length routes) sel (length selected) evaluated (zReport z),
                          zOpportunity := s,
                          zEvaluated := zEvaluated z @ evaluated,
                          zFailures := updateRouteFailures evaluated (zFailures z),
                          zMemory := updateRouteMemory (xFloat x) evaluated stateBlock (zMemory z),
                          zPending := (if cs = [] then zPending z else zPending z @ [(asset, amount, cs)])\<rparr>)"

fun probe_assets :: "('f, 'w) EvalEnv \<Rightarrow> SearchOptions \<Rightarrow> MarketConfig \<Rightarrow> (string \<rightharpoonup> bigint) \<Rightarrow> u64 \<Rightarrow> Route list \<Rightarrow> string list
    \<Rightarrow> ('f, 'w) EvalState \<Rightarrow> ('f, 'w) EvalState" where
  "probe_assets x options market amounts stateBlock cands [] z = z"
| "probe_assets x options market amounts stateBlock cands (asset # assets) z =
     (case amounts asset of
        Some (Some amount) \<Rightarrow>
          probe_assets x options market amounts stateBlock cands assets
            (probe_asset x options market stateBlock asset amount (filter (\<lambda>r. hd (rSymbols r) = asset) cands)
               (int (length assets) + 1) z)
      | _ \<Rightarrow> probe_assets x options market amounts stateBlock cands assets z)"

definition add_optimization :: "OptimizeReport \<Rightarrow> evaluationReport \<Rightarrow> evaluationReport" where
  "add_optimization o1 rep =
     rep\<lparr>vrOptimizerRuns := vrOptimizerRuns rep + orRuns o1, vrOptimizerRequested := vrOptimizerRequested rep + orRequested o1,
         vrOptimizerSamples := vrOptimizerSamples rep + orSamples o1, vrOptimizerSaved := vrOptimizerSaved rep + orSaved o1,
         vrRoutesDeepOptimized := vrRoutesDeepOptimized rep + orDeepOptimized o1,
         vrRoutesProbeOnly := vrRoutesProbeOnly rep + orProbeOnly o1,
         vrRoutesSkippedDeep := vrRoutesSkippedDeep rep + orSkippedDeep o1,
         vrOptimizerBudget := (\<lambda>key. case orBudget o1 key of
            None \<Rightarrow> vrOptimizerBudget rep key
          | Some n \<Rightarrow> Some ((case vrOptimizerBudget rep key of None \<Rightarrow> 0 | Some m \<Rightarrow> m) + n))\<rparr>"

definition skip_deep :: "SearchOptions \<Rightarrow> optimizerCandidate list \<Rightarrow> evaluationReport \<Rightarrow> evaluationReport" where
  "skip_deep options cs rep =
     rep\<lparr>vrOptimizerRequested := vrOptimizerRequested rep
           + sum_list (map (\<lambda>c. samplesForScore (ocScore c) (OptimizerSamplesPerRoute options) (NormalOptimizerSamples options)) cs),
         vrRoutesSkippedDeep := vrRoutesSkippedDeep rep + length cs\<rparr>"

fun optimize_pending :: "('f, 'w) EvalEnv \<Rightarrow> SearchOptions \<Rightarrow> (string \<times> int \<times> optimizerCandidate list) list \<Rightarrow> int
    \<Rightarrow> evaluationReport \<times> (Engine \<times> 'w) \<Rightarrow> evaluationReport \<times> (Engine \<times> 'w)" where
  "optimize_pending x options [] remaining rs = rs"
| "optimize_pending x options ((asset, amount, cs) # later) remaining (rep, s) =
     (if AdaptiveOptimizer options \<and> remaining < 2
      then optimize_pending x options later remaining (skip_deep options cs rep, s)
      else let share = big_quo remaining (int (length later) + 1);
               budget = (if AdaptiveOptimizer options then (if share < 2 then 2 else share) else 0)
           in case optimizeRoutes (xKeccak x) (xEvaluator x) (xLiquidity x) (xSchedule x) asset cs amount
                     (OptimizerSamplesPerRoute options) (NormalOptimizerSamples options) budget (AdaptiveOptimizer options)
                     (EarlyStop options) s of
                (o1, s1) \<Rightarrow>
                  let remaining1 = (if AdaptiveOptimizer options
                                    then (if orSamples o1 > remaining then 0 else remaining - orSamples o1) else remaining)
                  in optimize_pending x options later remaining1 (add_optimization o1 rep, s1))"

definition initial_quotes :: "SearchOptions \<Rightarrow> int" where
  "initial_quotes options = min (MaxQuotesPerCycle options) (max 8 (big_quo (MaxQuotesPerCycle options * 3) 10))"

text \<open>\<open>publishUniverseFeedback\<close>: per market-only asset the routes evaluated through it and the useful ones.\<close>

definition universe_feedback :: "MarketConfig \<Rightarrow> evaluatedRoute list \<Rightarrow> string \<Rightarrow> nat \<times> nat" where
  "universe_feedback market evaluated asset =
     (let hits = filter (\<lambda>item. asset \<in> set (rSymbols (erRoute item))) evaluated;
          useful = (\<lambda>item. erQuoteSuccessful item \<and> (case erNearMiss item of None \<Rightarrow> False | Some r \<Rightarrow> nmScore r \<ge> 2000))
      in if asset \<in> set (ExecutionAssets market) then (0, 0) else (length hits, length (filter useful hits)))"

definition evaluate :: "('f, 'w) EvalEnv \<Rightarrow> SearchOptions \<Rightarrow> MarketConfig \<Rightarrow> (string \<rightharpoonup> bigint) \<Rightarrow> u64 \<Rightarrow> Route list
    \<Rightarrow> ('f, 'w) EvalState \<Rightarrow> ('f, 'w) EvalState" where
  "evaluate x options market amounts stateBlock cands z =
     (let assets = sorted_keys (map (\<lambda>r. hd (rSymbols r)) cands);
          z1 = probe_assets x options market amounts stateBlock cands assets
                 (z\<lparr>zQuotes := initial_quotes options, zPending := [], zEvaluated := [], zReport := no_evaluation\<rparr>)
      in case optimize_pending x options (zPending z1) (OptimizerSamplesPerCycle options) (zReport z1, zOpportunity z1) of
           (rep, s) \<Rightarrow>
             z1\<lparr>zReport := rep\<lparr>vrOptimizerSaved := (if vrOptimizerRequested rep > vrOptimizerSamples rep
                                   then vrOptimizerRequested rep - vrOptimizerSamples rep else vrOptimizerSaved rep),
                              vrMemoryRoutes := length (mmRoutes (zMemory z1))\<rparr>,
                zOpportunity := s\<rparr>)"

section \<open>The budgets of a cycle\<close>

definition hop_quotes :: "Route list \<Rightarrow> int" where
  "hop_quotes rs = sum_list (map (\<lambda>r. int (length (rHops r))) rs)"

lemma hop_quotes_simps [simp]: "hop_quotes [] = 0" "hop_quotes (rs @ qs) = hop_quotes rs + hop_quotes qs"
  by (simp_all add: hop_quotes_def)

lemma hop_quotes_mset:
  assumes "mset xs \<subseteq># mset ys"
  shows "hop_quotes xs \<le> hop_quotes ys"
proof -
  obtain zs where zs: "mset ys = mset (xs @ zs)" using assms by (metis ex_mset mset_append subset_mset.add_diff_inverse)
  have "0 \<le> hop_quotes zs" by (induction zs) (simp_all add: hop_quotes_def)
  moreover have "hop_quotes ys = hop_quotes (xs @ zs)"
    unfolding hop_quotes_def sum_mset_sum_list [symmetric] mset_map zs ..
  ultimately show ?thesis by simp
qed

lemma hop_quotes_cost: "hop_quotes rs \<le> sum_list (map route_cost rs)"
  unfolding hop_quotes_def by (rule sum_list_mono) (rule route_cost_hops)

lemma collectEvaluated_routes:
  assumes "\<And>r s. erRoute (fst (f r s)) = r"
  shows "map erRoute (fst (collectEvaluated f rs s)) = rs"
proof (induction rs arbitrary: s)
  case (Cons r rs)
  obtain item s1 where f: "f r s = (item, s1)" by fastforce
  then have "erRoute item = r" using assms [of r s] by simp
  moreover obtain items s2 where rest: "collectEvaluated f rs s1 = (items, s2)" by (metis prod.exhaust)
  ultimately show ?case using Cons.IH [of s1] f by simp
qed simp

lemma evaluate_route_route: "erRoute (fst (evaluate_route kk v latency failures scores b amount r s)) = r"
  by (auto simp: evaluate_route_def Let_def split: prod.splits sum.splits)

lemma evaluateCurrent_routes:
  "map erRoute (fst (evaluateCurrent kk v latency taken rs amount b scores failures s)) = (if rs = [] then [] else taken rs)"
  by (simp add: evaluateCurrent_def collectEvaluated_routes evaluate_route_route)

text \<open>Each selected route is taken by at most one worker.\<close>

definition fair_env :: "('f, 'w) EvalEnv \<Rightarrow> bool" where
  "fair_env x \<longleftrightarrow> (\<forall>rs. mset (xTaken x rs) \<subseteq># mset rs) \<and> fair_schedule (xSchedule x)"

lemma asset_quote_budget_le:
  assumes "0 \<le> q" "1 \<le> left"
  shows "asset_quote_budget q left \<le> q" "0 \<le> asset_quote_budget q left"
proof -
  have shift: "(q + left - 1) div left = (q - 1) div left + 1"
    using assms div_add_self2 [of left "q - 1"] by (simp add: algebra_simps)
  have "(q + left - 1) div left < q + 1"
  proof (cases "q = 0")
    case False
    then show ?thesis using zdiv_mono2 [of "q - 1" 1 left] assms shift by simp
  qed (use assms in simp)
  then show "asset_quote_budget q left \<le> q" using assms by (simp add: asset_quote_budget_def)
  show "0 \<le> asset_quote_budget q left" using assms by (simp add: asset_quote_budget_def pos_imp_zdiv_nonneg_iff)
qed

lemma probe_asset_quotes:
  assumes "fair_env x" "0 \<le> zQuotes z" "1 \<le> left" "z' = probe_asset x options market b asset amount rs left z"
  shows "0 \<le> zQuotes z' \<and> hop_quotes (map erRoute (zEvaluated z')) + zQuotes z' \<le> hop_quotes (map erRoute (zEvaluated z)) + zQuotes z"
proof -
  obtain sel0 s0 where a: "selectEvaluationCandidates (xFloat x) (zMemory z) (xPairScore x) market rs options (xSignals x) (xWeight x) b = (sel0, s0)"
    by fastforce
  obtain sel used where bd: "boundRoutesByQuoteCost sel0 (asset_quote_budget (zQuotes z) left) = (sel, used)" by fastforce
  note within = boundRoutes_within [OF bd]
  have used: "used \<le> zQuotes z" using within asset_quote_budget_le [OF assms(2,3)] by linarith
  obtain ev s where e: "evaluateCurrent (xKeccak x) (xEvaluator x) (xLatency x) (xTaken x) sel amount b
      (seScores (summarizeBoundedSelection sel s0)) (zFailures z) (zOpportunity z) = (ev, s)" by (metis prod.exhaust)
  have z': "zQuotes z' = zQuotes z - used" "zEvaluated z' = zEvaluated z @ ev"
    using assms(4) a bd e used by (auto simp: probe_asset_def Let_def)
  have "map erRoute ev = (if sel = [] then [] else xTaken x sel)"
    using evaluateCurrent_routes [of "xKeccak x" "xEvaluator x" "xLatency x" "xTaken x" sel amount b] e by (metis fst_conv)
  then have "hop_quotes (map erRoute ev) \<le> hop_quotes sel"
    using assms(1) by (auto simp: fair_env_def intro: hop_quotes_mset)
  also have "\<dots> \<le> used" using within hop_quotes_cost [of sel] by simp
  finally show ?thesis using z' used by simp
qed

lemma probe_assets_quotes:
  assumes "fair_env x" "0 \<le> zQuotes z" "z' = probe_assets x options market amounts b cands assets z"
  shows "0 \<le> zQuotes z' \<and> hop_quotes (map erRoute (zEvaluated z')) + zQuotes z' \<le> hop_quotes (map erRoute (zEvaluated z)) + zQuotes z"
  using assms(2,3)
proof (induction assets arbitrary: z)
  case (Cons asset assets)
  show ?case
  proof (cases "\<exists>amount. amounts asset = Some (Some amount)")
    case True
    then obtain amount where am: "amounts asset = Some (Some amount)" by blast
    define z1 where "z1 = probe_asset x options market b asset amount (filter (\<lambda>r. hd (rSymbols r) = asset) cands) (int (length assets) + 1) z"
    have one: "0 \<le> zQuotes z1 \<and> hop_quotes (map erRoute (zEvaluated z1)) + zQuotes z1 \<le> hop_quotes (map erRoute (zEvaluated z)) + zQuotes z"
      by (rule probe_asset_quotes [OF assms(1) Cons.prems(1) _ z1_def]) simp
    have "z' = probe_assets x options market amounts b cands assets z1" using Cons.prems(2) am by (simp add: z1_def)
    from Cons.IH [OF conjunct1 [OF one] this] one show ?thesis by linarith
  next
    case False
    then have "z' = probe_assets x options market amounts b cands assets z"
      using Cons.prems(2) by (auto split: option.splits)
    from Cons.IH [OF Cons.prems(1) this] show ?thesis .
  qed
qed simp

lemma optimize_pending_samples:
  assumes "fair_schedule (xSchedule x)" "AdaptiveOptimizer options" "0 \<le> remaining"
    and "optimize_pending x options todo remaining (rep, s) = (rep', s')"
  shows "vrOptimizerSamples rep' \<le> vrOptimizerSamples rep + remaining"
  using assms(3,4)
proof (induction todo arbitrary: remaining rep s)
  case (Cons item later)
  obtain asset amount cs where item: "item = (asset, amount, cs)" by (cases item)
  show ?case
  proof (cases "remaining < 2")
    case True
    then have "optimize_pending x options later remaining (skip_deep options cs rep, s) = (rep', s')"
      using Cons.prems(2) assms(2) item by simp
    from Cons.IH [OF Cons.prems(1) this] show ?thesis by (simp add: skip_deep_def)
  next
    case False
    define share where "share = big_quo remaining (int (length later) + 1)"
    define budget where "budget = (if share < 2 then 2 else share)"
    have "share = remaining div (int (length later) + 1)" using Cons.prems(1) by (simp add: share_def)
    also have "\<dots> \<le> remaining" using zdiv_mono2 [of remaining 1 "int (length later) + 1"] Cons.prems(1) by simp
    finally have budget: "2 \<le> budget" "budget \<le> remaining" using False by (simp_all add: budget_def)
    obtain o1 s1 where o1: "optimizeRoutes (xKeccak x) (xEvaluator x) (xLiquidity x) (xSchedule x) asset cs amount
        (OptimizerSamplesPerRoute options) (NormalOptimizerSamples options) budget True (EarlyStop options) s = (o1, s1)"
      by (metis prod.exhaust)
    have le: "orSamples o1 \<le> budget" using optimizeRoutes_budget [OF assms(1) o1] budget by simp
    have "optimize_pending x options later (remaining - orSamples o1) (add_optimization o1 rep, s1) = (rep', s')"
      using Cons.prems(2) assms(2) item False o1 le budget
      by (simp add: Let_def share_def [symmetric] budget_def [symmetric])
    from Cons.IH [OF _ this] le budget show ?thesis by (simp add: add_optimization_def)
  qed
qed simp

lemma probe_assets_samples:
  "vrOptimizerSamples (zReport (probe_assets x options market amounts b cands assets z)) = vrOptimizerSamples (zReport z)"
proof (induction assets arbitrary: z)
  case (Cons asset assets)
  have "vrOptimizerSamples (zReport (probe_asset x options market b asset amount rs left z)) = vrOptimizerSamples (zReport z)" for amount rs left
    by (simp add: probe_asset_def probe_report_def Let_def split: prod.split)
  then show ?case using Cons.IH by (simp split: option.split)
qed simp

lemma initial_quotes_bounds: "0 \<le> MaxQuotesPerCycle options \<Longrightarrow> 0 \<le> initial_quotes options \<and> initial_quotes options \<le> MaxQuotesPerCycle options"
  by (simp add: initial_quotes_def)



definition demo_eval_env :: "(rat, unit) EvalEnv" where
  "demo_eval_env = \<lparr>xFloat = rat_ops, xKeccak = (\<lambda>_. replicate 32 0), xEvaluator = demo_env, xLatency = (\<lambda>_. 3),
     xTaken = (\<lambda>rs. rs), xSchedule = (\<lambda>_ _ xs. xs), xLiquidity = None, xPairScore = None, xSignals = Map.empty, xWeight = 0\<rparr>"

definition demo_eval_state :: "(rat, unit) EvalState" where
  "demo_eval_state = \<lparr>zFailures = Map.empty, zMemory = NewRouteMemory 10, zOpportunity = (idle_engine, ()), zQuotes = 0,
     zPending = [], zEvaluated = [], zReport = no_evaluation\<rparr>"


end
