(* ===== verification/MarketCycle.thy ===== *)
theory MarketCycle
  imports MarketReconcile MarketEvaluate
begin

text \<open>
  \<open>go/internal/market/engine.go\<close>, one market cycle: apply a staged configuration, plan and advance the
  reconciliation, consume the dirty pools of the background scanner (or scan directly), refresh them, rebuild the
  affected routes from the pool cache, evaluate them and commit the state block; and the operator's forced route.
  The background scanner runs beside a cycle: \<open>yScanner n\<close> is what it has done to the shared fields by the \<open>n\<close>-th
  point where the cycle reads them. \<open>yDone n\<close> is the \<open>n\<close>-th look at the cycle's context. Metrics, durations, RPC
  counts, the stage tracker and the shadow observer are left out.
\<close>

section \<open>Routes of the current pools\<close>

definition active_table :: "Pool list \<Rightarrow> string \<rightharpoonup> Pool" where
  "active_table active = fold (\<lambda>p m. m(to_lower (pAddress p) \<mapsto> p)) active Map.empty"

definition refresh_route :: "(string \<rightharpoonup> Pool) \<Rightarrow> Route \<Rightarrow> Route option" where
  "refresh_route table route =
     map_option (mk_route (rSymbols route)) (those (map (\<lambda>p. table (to_lower (pAddress p))) (rHops route)))"

definition refreshRoutes :: "Route list \<Rightarrow> Pool list \<Rightarrow> Route list" where
  "refreshRoutes cached active = List.map_filter (refresh_route (active_table active)) cached"

definition touches :: "string set \<Rightarrow> Route \<Rightarrow> bool" where
  "touches addresses route \<longleftrightarrow> list_ex (\<lambda>p. to_lower (pAddress p) \<in> addresses) (rHops route)"

definition routesAffectedBy :: "Route list \<Rightarrow> string set \<Rightarrow> bool \<Rightarrow> Route list" where
  "routesAffectedBy all dirty full = (if full then all else filter (touches dirty) all)"

definition routesWithoutPools :: "Route list \<Rightarrow> string set \<Rightarrow> Route list" where
  "routesWithoutPools all excluded = (if excluded = {} then all else filter (\<lambda>r. \<not> touches excluded r) all)"

definition routesByHop :: "Route list \<Rightarrow> nat \<Rightarrow> nat" where
  "routesByHop input n = length (filter (\<lambda>r. length (rHops r) = n) input)"

definition diversity_class :: "Route \<Rightarrow> string" where
  "diversity_class route =
     (case remdups (map pDEX (rHops route)) of [] \<Rightarrow> ''unknown'' | [dex] \<Rightarrow> dex | _ \<Rightarrow> ''cross_venue'')"

definition routeDEXDiversity :: "Route list \<Rightarrow> string \<Rightarrow> nat" where
  "routeDEXDiversity input key = length (filter (\<lambda>r. diversity_class r = key) input)"

definition by_volatility :: "'f FloatOps \<Rightarrow> signals \<Rightarrow> 'f \<Rightarrow> Route \<Rightarrow> Route \<Rightarrow> bool" where
  "by_volatility F signals weight a b =
     (let left = routeVolatility F a signals weight; right = routeVolatility F b signals weight
      in if left \<noteq> right then fLt F right left else Route_String a < Route_String b)"

definition safeUint64Delta :: "u64 \<Rightarrow> u64 \<Rightarrow> u64" where
  "safeUint64Delta after before = (if after < before then 0 else after - before)"

definition ratio :: "'f FloatOps \<Rightarrow> u64 \<Rightarrow> u64 \<Rightarrow> 'f" where
  "ratio F numerator denominator =
     (if denominator = 0 then fOfInt F 0 else fDiv F (fOfInt F (uint numerator)) (fOfInt F (uint denominator)))"

section \<open>The score deciles of the report\<close>

record 'f DecileRow =
  drRoutes :: nat
  drQuoteSuccessPct :: 'f
  drNearMissPct :: 'f
  drAvgGapBPS :: 'f
  drBestGapBPS :: 'f
  drOptimizerEligible :: nat

definition decile_of :: "nat \<Rightarrow> nat \<Rightarrow> nat" where
  "decile_of n index = min 10 (index * 10 div n + 1)"

definition decile_order :: "evaluatedRoute \<Rightarrow> evaluatedRoute \<Rightarrow> bool" where
  "decile_order a b = (if erPreQuoteScore a \<noteq> erPreQuoteScore b then erPreQuoteScore a > erPreQuoteScore b
     else routeKey (erRoute a) < routeKey (erRoute b))"

definition decile_bucket :: "evaluatedRoute list \<Rightarrow> nat \<Rightarrow> evaluatedRoute list" where
  "decile_bucket input d =
     (let items = sort_slice decile_order input
      in map snd (filter (\<lambda>(index, item). decile_of (length items) index = d) (enumerate 0 items)))"

definition gap_bps :: "'f FloatOps \<Rightarrow> evaluatedRoute \<Rightarrow> 'f option" where
  "gap_bps F item =
     (case erNearMiss item of
        Some r \<Rightarrow> (case (nmGapToProfit r, nmMinProfit r) of
            (Some gap, Some mp) \<Rightarrow> if mp > 0 then Some (fMul F (fNum F (Rat.Fract gap mp)) (fOfInt F 10000)) else None
          | _ \<Rightarrow> None)
      | None \<Rightarrow> None)"

definition best_gap :: "'f FloatOps \<Rightarrow> 'f list \<Rightarrow> 'f" where
  "best_gap F gaps = fold (\<lambda>g best. if fLt F best (fOfInt F 0) \<or> fLt F g best then g else best) gaps (fOfInt F (- 1))"

definition decile_row :: "'f FloatOps \<Rightarrow> evaluatedRoute list \<Rightarrow> 'f DecileRow" where
  "decile_row F bucket =
     (let n = int (length bucket); gaps = List.map_filter (gap_bps F) bucket;
          pct = (\<lambda>k. fDiv F (fMul F (fOfInt F 100) (fOfInt F k)) (fOfInt F n))
      in \<lparr>drRoutes = length bucket,
          drQuoteSuccessPct = pct (int (length (filter erQuoteSuccessful bucket))),
          drNearMissPct = pct (int (length gaps)),
          drAvgGapBPS = (if gaps = [] then fOfInt F 0
                         else fDiv F (fold (\<lambda>g t. fAdd F t g) gaps (fOfInt F 0)) (fOfInt F (int (length gaps)))),
          drBestGapBPS = (if gaps = [] then fOfInt F 0 else best_gap F gaps),
          drOptimizerEligible = length (filter optimizerEligible bucket)\<rparr>)"

definition scoreDecileQuality :: "'f FloatOps \<Rightarrow> evaluatedRoute list \<Rightarrow> nat \<Rightarrow> 'f DecileRow option" where
  "scoreDecileQuality F input d =
     (if decile_bucket input d = [] then None else Some (decile_row F (decile_bucket input d)))"

section \<open>The state of a cycle\<close>

record ('f, 'w) CycleEnv =
  yEval :: "('f, 'w) EvalEnv"
  yDiscoverer :: "'w Discoverer"
  ySnapshot :: "pool_cache \<Rightarrow> Pool list"
  yDeliver :: "Pool list \<Rightarrow> delivery list"
  yScanner :: "nat \<Rightarrow> SyncState \<Rightarrow> SyncState"
  yDone :: "nat \<Rightarrow> 'w \<Rightarrow> bool"
  yExpired :: "'w \<Rightarrow> bool"

record ('f, 'w) CycleState =
  cEngine :: EngineState
  cSync :: SyncState
  cTracker :: tracker
  cEval :: "('f, 'w) EvalState"
  cNearMisses :: "Record list"
  cActivePools :: nat
  cCycles :: nat

abbreviation cWorld :: "('f, 'w) CycleState \<Rightarrow> 'w" where
  "cWorld c \<equiv> snd (zOpportunity (cEval c))"

definition set_world :: "'w \<Rightarrow> ('f, 'w) CycleState \<Rightarrow> ('f, 'w) CycleState" where
  "set_world w c = c\<lparr>cEval := (cEval c)\<lparr>zOpportunity := (fst (zOpportunity (cEval c)), w)\<rparr>\<rparr>"

record CycleReport =
  cyStateBlock :: u64
  cyRouteCountBefore :: nat
  cyRouteCacheReady :: bool
  cyRouteCacheSize :: nat
  cySync :: SyncSnapshot
  cyDecisionStateBlock :: u64
  cyDecisionLatestHead :: u64
  cyDecisionStateLagBlocks :: u64
  cyRoutes :: "Route list"
  cyRouteCountAfter :: nat
  cyRoutesByHop :: "nat \<Rightarrow> nat"
  cyDEXRoutes :: "string \<Rightarrow> nat"
  cyNoQuoteReason :: string
  cyRefresh :: RefreshStats
  cyUnresolvedDirtyPools :: nat
  cyDirtyPools :: nat
  cyRoutesRecomputed :: nat
  cyRoutesReused :: nat
  cyRoutesSkippedUnresolved :: nat
  cyEvaluation :: evaluationReport
  cyTopNearMisses :: "Record list"
  cyRouteScores :: "nat \<times> nat \<times> nat"
  cyRejectionReasons :: "string \<Rightarrow> nat"
  cyPreQuoteRanking :: bool
  cyReconcile :: ReconcileReport

definition no_reconcile :: ReconcileReport where
  "no_reconcile = \<lparr>rrPending = False, rrBatchSize = 0, rrUnitsDone = 0, rrUnitsTotal = 0, rrUnitsThisCycle = 0, rrFailures = 0,
     rrError = False, rrCompleted = False, rrFullReconcile = False, rrFailedUnits = 0, rrDiscoveredPools = 0,
     rrGeneratedRoutes = 0, rrRouteCacheReady = False, rrRouteCacheSize = 0\<rparr>"

text \<open>The report at the start of the cycle: the route cache before it, everything else zero.\<close>

definition start_report :: "u64 \<Rightarrow> EngineState \<Rightarrow> CycleReport" where
  "start_report stateBlock e =
     \<lparr>cyStateBlock = stateBlock, cyRouteCountBefore = length (eRouteCache e), cyRouteCacheReady = (eRouteCache e \<noteq> []),
      cyRouteCacheSize = length (eRouteCache e), cySync = empty_snapshot, cyDecisionStateBlock = 0, cyDecisionLatestHead = 0,
      cyDecisionStateLagBlocks = 0, cyRoutes = [], cyRouteCountAfter = 0, cyRoutesByHop = (\<lambda>_. 0), cyDEXRoutes = (\<lambda>_. 0),
      cyNoQuoteReason = '''', cyRefresh = no_refresh, cyUnresolvedDirtyPools = 0, cyDirtyPools = 0, cyRoutesRecomputed = 0,
      cyRoutesReused = 0, cyRoutesSkippedUnresolved = 0, cyEvaluation = no_evaluation, cyTopNearMisses = [],
      cyRouteScores = (0, 0, 0), cyRejectionReasons = (\<lambda>_. 0), cyPreQuoteRanking = False, cyReconcile = no_reconcile\<rparr>"

definition applySyncTelemetry :: "SyncSnapshot \<Rightarrow> u64 \<Rightarrow> CycleReport \<Rightarrow> CycleReport" where
  "applySyncTelemetry snapshot decisionBlock report =
     report\<lparr>cySync := snapshot, cyDecisionStateBlock := snScanWatermark snapshot, cyDecisionLatestHead := decisionBlock,
            cyDecisionStateLagBlocks := (if decisionBlock > snScanWatermark snapshot
              then decisionBlock - snScanWatermark snapshot else cyDecisionStateLagBlocks report)\<rparr>"

definition sync_telemetry :: "u64 \<Rightarrow> ('f, 'w) CycleState \<Rightarrow> CycleReport \<Rightarrow> CycleReport" where
  "sync_telemetry stateBlock c = applySyncTelemetry (marketSyncSnapshot stateBlock (cSync c)) stateBlock"

definition report_routes :: "Route list \<Rightarrow> EngineState \<Rightarrow> CycleReport \<Rightarrow> CycleReport" where
  "report_routes rs e report =
     report\<lparr>cyRoutes := rs, cyRouteCountAfter := length rs, cyRouteCacheReady := (eRouteCache e \<noteq> []),
            cyRouteCacheSize := length (eRouteCache e), cyRoutesByHop := routesByHop rs, cyDEXRoutes := routeDEXDiversity rs\<rparr>"

section \<open>Planning the reconciliation\<close>

definition RequiresFullReconcile :: "int \<Rightarrow> int \<Rightarrow> SearchOptions \<Rightarrow> bool" where
  "RequiresFullReconcile maxHops maxRoutes options = False"

definition clamp_hops :: "int \<Rightarrow> int" where
  "clamp_hops maxHops = (if maxHops < 2 then 2 else if maxHops > 4 then 4 else maxHops)"

definition needs_reconcile :: "int \<Rightarrow> int \<Rightarrow> SearchOptions \<Rightarrow> bool \<Rightarrow> EngineState \<Rightarrow> bool" where
  "needs_reconcile maxHops maxRoutes options marketChanged e \<longleftrightarrow>
     eRouteCache e = [] \<or> eCyclesSinceFull e \<ge> FullReconcileEvery options
     \<or> maxHops \<noteq> eLastMaxHops e \<or> maxRoutes \<noteq> eLastMaxRoutes e \<or> marketChanged \<or> eForceFull e"

definition plan_reconciliation :: "u32 list \<Rightarrow> int \<Rightarrow> int \<Rightarrow> SearchOptions \<Rightarrow> bool \<Rightarrow> EngineState \<Rightarrow> EngineState" where
  "plan_reconciliation fees maxHops maxRoutes options marketChanged e =
     (if needs_reconcile maxHops maxRoutes options marketChanged e
         \<and> ((case eReconciliation e of None \<Rightarrow> True | Some st \<Rightarrow> rcMaxHops st \<noteq> maxHops \<or> rcMaxRoutes st \<noteq> maxRoutes) \<or> marketChanged)
      then startReconciliation fees maxHops maxRoutes e else e)"

text \<open>A batch of the reconciliation, inside or beside a decision.\<close>

definition advance_batch :: "('f, 'w) CycleEnv \<Rightarrow> u64 \<Rightarrow> int \<Rightarrow> ('f, 'w) CycleState \<Rightarrow> ReconcileReport \<times> ('f, 'w) CycleState" where
  "advance_batch y stateBlock n c =
     (case advanceReconciliationBatch (xKeccak (yEval y)) (yDiscoverer y) (yExpired y) stateBlock n (ySnapshot y (eCache (cEngine c)))
            (cEngine c) no_reconcile (cWorld c) of
        ((rr, e), w) \<Rightarrow> (rr, set_world w (c\<lparr>cEngine := e\<rparr>)))"

definition background_batch :: "('f, 'w) CycleEnv \<Rightarrow> u64 \<Rightarrow> int \<Rightarrow> ('f, 'w) CycleState \<Rightarrow> ReconcileReport \<times> ('f, 'w) CycleState" where
  "background_batch y stateBlock n c =
     (case advanceBackgroundReconciliationBatch (xKeccak (yEval y)) (yDiscoverer y) (yExpired y) stateBlock n
            (ySnapshot y (eCache (cEngine c))) (cEngine c) no_reconcile (cWorld c) of
        ((rr, e), w) \<Rightarrow> (rr, set_world w (c\<lparr>cEngine := e\<rparr>)))"

section \<open>The stages of a cycle\<close>

text \<open>Without routes the cycle only advances the startup reconciliation.\<close>

definition startup_cycle :: "('f, 'w) CycleEnv \<Rightarrow> u64 \<Rightarrow> SearchOptions \<Rightarrow> CycleReport \<Rightarrow> ('f, 'w) CycleState
    \<Rightarrow> CycleReport \<times> ('f, 'w) CycleState" where
  "startup_cycle y stateBlock options report c =
     (case advance_batch y stateBlock (ReconcileBatchPairs options) c of
        (rr, c1) \<Rightarrow>
          let rs = eRouteCache (cEngine c1);
              report1 = report_routes rs (cEngine c1) (report\<lparr>cyReconcile := rr\<rparr>)
          in (if rs = [] then report1\<lparr>cyNoQuoteReason := ''reconciliation_in_progress''\<rparr> else report1,
              if stateBlock > 0 then c1\<lparr>cSync := setLastStateBlock stateBlock (cSync c1)\<rparr> else c1))"

definition active_pools :: "('f, 'w) CycleEnv \<Rightarrow> ('f, 'w) CycleState \<Rightarrow> Pool list" where
  "active_pools y c = liquidPools (ySnapshot y (eCache (cEngine c)))"

text \<open>Within eight blocks of the last committed one, and with nothing pending, a head is not worth a refresh.\<close>

definition deferred_cycle :: "('f, 'w) CycleEnv \<Rightarrow> CycleReport \<Rightarrow> ('f, 'w) CycleState \<Rightarrow> CycleReport \<times> ('f, 'w) CycleState" where
  "deferred_cycle y report c =
     (let rs = refreshRoutes (eRouteCache (cEngine c)) (active_pools y c)
      in (report\<lparr>cyRoutesReused := length rs, cyReconcile := describeReconciliation (cEngine c) (cyReconcile report),
                 cyRoutes := rs, cyRouteCountAfter := length rs, cyRoutesByHop := routesByHop rs,
                 cyDEXRoutes := routeDEXDiversity rs, cyNoQuoteReason := ''incremental_refresh_deferred''\<rparr>,
          c\<lparr>cActivePools := length (ySnapshot y (eCache (cEngine c))), cCycles := length rs\<rparr>))"

definition defer_refresh :: "u64 \<Rightarrow> SyncState \<Rightarrow> bool" where
  "defer_refresh stateBlock st \<longleftrightarrow>
     \<not> (syncRunning st \<and> pendingDirtySnapshot st \<noteq> {}) \<and> shouldDeferIncrementalRefresh (lastStateBlock st) stateBlock 8"

text \<open>The refresh: \<open>Inl\<close> ends the cycle with an error. With the scanner running the pending pools are refreshed and the
  resolved ones acknowledged; without it the blocks since the last committed one are scanned now.\<close>

definition refresh_synced :: "('f, 'w) CycleEnv \<Rightarrow> u64 \<Rightarrow> CycleReport \<Rightarrow> ('f, 'w) CycleState
    \<Rightarrow> (string set \<times> RefreshStats) option \<times> CycleReport \<times> ('f, 'w) CycleState" where
  "refresh_synced y stateBlock report c =
     (let current = ySnapshot y (eCache (cEngine c)); pending = pendingDirtySnapshot (cSync c)
      in case refreshKnownDirty current pending (yDeliver y (poolsByAddress current pending)) (eCache (cEngine c)) of
           (dirty, stats, cache) \<Rightarrow>
             let c1 = c\<lparr>cEngine := (cEngine c)\<lparr>eCache := cache\<rparr>, cSync := yScanner y 0 (cSync c)\<rparr>;
                 report1 = sync_telemetry stateBlock c1 report
             in if yDone y 1 (cWorld c1) then (None, report1, c1)
                else (Some (dirty, stats), report1,
                      c1\<lparr>cSync := ackPendingDirty (rsResolvedDirty stats) (rsUnresolvedDirty stats) (cSync c1)\<rparr>))"

definition refresh_direct :: "('f, 'w) CycleEnv \<Rightarrow> u64 \<Rightarrow> CycleReport \<Rightarrow> ('f, 'w) CycleState
    \<Rightarrow> (string set \<times> RefreshStats) option \<times> CycleReport \<times> ('f, 'w) CycleState" where
  "refresh_direct y stateBlock report c =
     (let last0 = lastStateBlock (cSync c); fromBlock = (if last0 > 0 \<and> last0 < stateBlock then last0 + 1 else stateBlock)
      in case incrementalRefresh (ChangedPoolAddressesAtWithStats (xKeccak (yEval y)) (yDiscoverer y))
                (ySnapshot y (eCache (cEngine c))) fromBlock stateBlock (yDone y 0) (yDeliver y) (eCache (cEngine c)) (cWorld c) of
           (Inl (stats, cache), w) \<Rightarrow>
             (None, report\<lparr>cyRefresh := stats, cyUnresolvedDirtyPools := card (rsUnresolvedDirty stats)\<rparr>,
              set_world w (c\<lparr>cEngine := (cEngine c)\<lparr>eCache := cache\<rparr>\<rparr>))
         | (Inr (dirty, stats, cache), w) \<Rightarrow>
             (Some (dirty, stats), report, set_world w (c\<lparr>cEngine := (cEngine c)\<lparr>eCache := cache\<rparr>\<rparr>)))"

definition refresh_stage :: "('f, 'w) CycleEnv \<Rightarrow> u64 \<Rightarrow> CycleReport \<Rightarrow> ('f, 'w) CycleState
    \<Rightarrow> (string set \<times> RefreshStats) option \<times> CycleReport \<times> ('f, 'w) CycleState" where
  "refresh_stage y stateBlock report c =
     (if syncRunning (cSync c) then refresh_synced y stateBlock report c else refresh_direct y stateBlock report c)"

text \<open>The routes of the refreshed pools, and those among them that this cycle evaluates.\<close>

definition found_routes :: "'f FloatOps \<Rightarrow> Route list \<Rightarrow> Pool list \<Rightarrow> signals \<Rightarrow> 'f \<Rightarrow> Route list" where
  "found_routes F cached active signals weight = sort_slice (by_volatility F signals weight) (refreshRoutes cached active)"

definition affected_routes :: "Route list \<Rightarrow> string set \<Rightarrow> bool \<Rightarrow> string set \<Rightarrow> Route list" where
  "affected_routes rs dirty forced unresolved = routesWithoutPools (routesAffectedBy rs dirty forced) unresolved"

definition search_env :: "signals \<Rightarrow> 'f \<Rightarrow> EngineState \<Rightarrow> ('f, 'w) EvalEnv \<Rightarrow> ('f, 'w) EvalEnv" where
  "search_env signals weight e x =
     x\<lparr>xSignals := signals, xWeight := weight,
       xEvaluator := (case eEvaluatorMarket e of Some m \<Rightarrow> (xEvaluator x)\<lparr>vMarket := m\<rparr> | None \<Rightarrow> xEvaluator x)\<rparr>"

definition prepare_quotes :: "u64 \<Rightarrow> string set \<Rightarrow> SearchOptions \<Rightarrow> ('f, 'w) EvalState \<Rightarrow> ('f, 'w) EvalState" where
  "prepare_quotes stateBlock dirty options z =
     z\<lparr>zOpportunity := (SetQuoteBudget (MaxQuotesPerCycle options)
          (PrepareQuoteCache stateBlock dirty (PersistentQuoteCache options) (fst (zOpportunity z))), snd (zOpportunity z))\<rparr>"

definition search_stage :: "('f, 'w) CycleEnv \<Rightarrow> u64 \<Rightarrow> 'f \<Rightarrow> SearchOptions \<Rightarrow> bool \<Rightarrow> string set \<Rightarrow> RefreshStats \<Rightarrow> CycleReport
    \<Rightarrow> ('f, 'w) CycleState \<Rightarrow> Route list \<times> Route list \<times> CycleReport \<times> ('f, 'w) CycleState" where
  "search_stage y stateBlock weight options forced dirty stats report c =
     (let active = active_pools y c; (signals, tracker') = Volatility.Observe active (cTracker c);
          rs = found_routes (xFloat (yEval y)) (eRouteCache (cEngine c)) active signals weight;
          affected = affected_routes rs dirty forced (rsUnresolvedDirty stats);
          z0 = (cEval c)\<lparr>zMemory := reviveDirtyRouteMemory (xFloat (yEval y)) affected stateBlock (zMemory (cEval c))\<rparr>;
          z1 = evaluate (search_env signals weight (cEngine c) (yEval y)) options (eMarket (cEngine c)) (map_of (eAmounts (cEngine c)))
                 stateBlock affected (prepare_quotes stateBlock dirty options z0)
      in (rs, affected,
          report\<lparr>cyDirtyPools := card dirty,
                 cyRoutesSkippedUnresolved := length (routesAffectedBy rs dirty forced) - length affected,
                 cyRoutesRecomputed := length affected, cyRoutesReused := length rs - length affected\<rparr>,
          c\<lparr>cTracker := tracker', cActivePools := length active, cCycles := length rs, cEval := z1\<rparr>))"

definition no_quote_reason :: "Route list \<Rightarrow> CycleReport \<Rightarrow> string" where
  "no_quote_reason affected report =
     (if affected = [] then (if snMarketStateSyncLagging (cySync report) then ''market_state_sync_lagging'' else ''no_dirty_routes'')
      else if vrRoutesEvaluated (cyEvaluation report) = 0 then ''prequote_or_quote_budget''
      else if vrNearMisses (cyEvaluation report) = [] then ''no_complete_economic_evaluation'' else cyNoQuoteReason report)"

definition report_search :: "SearchOptions \<Rightarrow> Route list \<Rightarrow> ('f, 'w) CycleState \<Rightarrow> CycleReport \<Rightarrow> CycleReport" where
  "report_search options affected c report =
     (let v = zReport (cEval c);
          report1 = report\<lparr>cyEvaluation := v, cyTopNearMisses := NearMiss.Snapshot (cNearMisses c) 10,
                           cyRouteScores := Distribution (vrNearMisses v), cyRejectionReasons := RejectionReasons (vrNearMisses v),
                           cyPreQuoteRanking := (\<not> DisablePreQuoteRanking options)\<rparr>
      in report1\<lparr>cyNoQuoteReason := no_quote_reason affected report1\<rparr>)"

text \<open>After the refresh: evaluate, and on an idle head advance the background reconciliation; then commit the block.\<close>

definition decide_stage :: "('f, 'w) CycleEnv \<Rightarrow> u64 \<Rightarrow> 'f \<Rightarrow> SearchOptions \<Rightarrow> bool \<Rightarrow> string set \<Rightarrow> RefreshStats \<Rightarrow> CycleReport
    \<Rightarrow> ('f, 'w) CycleState \<Rightarrow> (CycleReport \<times> bool) \<times> ('f, 'w) CycleState" where
  "decide_stage y stateBlock weight options forced dirty stats report c =
     (case search_stage y stateBlock weight options forced dirty stats report c of
        (rs, affected, report1, c1) \<Rightarrow>
          if yDone y 2 (cWorld c1) then ((report1, False), c1)
          else let c2 = c1\<lparr>cNearMisses := mergeNearMisses (cNearMisses c1) (vrNearMisses (zReport (cEval c1))) 100\<rparr>;
                   report2 = report_search options affected c2 report1;
                   (rr, c3) = (if dirty = {} then background_batch y stateBlock (ReconcileBatchPairs options) c2
                               else (cyReconcile report2, c2));
                   c4 = c3\<lparr>cSync := commit_block stateBlock (rsMarketStateIncomplete stats) (yScanner y 1 (cSync c3))\<rparr>
               in ((report_routes rs (cEngine c3) (report2\<lparr>cyReconcile := rr\<rparr>), True), c4))"

definition shouldAdvanceFullReconcileCounter :: "string set \<Rightarrow> bool" where
  "shouldAdvanceFullReconcileCounter dirty \<longleftrightarrow> dirty \<noteq> {}"

definition incremental_cycle :: "('f, 'w) CycleEnv \<Rightarrow> u64 \<Rightarrow> 'f \<Rightarrow> SearchOptions \<Rightarrow> CycleReport \<Rightarrow> ('f, 'w) CycleState
    \<Rightarrow> (CycleReport \<times> bool) \<times> ('f, 'w) CycleState" where
  "incremental_cycle y stateBlock weight options report c =
     (let forced = eForceEvaluateNext (cEngine c); c0 = c\<lparr>cEngine := (cEngine c)\<lparr>eForceEvaluateNext := False\<rparr>\<rparr>
      in case refresh_stage y stateBlock report c0 of
           (None, report1, c1) \<Rightarrow> ((report1, False), c1)
         | (Some (dirty, stats), report1, c1) \<Rightarrow>
             let report2 = report1\<lparr>cyRefresh := stats, cyUnresolvedDirtyPools := card (rsUnresolvedDirty stats)\<rparr>;
                 c2 = (if shouldAdvanceFullReconcileCounter dirty
                       then c1\<lparr>cEngine := (cEngine c1)\<lparr>eCyclesSinceFull := eCyclesSinceFull (cEngine c1) + 1\<rparr>\<rparr> else c1)
             in decide_stage y stateBlock weight options forced dirty stats report2 c2)"

text \<open>The whole cycle: the report, whether it ended without an error, and the new state.\<close>

definition CycleAtWithSearchOptions :: "('f, 'w) CycleEnv \<Rightarrow> u64 \<Rightarrow> int \<Rightarrow> int \<Rightarrow> 'f \<Rightarrow> SearchOptions \<Rightarrow> ('f, 'w) CycleState
    \<Rightarrow> (CycleReport \<times> bool) \<times> ('f, 'w) CycleState" where
  "CycleAtWithSearchOptions y stateBlock maxHops maxRoutes weight options0 c =
     (let (marketChanged, e1) = applyPendingMarket (cEngine c);
          options = Normalized options0; hops = clamp_hops maxHops;
          c1 = c\<lparr>cEngine := e1\<rparr>;
          report = sync_telemetry stateBlock c1 (start_report stateBlock e1)
      in if maxRoutes < 1 then ((report, True), c1)
         else let c2 = c1\<lparr>cEngine := plan_reconciliation (dFees (yDiscoverer y)) hops maxRoutes options marketChanged e1\<rparr>
              in if eRouteCache e1 = []
                 then (case startup_cycle y stateBlock options report c2 of (report1, c3) \<Rightarrow> ((report1, True), c3))
                 else if defer_refresh stateBlock (cSync c2)
                 then (case deferred_cycle y report c2 of (report1, c3) \<Rightarrow> ((report1, True), c3))
                 else incremental_cycle y stateBlock weight options report c2)"

definition CycleAt :: "('f, 'w) CycleEnv \<Rightarrow> u64 \<Rightarrow> int \<Rightarrow> int \<Rightarrow> 'f \<Rightarrow> ('f, 'w) CycleState \<Rightarrow> (CycleReport \<times> bool) \<times> ('f, 'w) CycleState" where
  "CycleAt y stateBlock maxHops maxRoutes weight c =
     CycleAtWithSearchOptions y stateBlock maxHops maxRoutes weight DefaultSearchOptions c"

definition CycleWithSearch :: "('f, 'w) CycleEnv \<Rightarrow> int \<Rightarrow> int \<Rightarrow> 'f \<Rightarrow> ('f, 'w) CycleState \<Rightarrow> (Route list \<times> bool) \<times> ('f, 'w) CycleState" where
  "CycleWithSearch y maxHops maxRoutes weight c =
     (case CycleAt y 0 maxHops maxRoutes weight c of ((report, ok), c') \<Rightarrow> ((cyRoutes report, ok), c'))"

definition CycleWithLimits :: "('f, 'w) CycleEnv \<Rightarrow> int \<Rightarrow> int \<Rightarrow> ('f, 'w) CycleState \<Rightarrow> (Route list \<times> bool) \<times> ('f, 'w) CycleState" where
  "CycleWithLimits y maxHops maxRoutes c = CycleWithSearch y maxHops maxRoutes (fOfInt (xFloat (yEval y)) 1) c"

definition Cycle :: "('f, 'w) CycleEnv \<Rightarrow> ('f, 'w) CycleState \<Rightarrow> (Route list \<times> bool) \<times> ('f, 'w) CycleState" where
  "Cycle y c = CycleWithLimits y 4 256 c"

section \<open>The forced route\<close>

primrec forced_walk :: "nat \<Rightarrow> string list \<Rightarrow> Pool list list \<Rightarrow> Pool list \<Rightarrow> Route list \<Rightarrow> Route list" where
  "forced_walk maximum symbols [] = (\<lambda>current out.
     if length out \<ge> maximum then out else out @ [mk_route symbols current])"
| "forced_walk maximum symbols (choice # choices) = (\<lambda>current out.
     if length out \<ge> maximum then out
     else fold (\<lambda>p out. if length out \<ge> maximum then out else forced_walk maximum symbols choices (current @ [p]) out) choice out)"

definition forcedRouteCombinations :: "string list \<Rightarrow> Pool list list \<Rightarrow> nat \<Rightarrow> Route list" where
  "forcedRouteCombinations symbols choices maximum =
     (if maximum < 1 then [] else forced_walk maximum symbols choices [] [])"

fun forced_choices :: "keccak \<Rightarrow> 'w Discoverer \<Rightarrow> MarketConfig \<Rightarrow> u64 \<Rightarrow> string list \<Rightarrow> ('w, Pool list list) io" where
  "forced_choices kk d market stateBlock (a # b # rest) w =
     (case (token market a, token market b) of
        (Some ta, Some tb) \<Rightarrow>
          (case (if stateBlock > 0 then DiscoverPairAt kk d (tAddress ta) (tAddress tb) stateBlock
                 else DiscoverPair kk d (tAddress ta) (tAddress tb)) w of
             (Inl err, w1) \<Rightarrow> (Inl err, w1)
           | (Inr found, w1) \<Rightarrow>
               if liquidPools found = [] then (Inl (''no liquid pool for forced hop '' @ a @ '' -> '' @ b), w1)
               else (case forced_choices kk d market stateBlock (b # rest) w1 of
                       (Inl err, w2) \<Rightarrow> (Inl err, w2)
                     | (Inr choices, w2) \<Rightarrow> (Inr (liquidPools found # choices), w2)))
      | _ \<Rightarrow> (Inl ''forced route token is not configured'', w))"
| "forced_choices kk d market stateBlock symbols w = (Inr [], w)"

definition forced_source :: "u64 \<Rightarrow> Opportunity \<Rightarrow> Opportunity" where
  "forced_source stateBlock op =
     (let source = forcedRouteSourceBlock (oRoute op) in op\<lparr>oSourceBlock := if source = 0 then stateBlock else source\<rparr>)"

definition forced_step :: "keccak \<Rightarrow> 'w Env \<Rightarrow> u64 \<Rightarrow> int \<Rightarrow> Route \<Rightarrow> Opportunity option \<times> (Engine \<times> 'w) \<Rightarrow> Opportunity option \<times> (Engine \<times> 'w)" where
  "forced_step kk v stateBlock amount route = (\<lambda>(best, s).
     case EvaluateSilent kk v route amount s of
       (Inl _, s1) \<Rightarrow> (best, s1)
     | (Inr op, s1) \<Rightarrow>
         (case best of
            None \<Rightarrow> (Some (forced_source stateBlock op), s1)
          | Some b \<Rightarrow> (Some (if oExpectedProfit op > oExpectedProfit b then forced_source stateBlock op else b), s1)))"

definition ForcedOpportunity :: "keccak \<Rightarrow> 'w Discoverer \<Rightarrow> 'w Env \<Rightarrow> MarketConfig \<Rightarrow> u64 \<Rightarrow> string list \<Rightarrow> bigint
    \<Rightarrow> Engine \<times> 'w \<Rightarrow> Opportunity result \<times> (Engine \<times> 'w)" where
  "ForcedOpportunity kk d v market stateBlock symbols amount = (\<lambda>(e, w).
     if length symbols < 3 \<or> length symbols > 5 then (Inl ''forced route must contain a 2-4 hop cycle'', (e, w))
     else if hd symbols = '''' \<or> last symbols \<noteq> hd symbols
     then (Inl ''forced route must start and end with the loan asset'', (e, w))
     else case amount of
       None \<Rightarrow> (Inl ''forced amount must be positive'', (e, w))
     | Some a \<Rightarrow>
         if a \<le> 0 then (Inl ''forced amount must be positive'', (e, w))
         else case filter (\<lambda>symbol. token market symbol = None) symbols of
                symbol # _ \<Rightarrow> (Inl (''forced route token '' @ symbol @ '' is not configured''), (e, w))
              | [] \<Rightarrow>
                (case forced_choices kk d market stateBlock symbols w of
                (Inl err, w1) \<Rightarrow> (Inl err, (e, w1))
              | (Inr choices, w1) \<Rightarrow>
                  (case fold (forced_step kk v stateBlock a) (forcedRouteCombinations symbols choices 32) (None, (e, w1)) of
                     (None, s) \<Rightarrow> (Inl ''forced route produced no quotable pool combination'', s)
                   | (Some op, s) \<Rightarrow> (Inr op, s))))"

section \<open>What is evaluated\<close>

lemma selected_from:
  assumes "0 \<le> ExploreRatioBPS options"
    and "selectEvaluationCandidates F memory ps market cands options signals weight b = (selected, s)"
  shows "set selected \<subseteq> set cands"
proof -
  define items where "items = map (score_route F memory ps market signals weight b) (distinct_keys {} cands)"
  have routes: "map scRoute items = distinct_keys {} cands" "map scKey items = map routeKey (distinct_keys {} cands)"
    by (simp_all add: items_def score_route_def Let_def o_def)
  have subset: "set (distinct_keys {} cands) \<subseteq> set cands" and distinct: "distinct (map scKey items)"
    using distinct_keys_spec [of "{}" cands] by (simp_all add: routes)
  consider (legacy) "DisablePreQuoteRanking options" | (none) "\<not> DisablePreQuoteRanking options" "EvaluationRoutesPerAsset options < 1 \<or> cands = []"
    | (scored) "\<not> DisablePreQuoteRanking options" "1 \<le> EvaluationRoutesPerAsset options" "cands \<noteq> []" by linarith
  then show ?thesis
  proof cases
    case legacy
    then show ?thesis using assms(2) subset
      by (auto simp: selectEvaluationCandidates_def Let_def boundedRoutes_def dedupeRoutes_def dest: in_set_takeD split: if_splits)
  next
    case none
    then show ?thesis using assms(2) by (auto simp: selectEvaluationCandidates_def Let_def)
  next
    case scored
    have keyed: "\<forall>i\<in>set items. keyed i" by (auto simp: items_def keyed_def score_route_def Let_def)
    have "select_scored (EvaluationRoutesPerAsset options) (ExploreRatioBPS options) items = (selected, s)"
      using assms(2) scored by (simp add: selectEvaluationCandidates_def Let_def items_def)
    from select_scored_spec [OF distinct keyed scored(2) assms(1) this]
    have "set selected \<subseteq> set (map scRoute items)" by simp
    then show ?thesis using subset unfolding routes by blast
  qed
qed

abbreviation evaluated_routes :: "('f, 'w) EvalState \<Rightarrow> Route set" where
  "evaluated_routes z \<equiv> erRoute ` set (zEvaluated z)"

lemma probe_asset_from:
  assumes "fair_env x" "0 \<le> ExploreRatioBPS options"
  shows "evaluated_routes (probe_asset x options market b asset amount rs left z) \<subseteq> evaluated_routes z \<union> set rs"
proof -
  obtain sel0 s0 where a: "selectEvaluationCandidates (xFloat x) (zMemory z) (xPairScore x) market rs options (xSignals x) (xWeight x) b = (sel0, s0)"
    by (metis prod.exhaust)
  obtain sel used where bd: "boundRoutesByQuoteCost sel0 (asset_quote_budget (zQuotes z) left) = (sel, used)" by (metis prod.exhaust)
  obtain ev s where e: "evaluateCurrent (xKeccak x) (xEvaluator x) (xLatency x) (xTaken x) sel amount b
      (seScores (summarizeBoundedSelection sel s0)) (zFailures z) (zOpportunity z) = (ev, s)" by (metis prod.exhaust)
  have "set sel \<subseteq> set rs" using selected_from [OF assms(2) a] boundRoutes_within [OF bd] by blast
  moreover have "map erRoute ev = (if sel = [] then [] else xTaken x sel)"
    using evaluateCurrent_routes [of "xKeccak x" "xEvaluator x" "xLatency x" "xTaken x" sel amount b] e by (metis fst_conv)
  then have "erRoute ` set ev \<subseteq> set sel"
    using assms(1) set_mset_mono [of "mset (xTaken x sel)" "mset sel"]
    by (auto simp: fair_env_def simp flip: set_map split: if_splits)
  moreover have "zEvaluated (probe_asset x options market b asset amount rs left z) = zEvaluated z @ ev"
    using a bd e by (simp add: probe_asset_def Let_def)
  ultimately show ?thesis by auto
qed

lemma probe_assets_from:
  assumes "fair_env x" "0 \<le> ExploreRatioBPS options"
  shows "evaluated_routes (probe_assets x options market amounts b cands assets z) \<subseteq> evaluated_routes z \<union> set cands"
proof (induction assets arbitrary: z)
  case (Cons asset assets)
  show ?case
  proof (cases "\<exists>amount. amounts asset = Some (Some amount)")
    case True
    then obtain amount where am: "amounts asset = Some (Some amount)" by blast
    let ?z = "probe_asset x options market b asset amount (filter (\<lambda>r. hd (rSymbols r) = asset) cands) (int (length assets) + 1) z"
    have "evaluated_routes ?z \<subseteq> evaluated_routes z \<union> set (filter (\<lambda>r. hd (rSymbols r) = asset) cands)"
      by (rule probe_asset_from [OF assms])
    moreover have "set (filter (\<lambda>r. hd (rSymbols r) = asset) cands) \<subseteq> set cands" by simp
    ultimately have "evaluated_routes ?z \<subseteq> evaluated_routes z \<union> set cands" by blast
    with Cons.IH [of ?z] show ?thesis using am by simp blast
  next
    case False
    then have "probe_assets x options market amounts b cands (asset # assets) z = probe_assets x options market amounts b cands assets z"
      by (auto split: option.splits)
    then show ?thesis using Cons.IH [of z] by simp
  qed
qed simp

lemma evaluate_from:
  assumes "fair_env x" "0 \<le> ExploreRatioBPS options"
  shows "evaluated_routes (evaluate x options market amounts b cands z) \<subseteq> set cands"
proof -
  define z0 where "z0 = z\<lparr>zQuotes := initial_quotes options, zPending := [], zEvaluated := [], zReport := no_evaluation\<rparr>"
  let ?z1 = "probe_assets x options market amounts b cands (sorted_keys (map (\<lambda>r. hd (rSymbols r)) cands)) z0"
  have "zEvaluated (evaluate x options market amounts b cands z) = zEvaluated ?z1"
    by (simp add: evaluate_def Let_def z0_def split: prod.split)
  then show ?thesis using probe_assets_from [OF assms, of market amounts b cands _ z0] by (simp add: z0_def)
qed

lemma those_eq_Some: "those xs = Some ys \<longleftrightarrow> xs = map Some ys"
proof (induction xs arbitrary: ys)
  case (Cons x xs)
  then show ?case by (cases ys) (auto split: option.split)
qed auto

lemma in_set_map_filter: "y \<in> set (List.map_filter f xs) \<longleftrightarrow> (\<exists>x\<in>set xs. f x = Some y)"
  by (induction xs) (auto split: option.splits)

lemma active_table_Some:
  assumes "active_table active a = Some p"
  shows "p \<in> set active \<and> to_lower (pAddress p) = a"
proof -
  have "fold (\<lambda>p m. m(to_lower (pAddress p) \<mapsto> p)) active m a = Some p \<Longrightarrow> p \<in> set active \<or> m a = Some p" for m
  proof (induction active arbitrary: m)
    case (Cons q active)
    from Cons.IH [of "m(to_lower (pAddress q) \<mapsto> q)"] Cons.prems show ?case by (auto split: if_splits)
  qed simp
  then show ?thesis using assms lower_table_key [of active Map.empty a p] by (auto simp: active_table_def)
qed

text \<open>A refreshed route: the cached route with every pool replaced by its current version.\<close>

definition refreshes :: "Route \<Rightarrow> Route \<Rightarrow> bool" where
  "refreshes r r0 \<longleftrightarrow> rSymbols r = rSymbols r0 \<and> map (\<lambda>p. to_lower (pAddress p)) (rHops r) = map (\<lambda>p. to_lower (pAddress p)) (rHops r0)"

lemma refreshRoutes_current:
  assumes "r \<in> set (refreshRoutes cached active)"
  shows "set (rHops r) \<subseteq> set active \<and> (\<exists>r0\<in>set cached. refreshes r r0)"
proof -
  obtain r0 hops where r0: "r0 \<in> set cached" "r = mk_route (rSymbols r0) hops"
      "map (\<lambda>p. active_table active (to_lower (pAddress p))) (rHops r0) = map Some hops"
    using assms by (auto simp: refreshRoutes_def in_set_map_filter refresh_route_def those_eq_Some)
  have all: "list_all2 (\<lambda>p q. q \<in> set active \<and> to_lower (pAddress q) = to_lower (pAddress p)) (rHops r0) hops"
    unfolding list_all2_conv_all_nth
  proof (rule conjI)
    show len: "length (rHops r0) = length hops" using r0(3) by (rule map_eq_imp_length_eq)
    have "active_table active (to_lower (pAddress (rHops r0 ! i))) = Some (hops ! i)" if "i < length (rHops r0)" for i
      using that arg_cong [OF r0(3), of "\<lambda>xs. xs ! i"] len by simp
    then show "\<forall>i<length (rHops r0). hops ! i \<in> set active \<and> to_lower (pAddress (hops ! i)) = to_lower (pAddress (rHops r0 ! i))"
      by (blast dest: active_table_Some)
  qed
  have "set hops \<subseteq> set active"
    using all by (auto simp: list_all2_conv_all_nth in_set_conv_nth)
  moreover have "map (\<lambda>p. to_lower (pAddress p)) hops = map (\<lambda>p. to_lower (pAddress p)) (rHops r0)"
    using all by (intro nth_equalityI) (auto simp: list_all2_conv_all_nth)
  ultimately show ?thesis using r0(1,2) by (auto simp: refreshes_def)
qed

section \<open>Cycles keep the caches consistent and evaluate current pools\<close>

text \<open>What a cycle relies on: a snapshot holds cached pools, a refresh delivers pools it was asked for under their own
  address, and each selected route or candidate size is taken by at most one worker.\<close>

definition cycle_env_ok :: "('f, 'w) CycleEnv \<Rightarrow> bool" where
  "cycle_env_ok y \<longleftrightarrow> fair_env (yEval y) \<and> (\<forall>cache. set (ySnapshot y cache) \<subseteq> ran cache)
     \<and> (\<forall>ps. list_all (\<lambda>(before, r, cancelled). before \<in> set ps
          \<and> (case r of Inl _ \<Rightarrow> True | Inr after \<Rightarrow> pAddress after = pAddress before)) (yDeliver y ps))"

definition delivery_of :: "Pool set \<Rightarrow> delivery \<Rightarrow> bool" where
  "delivery_of ps = (\<lambda>(before, r, cancelled). before \<in> ps \<and> (case r of Inl _ \<Rightarrow> True | Inr after \<Rightarrow> pAddress after = pAddress before))"

lemma cycle_env_delivers: "cycle_env_ok y \<Longrightarrow> list_all (delivery_of (set ps)) (yDeliver y ps)"
  by (simp add: cycle_env_ok_def delivery_of_def)

lemma engine_inv_fields [simp]:
  "engine_inv allowed (e\<lparr>eForceEvaluateNext := f\<rparr>) = engine_inv allowed e"
  "engine_inv allowed (e\<lparr>eCyclesSinceFull := n\<rparr>) = engine_inv allowed e"
  by (simp_all add: engine_inv_def)

lemma engine_inv_put:
  assumes "engine_inv allowed e" "pAddress pool \<in> dom (eCache e)"
  shows "engine_inv allowed (e\<lparr>eCache := Put pool (eCache e)\<rparr>) \<and> dom (eCache e) \<subseteq> dom (Put pool (eCache e))"
proof -
  have "eCache e (pAddress pool) \<noteq> None" using assms(2) by blast
  from engine_inv_step [OF assms(1) engine_step.refresh [OF this, of undefined undefined]] show ?thesis
    by (auto simp: Put_def split: option.splits)
qed

text \<open>One delivery of either refresh: at most a \<open>Put\<close> of a cached pool, dirtying only pools that were asked for.\<close>

lemma known_result_inv:
  assumes "delivery_of ps del" "engine_inv allowed (e\<lparr>eCache := cache\<rparr>)" "pAddress ` ps \<subseteq> dom cache"
    and "known_result del (dirty, stats, cache) = (dirty', stats', cache')"
  shows "engine_inv allowed (e\<lparr>eCache := cache'\<rparr>) \<and> pAddress ` ps \<subseteq> dom cache' \<and> dirty' \<subseteq> dirty \<union> pool_key ` ps"
proof -
  obtain before r cancelled where del: "del = (before, r, cancelled)" by (cases del)
  show ?thesis
  proof (cases r)
    case (Inl err)
    then show ?thesis using assms del by (auto simp: known_result_def Let_def)
  next
    case (Inr after)
    define after1 where "after1 = (if poolChanged before after then after else after\<lparr>pLastUpdatedBlock := pLastUpdatedBlock before\<rparr>)"
    have addr: "before \<in> ps" "pAddress after = pAddress before" "pAddress after1 = pAddress before"
      using assms(1) del Inr by (simp_all add: delivery_of_def after1_def)
    have "snd (snd (known_result (before, Inr after, cancelled) (dirty, stats, cache))) = Put after1 cache"
      by (simp add: known_result_def Let_def after1_def)
    moreover have "fst (known_result (before, Inr after, cancelled) (dirty, stats, cache)) \<subseteq> insert (pool_key before) dirty"
      using addr(2) by (auto simp: known_result_def Let_def)
    ultimately have res: "cache' = Put after1 cache" "dirty' \<subseteq> insert (pool_key before) dirty"
      using assms(4) unfolding del Inr by simp_all
    have "pAddress after1 \<in> dom (eCache (e\<lparr>eCache := cache\<rparr>))" using assms(3) addr by auto
    from engine_inv_put [OF assms(2) this]
    have "engine_inv allowed (e\<lparr>eCache := cache'\<rparr>)" "dom cache \<subseteq> dom cache'" using res(1) by simp_all
    then show ?thesis using res(2) addr(1) assms(3) by blast
  qed
qed

lemma known_results_inv:
  assumes "list_all (delivery_of ps) dels" "engine_inv allowed (e\<lparr>eCache := cache\<rparr>)" "pAddress ` ps \<subseteq> dom cache"
    and "fold known_result dels (dirty, stats, cache) = (dirty', stats', cache')"
  shows "engine_inv allowed (e\<lparr>eCache := cache'\<rparr>) \<and> dirty' \<subseteq> dirty \<union> pool_key ` ps"
  using assms
proof (induction dels arbitrary: dirty stats cache)
  case (Cons del dels)
  obtain dirty1 stats1 cache1 where one: "known_result del (dirty, stats, cache) = (dirty1, stats1, cache1)" by (metis prod.exhaust)
  have del: "delivery_of ps del" "list_all (delivery_of ps) dels" using Cons.prems(1) by simp_all
  note step = known_result_inv [OF del(1) Cons.prems(2,3) one]
  have "fold known_result dels (dirty1, stats1, cache1) = (dirty', stats', cache')" using Cons.prems(4) one by simp
  from Cons.IH [OF del(2) conjunct1 [OF step] conjunct1 [OF conjunct2 [OF step]] this] step show ?case by blast
qed simp

lemma refresh_results_inv:
  assumes "list_all (delivery_of ps) dels" "engine_inv allowed (e\<lparr>eCache := cache\<rparr>)" "pAddress ` ps \<subseteq> dom cache"
  shows "case refresh_results failed dels (dirty, stats, cache) of
      Inl (stats', cache') \<Rightarrow> engine_inv allowed (e\<lparr>eCache := cache'\<rparr>)
    | Inr (dirty', stats', cache') \<Rightarrow> engine_inv allowed (e\<lparr>eCache := cache'\<rparr>)"
  using assms
proof (induction dels arbitrary: dirty stats cache)
  case (Cons del dels)
  obtain before r cancelled where del: "del = (before, r, cancelled)" by (cases del)
  show ?case
  proof (cases r)
    case (Inl err)
    then show ?thesis using Cons del by (simp add: Let_def)
  next
    case (Inr after)
    define after1 where "after1 = (if poolChanged before after then after else after\<lparr>pLastUpdatedBlock := pLastUpdatedBlock before\<rparr>)"
    have addr: "before \<in> ps" "pAddress after1 = pAddress before"
      using Cons.prems(1) del Inr by (simp_all add: delivery_of_def after1_def)
    have "pAddress after1 \<in> dom (eCache (e\<lparr>eCache := cache\<rparr>))" using Cons.prems(3) addr by auto
    note put = engine_inv_put [OF Cons.prems(2) this]
    have inv: "engine_inv allowed (e\<lparr>eCache := Put after1 cache\<rparr>)" and sub: "pAddress ` ps \<subseteq> dom (Put after1 cache)"
      using put Cons.prems(3) by auto
    have "list_all (delivery_of ps) dels" using Cons.prems(1) by simp
    from Cons.IH [OF this inv sub] show ?thesis using Inr unfolding del by (simp add: Let_def after1_def)
  qed
qed simp

lemma snapshot_keys:
  assumes "cycle_env_ok y" "engine_inv allowed e"
  shows "pAddress ` set (ySnapshot y (eCache e)) \<subseteq> dom (eCache e)"
proof -
  have key: "\<forall>a p. eCache e a = Some p \<longrightarrow> pAddress p = a" using assms(2) unfolding engine_inv_def by blast
  have "pAddress p \<in> dom (eCache e)" if p: "p \<in> ran (eCache e)" for p
  proof -
    obtain a where "eCache e a = Some p" using p by (auto simp: ran_def)
    with key show ?thesis by blast
  qed
  moreover have "set (ySnapshot y (eCache e)) \<subseteq> ran (eCache e)" using assms(1) by (simp add: cycle_env_ok_def)
  ultimately show ?thesis by blast
qed

lemma refreshKnownDirty_inv:
  assumes "cycle_env_ok y" "engine_inv allowed e" "current = ySnapshot y (eCache e)"
    and "refreshKnownDirty current dirty (yDeliver y (poolsByAddress current dirty)) (eCache e) = (dirty', stats, cache')"
  shows "engine_inv allowed (e\<lparr>eCache := cache'\<rparr>) \<and> dirty' \<subseteq> dirty"
proof (cases "current = [] \<or> dirty = {} \<or> poolsByAddress current dirty = []")
  case True
  then show ?thesis using assms by (auto simp: refreshKnownDirty_def)
next
  case False
  let ?ps = "set (poolsByAddress current dirty)"
  have asked: "pool_key ` ?ps \<subseteq> dirty" "?ps \<subseteq> set current" by (auto simp: poolsByAddress_def)
  have keys: "pAddress ` ?ps \<subseteq> dom (eCache e)" using snapshot_keys [OF assms(1,2)] asked(2) assms(3) by blast
  have "fold known_result (yDeliver y (poolsByAddress current dirty)) (dirty, no_refresh, eCache e) = (dirty', stats, cache')"
    using assms(4) False by (simp add: refreshKnownDirty_def)
  note run = this
  have "engine_inv allowed (e\<lparr>eCache := eCache e\<rparr>)" using assms(2) by simp
  from known_results_inv [OF cycle_env_delivers [OF assms(1)] this keys run] asked(1) show ?thesis by blast
qed

lemma incrementalRefresh_inv:
  assumes "cycle_env_ok y" "engine_inv allowed e"
    and "incrementalRefresh scan (ySnapshot y (eCache e)) fb b cancelled (yDeliver y) (eCache e) w = (res, w')"
  shows "case res of Inl (stats, cache') \<Rightarrow> engine_inv allowed (e\<lparr>eCache := cache'\<rparr>)
    | Inr (dirty, stats, cache') \<Rightarrow> engine_inv allowed (e\<lparr>eCache := cache'\<rparr>)"
proof -
  let ?current = "ySnapshot y (eCache e)"
  obtain dirty logStats logErr w1 where s: "scan (map pAddress ?current) fb b w = ((dirty, logStats, logErr), w1)" by (metis prod.exhaust)
  define ok where "ok = (\<lambda>res :: (RefreshStats \<times> pool_cache) + (string set \<times> RefreshStats \<times> pool_cache). case res of
      Inl (stats, cache') \<Rightarrow> engine_inv allowed (e\<lparr>eCache := cache'\<rparr>)
    | Inr (dirty, stats, cache') \<Rightarrow> engine_inv allowed (e\<lparr>eCache := cache'\<rparr>))"
  have deliver: "ok (refresh_results failed (yDeliver y ps) (d, stats, eCache e))" if "set ps \<subseteq> set ?current" for failed ps d stats
    unfolding ok_def
  proof (rule refresh_results_inv [OF cycle_env_delivers [OF assms(1), of ps]])
    show "pAddress ` set ps \<subseteq> dom (eCache e)" using snapshot_keys [OF assms(1,2)] that by blast
  qed (use assms(2) in simp)
  have base: "ok (Inl (stats, eCache e))" "ok (Inr (d, stats, eCache e))" for stats d using assms(2) by (simp_all add: ok_def)
  have sub: "set (poolsByAddress ?current dirty) \<subseteq> set ?current" by (auto simp: poolsByAddress_def)
  have "ok res" using assms(3) s base deliver [of ?current] deliver [OF sub] by (auto simp: incrementalRefresh_def Let_def split: if_splits)
  then show ?thesis by (simp add: ok_def)
qed

lemma set_world_sel [simp]:
  "cEngine (set_world w c) = cEngine c" "cSync (set_world w c) = cSync c" "zEvaluated (cEval (set_world w c)) = zEvaluated (cEval c)"
  by (simp_all add: set_world_def)

lemma refresh_stage_inv:
  assumes "cycle_env_ok y" "engine_inv allowed (cEngine c)" "refresh_stage y b report c = (res, report', c')"
  shows "engine_inv allowed (cEngine c') \<and> zEvaluated (cEval c') = zEvaluated (cEval c)
    \<and> eRouteCache (cEngine c') = eRouteCache (cEngine c)
    \<and> (syncRunning (cSync c) \<longrightarrow> (\<forall>dirty stats. res = Some (dirty, stats) \<longrightarrow> dirty \<subseteq> pendingDirty (cSync c)))"
proof (cases "syncRunning (cSync c)")
  case True
  let ?cur = "ySnapshot y (eCache (cEngine c))" and ?pend = "pendingDirtySnapshot (cSync c)"
  obtain dirty stats cache where r: "refreshKnownDirty ?cur ?pend (yDeliver y (poolsByAddress ?cur ?pend)) (eCache (cEngine c)) = (dirty, stats, cache)"
    by (metis prod.exhaust)
  from refreshKnownDirty_inv [OF assms(1,2) refl r] show ?thesis
    using assms(3) True r by (auto simp: refresh_stage_def refresh_synced_def Let_def pendingDirtySnapshot_def split: if_splits)
next
  case False
  define fb where "fb = (if lastStateBlock (cSync c) > 0 \<and> lastStateBlock (cSync c) < b then lastStateBlock (cSync c) + 1 else b)"
  obtain r w where i: "incrementalRefresh (ChangedPoolAddressesAtWithStats (xKeccak (yEval y)) (yDiscoverer y))
      (ySnapshot y (eCache (cEngine c))) fb b (yDone y 0) (yDeliver y) (eCache (cEngine c)) (cWorld c) = (r, w)"
    by (metis prod.exhaust)
  from incrementalRefresh_inv [OF assms(1,2) i] show ?thesis
    using assms(3) False i
    by (auto simp: refresh_stage_def refresh_direct_def Let_def fb_def [symmetric] split: sum.splits prod.splits)
qed

lemma found_routes_current:
  assumes "cycle_env_ok y" "r \<in> set (found_routes F (eRouteCache (cEngine c)) (active_pools y c) signals weight)"
  shows "(\<forall>p\<in>set (rHops r). p \<in> ran (eCache (cEngine c)) \<and> big_pos (pLiquidity p)) \<and> (\<exists>r0\<in>set (eRouteCache (cEngine c)). refreshes r r0)"
proof -
  have "set (active_pools y c) \<subseteq> {p \<in> ran (eCache (cEngine c)). big_pos (pLiquidity p)}"
    using assms(1) by (auto simp: active_pools_def liquidPools_def cycle_env_ok_def)
  then show ?thesis using refreshRoutes_current [of r] assms(2) by (auto simp: found_routes_def)
qed

lemma affected_routes_iff:
  "r \<in> set (affected_routes rs dirty forced unresolved) \<longleftrightarrow> r \<in> set rs \<and> (forced \<or> touches dirty r) \<and> \<not> touches unresolved r"
proof -
  have "\<not> touches {} r" by (simp add: touches_def list_ex_iff)
  then show ?thesis by (auto simp: affected_routes_def routesAffectedBy_def routesWithoutPools_def)
qed

text \<open>A route that a cycle may evaluate: a cached route over current liquid pools, touched by a change (unless every route
  is due), none of whose pools is known to be stale.\<close>

definition evaluable :: "EngineState \<Rightarrow> string set \<Rightarrow> bool \<Rightarrow> string set \<Rightarrow> Route \<Rightarrow> bool" where
  "evaluable e dirty forced unresolved r \<longleftrightarrow>
     (\<forall>p\<in>set (rHops r). p \<in> ran (eCache e) \<and> big_pos (pLiquidity p)) \<and> (\<exists>r0\<in>set (eRouteCache e). refreshes r r0)
     \<and> (forced \<or> touches dirty r) \<and> \<not> touches unresolved r"

lemma fair_search_env [simp]: "fair_env (search_env signals weight e x) = fair_env x"
  by (simp add: fair_env_def search_env_def)

lemma search_stage_evaluates:
  assumes "cycle_env_ok y" "0 \<le> ExploreRatioBPS options"
    and "search_stage y b weight options forced dirty stats report c = (rs, affected, report', c')"
  shows "(\<forall>r\<in>evaluated_routes (cEval c'). evaluable (cEngine c) dirty forced (rsUnresolvedDirty stats) r) \<and> cEngine c' = cEngine c
    \<and> cyRefresh report' = cyRefresh report \<and> cyReconcile report' = cyReconcile report"
proof -
  obtain signals tracker' where v: "Volatility.Observe (active_pools y c) (cTracker c) = (signals, tracker')" by (metis prod.exhaust)
  define found where "found = found_routes (xFloat (yEval y)) (eRouteCache (cEngine c)) (active_pools y c) signals weight"
  have aff: "affected = affected_routes found dirty forced (rsUnresolvedDirty stats)" and e: "cEngine c' = cEngine c"
    and rep: "cyRefresh report' = cyRefresh report" "cyReconcile report' = cyReconcile report"
    using assms(3) v by (auto simp: search_stage_def Let_def found_def)
  have "\<exists>z. cEval c' = evaluate (search_env signals weight (cEngine c) (yEval y)) options (eMarket (cEngine c)) (map_of (eAmounts (cEngine c))) b affected z"
    using assms(3) v by (auto simp: search_stage_def Let_def)
  then obtain z where z: "cEval c' = evaluate (search_env signals weight (cEngine c) (yEval y)) options (eMarket (cEngine c))
      (map_of (eAmounts (cEngine c))) b affected z" ..
  have fair: "fair_env (search_env signals weight (cEngine c) (yEval y))" using assms(1) by (simp add: cycle_env_ok_def)
  have sub: "evaluated_routes (cEval c') \<subseteq> set affected" unfolding z by (rule evaluate_from [OF fair assms(2)])
  have "evaluable (cEngine c) dirty forced (rsUnresolvedDirty stats) r" if "r \<in> set affected" for r
    using that found_routes_current [OF assms(1), of r "xFloat (yEval y)" c signals weight]
    unfolding aff affected_routes_iff found_def evaluable_def by blast
  then show ?thesis using sub e rep by blast
qed

lemma advance_frame:
  assumes "advanceReconciliationBatchWithin kk d expired b n snapshot e report w = ((report', e'), w')"
  shows "rrFullReconcile report' \<or> eCache e' = eCache e"
proof (cases "eReconciliation e")
  case None
  then show ?thesis using assms by (auto simp: advanceReconciliationBatchWithin_def)
next
  case (Some st)
  obtain p err st1 w1 where "run_jobs kk d expired (eMarket e) b (if n < 1 then 1 else n) (drop (rcNext st) (rcJobs st)) 0 False st w
      = ((p, err, st1), w1)" by (metis prod.exhaust)
  then show ?thesis
    using assms Some by (auto simp: advanceReconciliationBatchWithin_def Let_def commit_reconciliation_def split: if_splits)
qed

lemma background_batch_inv:
  assumes "engine_inv allowed (cEngine c)" "background_batch y b n c = (rr, c')"
  shows "engine_inv allowed (cEngine c') \<and> zEvaluated (cEval c') = zEvaluated (cEval c)
    \<and> (rrFullReconcile rr \<or> eCache (cEngine c') = eCache (cEngine c))"
proof -
  let ?n = "if n > 1 then 1 else n"
  obtain rr1 e w where a: "advanceReconciliationBatchWithin (xKeccak (yEval y)) (yDiscoverer y) (yExpired y) b ?n
      (ySnapshot y (eCache (cEngine c))) (cEngine c) no_reconcile (cWorld c) = ((rr1, e), w)" by (metis prod.exhaust)
  then have "rr = rr1" "cEngine c' = e" "zEvaluated (cEval c') = zEvaluated (cEval c)"
    using assms(2) by (auto simp: background_batch_def advanceBackgroundReconciliationBatch_def)
  then show ?thesis using engine_inv_batch [OF assms(1) a] advance_frame [OF a] by simp
qed

lemma advance_batch_inv:
  assumes "engine_inv allowed (cEngine c)" "advance_batch y b n c = (rr, c')"
  shows "engine_inv allowed (cEngine c') \<and> zEvaluated (cEval c') = zEvaluated (cEval c)"
proof -
  obtain rr1 e w where a: "advanceReconciliationBatchWithin (xKeccak (yEval y)) (yDiscoverer y) (yExpired y) b n
      (ySnapshot y (eCache (cEngine c))) (cEngine c) no_reconcile (cWorld c) = ((rr1, e), w)" by (metis prod.exhaust)
  then have "cEngine c' = e" "zEvaluated (cEval c') = zEvaluated (cEval c)"
    using assms(2) by (auto simp: advance_batch_def advanceReconciliationBatch_def)
  then show ?thesis using engine_inv_batch [OF assms(1) a] by simp
qed

text \<open>The outcome of a decision from the state after the refresh.\<close>

lemma decide_stage_spec:
  assumes "cycle_env_ok y" "engine_inv allowed (cEngine c)" "0 \<le> ExploreRatioBPS options"
    and "decide_stage y b weight options forced dirty stats report c = ((report', ok), c')"
  shows "engine_inv allowed (cEngine c') \<and> cyRefresh report' = cyRefresh report
    \<and> (\<forall>r\<in>evaluated_routes (cEval c'). evaluable (cEngine c) dirty forced (rsUnresolvedDirty stats) r)
    \<and> (rrFullReconcile (cyReconcile report') \<or> eCache (cEngine c') = eCache (cEngine c))"
proof -
  obtain rs affected report1 c1 where s: "search_stage y b weight options forced dirty stats report c = (rs, affected, report1, c1)"
    by (metis prod.exhaust)
  note search = search_stage_evaluates [OF assms(1,3) s]
  show ?thesis
  proof (cases "yDone y 2 (cWorld c1)")
    case True
    then show ?thesis using assms(2,4) s search by (auto simp: decide_stage_def)
  next
    case False
    define c2 where "c2 = c1\<lparr>cNearMisses := mergeNearMisses (cNearMisses c1) (vrNearMisses (zReport (cEval c1))) 100\<rparr>"
    define report2 where "report2 = report_search options affected c2 report1"
    obtain rr c3 where bg: "(if dirty = {} then background_batch y b (ReconcileBatchPairs options) c2 else (cyReconcile report2, c2)) = (rr, c3)"
      by (metis prod.exhaust)
    have c2: "cEngine c2 = cEngine c" "zEvaluated (cEval c2) = zEvaluated (cEval c1)" using search by (simp_all add: c2_def)
    have c3: "engine_inv allowed (cEngine c3) \<and> zEvaluated (cEval c3) = zEvaluated (cEval c1)
        \<and> (rrFullReconcile rr \<or> eCache (cEngine c3) = eCache (cEngine c))"
      using background_batch_inv [of allowed c2 y b "ReconcileBatchPairs options" rr c3] bg c2 assms(2) by (auto split: if_splits)
    have "decide_stage y b weight options forced dirty stats report c =
        ((report_routes rs (cEngine c3) (report2\<lparr>cyReconcile := rr\<rparr>), True),
         c3\<lparr>cSync := commit_block b (rsMarketStateIncomplete stats) (yScanner y 1 (cSync c3))\<rparr>)"
      unfolding decide_stage_def s prod.case using False by (simp only: if_False Let_def c2_def [symmetric] report2_def [symmetric] bg prod.case)
    then have "cEngine c' = cEngine c3" "cEval c' = cEval c3" "cyRefresh report' = cyRefresh report2" "cyReconcile report' = rr"
      using assms(4) by (auto simp: report_routes_def)
    moreover have "cyRefresh report2 = cyRefresh report1" by (simp add: report2_def report_search_def Let_def)
    ultimately show ?thesis using c3 search by auto
  qed
qed

lemma incremental_cycle_spec:
  assumes "cycle_env_ok y" "engine_inv allowed (cEngine c)" "0 \<le> ExploreRatioBPS options"
    and "incremental_cycle y b weight options report c = ((report', ok), c')"
  shows "engine_inv allowed (cEngine c') \<and>
    (zEvaluated (cEval c') = zEvaluated (cEval c) \<or>
     (\<exists>e dirty. engine_inv allowed e \<and> (syncRunning (cSync c) \<longrightarrow> dirty \<subseteq> pendingDirty (cSync c))
        \<and> (rrFullReconcile (cyReconcile report') \<or> eCache (cEngine c') = eCache e)
        \<and> (\<forall>r\<in>evaluated_routes (cEval c'). evaluable e dirty (eForceEvaluateNext (cEngine c)) (rsUnresolvedDirty (cyRefresh report')) r)))"
proof -
  define c0 where "c0 = c\<lparr>cEngine := (cEngine c)\<lparr>eForceEvaluateNext := False\<rparr>\<rparr>"
  obtain res report1 c1 where r: "refresh_stage y b report c0 = (res, report1, c1)" by (metis prod.exhaust)
  have inv0: "engine_inv allowed (cEngine c0)" using assms(2) by (simp add: c0_def)
  note refreshed = refresh_stage_inv [OF assms(1) inv0 r]
  show ?thesis
  proof (cases res)
    case None
    then have "c' = c1" using assms(4) r by (auto simp: incremental_cycle_def Let_def c0_def)
    then show ?thesis using refreshed by (simp add: c0_def)
  next
    case (Some ds)
    obtain dirty stats where ds: "ds = (dirty, stats)" by (cases ds)
    define c2 where "c2 = (if shouldAdvanceFullReconcileCounter dirty
       then c1\<lparr>cEngine := (cEngine c1)\<lparr>eCyclesSinceFull := eCyclesSinceFull (cEngine c1) + 1\<rparr>\<rparr> else c1)"
    define report2 where "report2 = report1\<lparr>cyRefresh := stats, cyUnresolvedDirtyPools := card (rsUnresolvedDirty stats)\<rparr>"
    have d: "decide_stage y b weight options (eForceEvaluateNext (cEngine c)) dirty stats report2 c2 = ((report', ok), c')"
      using assms(4) r Some ds by (simp add: incremental_cycle_def Let_def c0_def [symmetric] c2_def report2_def)
    have inv2: "engine_inv allowed (cEngine c2)" using refreshed by (simp add: c2_def)
    note dec = decide_stage_spec [OF assms(1) inv2 assms(3) d]
    have rep: "cyRefresh report2 = stats" by (simp add: report2_def)
    have "syncRunning (cSync c) \<longrightarrow> dirty \<subseteq> pendingDirty (cSync c)" using refreshed Some ds by (simp add: c0_def)
    then show ?thesis using dec inv2 unfolding rep by (metis rep)
  qed
qed

lemma applyPendingMarket_frame:
  assumes "applyPendingMarket e = (changed, e')"
  shows "eForceEvaluateNext e' = eForceEvaluateNext e \<and> (engine_inv allowed e \<longrightarrow> engine_inv allowed e')"
proof -
  have "e' = snd (applyPendingMarket e)" using assms by simp
  then have "engine_inv allowed e \<longrightarrow> engine_inv allowed e'"
    using engine_inv_step engine_step.apply_market [of undefined undefined e] by metis
  moreover have "eForceEvaluateNext e' = eForceEvaluateNext e"
    using assms by (auto simp: applyPendingMarket_def Let_def split: option.splits if_splits)
  ultimately show ?thesis by blast
qed

lemma plan_reconciliation_frame:
  "eForceEvaluateNext (plan_reconciliation fees mh mr options changed e) = eForceEvaluateNext e"
  "engine_inv allowed e \<Longrightarrow> engine_inv allowed (plan_reconciliation fees mh mr options changed e)"
  using engine_inv_step [OF _ engine_step.start [of undefined undefined e fees mh mr]]
  by (auto simp: plan_reconciliation_def startReconciliation_def)

lemma cycle_spec:
  assumes "cycle_env_ok y" "engine_inv allowed (cEngine c)"
    and "CycleAtWithSearchOptions y b mh mr weight options c = ((report, ok), c')"
  shows "engine_inv allowed (cEngine c') \<and>
    (zEvaluated (cEval c') = zEvaluated (cEval c) \<or>
     (\<exists>e dirty. engine_inv allowed e \<and> (syncRunning (cSync c) \<longrightarrow> dirty \<subseteq> pendingDirty (cSync c))
        \<and> (rrFullReconcile (cyReconcile report) \<or> eCache (cEngine c') = eCache e)
        \<and> (\<forall>r\<in>evaluated_routes (cEval c'). evaluable e dirty (eForceEvaluateNext (cEngine c)) (rsUnresolvedDirty (cyRefresh report)) r)))"
proof -
  obtain changed e1 where a: "applyPendingMarket (cEngine c) = (changed, e1)" by (metis prod.exhaust)
  define e2 where "e2 = plan_reconciliation (dFees (yDiscoverer y)) (clamp_hops mh) mr (Normalized options) changed e1"
  define c2 where "c2 = c\<lparr>cEngine := e2\<rparr>"
  define report0 where "report0 = sync_telemetry b (c\<lparr>cEngine := e1\<rparr>) (start_report b e1)"
  have e1: "engine_inv allowed e1" "eForceEvaluateNext e1 = eForceEvaluateNext (cEngine c)"
    using applyPendingMarket_frame [OF a, of allowed] assms(2) by auto
  have c2: "engine_inv allowed (cEngine c2)" "eForceEvaluateNext (cEngine c2) = eForceEvaluateNext (cEngine c)"
    using plan_reconciliation_frame e1 by (simp_all add: c2_def e2_def)
  have cycle: "CycleAtWithSearchOptions y b mh mr weight options c =
      (if mr < 1 then ((report0, True), c\<lparr>cEngine := e1\<rparr>)
       else if eRouteCache e1 = [] then (case startup_cycle y b (Normalized options) report0 c2 of (report1, c3) \<Rightarrow> ((report1, True), c3))
       else if defer_refresh b (cSync c2) then (case deferred_cycle y report0 c2 of (report1, c3) \<Rightarrow> ((report1, True), c3))
       else incremental_cycle y b weight (Normalized options) report0 c2)"
    by (simp add: CycleAtWithSearchOptions_def a Let_def report0_def c2_def e2_def)
  have ratio: "0 \<le> ExploreRatioBPS (Normalized options)" using Normalized_bounds(11) [of options] by simp
  consider (none) "mr < 1" | (startup) "\<not> mr < 1" "eRouteCache e1 = []"
    | (deferred) "\<not> mr < 1" "eRouteCache e1 \<noteq> []" "defer_refresh b (cSync c2)"
    | (run) "\<not> mr < 1" "eRouteCache e1 \<noteq> []" "\<not> defer_refresh b (cSync c2)" by blast
  then show ?thesis
  proof cases
    case none
    then show ?thesis using assms(3) cycle e1 by auto
  next
    case startup
    obtain rr c3 where s: "advance_batch y b (ReconcileBatchPairs (Normalized options)) c2 = (rr, c3)" by (metis prod.exhaust)
    have "cEngine c' = cEngine c3" "cEval c' = cEval c3"
      using assms(3) cycle startup s by (auto simp: startup_cycle_def Let_def split: if_splits)
    then show ?thesis using advance_batch_inv [OF c2(1) s] by (simp add: c2_def)
  next
    case deferred
    then show ?thesis using assms(3) cycle c2 by (auto simp: deferred_cycle_def Let_def c2_def)
  next
    case run
    then have "incremental_cycle y b weight (Normalized options) report0 c2 = ((report, ok), c')" using assms(3) cycle by simp
    from incremental_cycle_spec [OF assms(1) c2(1) ratio this] show ?thesis unfolding c2(2) by (simp add: c2_def)
  qed
qed

text \<open>The engine over time: cycles with any inputs, configurations staged by the universe service, and the scanner's updates of
  the shared fields.\<close>

inductive cycle_step :: "('f, 'w) CycleState \<Rightarrow> ('f, 'w) CycleState \<Rightarrow> bool" where
  cycle: "cycle_env_ok y \<Longrightarrow> CycleAtWithSearchOptions y b mh mr weight options c = (out, c') \<Longrightarrow> cycle_step c c'"
| queue: "cycle_step c (c\<lparr>cEngine := QueueLiveMarket market pairKeys dynamicSymbols (cEngine c)\<rparr>)"
| routing: "cycle_step c (c\<lparr>cEngine := SetPairRouting share (cEngine c)\<rparr>)"
| scan: "cycle_step c (c\<lparr>cSync := st\<rparr>)"

definition cycle_init :: "string list \<Rightarrow> ('f, 'w) CycleState \<Rightarrow> bool" where
  "cycle_init allowed c \<longleftrightarrow> engine_init allowed (cEngine c)"

interpretation market_cycles: step_system "cycle_init allowed" cycle_step "\<lambda>c. engine_inv allowed (cEngine c)"
proof unfold_locales
  show "engine_inv allowed (cEngine c)" if "cycle_init allowed c" for c :: "('f, 'w) CycleState"
    using that universe.inv_init by (simp add: cycle_init_def)
  show "engine_inv allowed (cEngine c')" if "engine_inv allowed (cEngine c)" "cycle_step c c'" for c c' :: "('f, 'w) CycleState"
    using that(2)
  proof cases
    case (cycle y b mh mr weight options out)
    then show ?thesis using cycle_spec [OF cycle(1) that(1)] by (metis prod.exhaust)
  next
    case (queue market pairKeys dynamicSymbols)
    then show ?thesis using engine_inv_step [OF that(1) engine_step.queue] by simp
  qed (use that(1) in \<open>simp_all add: engine_inv_def SetPairRouting_def\<close>)
qed

text \<open>
  C10: the two caches stay consistent through whole cycles. However cycles end (nothing to do, a startup or background
  reconciliation batch, a deferred head, a failed or cancelled refresh, a cancelled evaluation, a full decision), however
  configurations are staged between them and whatever the background scanner does meanwhile, every cached route is a cycle of
  two to four hops over distinct assets whose pools are all in the pool cache, and the execution allow-list never changes.
\<close>

theorem cycles_keep_caches:
  assumes "cycle_init allowed c0" "cycle_step\<^sup>*\<^sup>* c0 c"
  shows "list_all (route_cached (eCache (cEngine c))) (eRouteCache (cEngine c)) \<and> mExecutionAssetNames (eMarket (cEngine c)) = allowed"
  using market_cycles.inv_reachable [OF assms] unfolding engine_inv_def by blast


definition demo_cycle_env :: "(rat, unit) CycleEnv" where
  "demo_cycle_env = \<lparr>yEval = demo_eval_env, yDiscoverer = demo_discoverer, ySnapshot = (\<lambda>cache. List.map_filter cache [''0xa'', ''0xb'']),
     yDeliver = map (\<lambda>p. (p, Inr (p\<lparr>pLiquidity := Some 99, pLastUpdatedBlock := 12\<rparr>), False)), yScanner = (\<lambda>_ st. st),
     yDone = (\<lambda>_ _. False), yExpired = (\<lambda>_. False)\<rparr>"

definition demo_cycle_state :: "(rat, unit) CycleState" where
  "demo_cycle_state = \<lparr>cEngine = (NewWithAmounts demo_market True NewPoolCache [(''A'', Some 10000)])
        \<lparr>eRouteCache := [ab_route], eCache := [''0xa'' \<mapsto> ab_pool ''0xa'', ''0xb'' \<mapsto> ab_pool ''0xb''], eLastMaxHops := 4, eLastMaxRoutes := 10\<rparr>,
     cSync = quiet_state\<lparr>pendingDirty := {''0xa''}\<rparr>, cTracker = Map.empty, cEval = demo_eval_state, cNearMisses = [],
     cActivePools = 0, cCycles = 0\<rparr>"

lemma demo_cycle_ok: "cycle_env_ok demo_cycle_env" "engine_inv [''A'', ''B''] (cEngine demo_cycle_state)"
proof -
  have "set (List.map_filter cache [''0xa'', ''0xb'']) \<subseteq> ran cache" for cache :: pool_cache
    unfolding in_set_map_filter subset_iff ran_def by blast
  then show "cycle_env_ok demo_cycle_env"
    by (simp add: cycle_env_ok_def demo_cycle_env_def demo_eval_env_def fair_env_def fair_schedule_def list_all_iff)
  have "route_cached [''0xa'' \<mapsto> ab_pool ''0xa'', ''0xb'' \<mapsto> ab_pool ''0xb''] ab_route"
    by (simp add: route_cached_def ab_route_def ran_def) (metis (no_types, lifting))
  then show "engine_inv [''A'', ''B''] (cEngine demo_cycle_state)"
    by (simp add: engine_inv_def demo_cycle_state_def NewWithAmounts_def demo_market_def ab_pool_def)
qed


theorem cycles_keep_caches_witness:
  "mExecutionAssetNames (eMarket (cEngine (demo_cycle_state\<lparr>cEngine := QueueLiveMarket pair_market [] [''C'']
     (NewWithAmounts demo_market True NewPoolCache [])\<rparr>))) = [''A'', ''B'']"
proof -
  let ?c0 = "demo_cycle_state\<lparr>cEngine := NewWithAmounts demo_market True NewPoolCache []\<rparr>"
  have "cycle_init [''A'', ''B''] ?c0"
    unfolding cycle_init_def engine_init_def
    by (intro exI [of _ demo_market] exI [of _ True] exI [of _ "[]"]) (simp add: demo_market_def)
  moreover have "cycle_step\<^sup>*\<^sup>* ?c0 (?c0\<lparr>cEngine := QueueLiveMarket pair_market [] [''C''] (cEngine ?c0)\<rparr>)"
    by (rule r_into_rtranclp) (rule cycle_step.queue)
  ultimately show ?thesis using cycles_keep_caches by fastforce
qed

text \<open>
  The resolved pools are acknowledged before the evaluation. A cycle that is cancelled while evaluating keeps the
  acknowledgement and the cleared \<open>forceEvaluateNext\<close>: the routes it did not reach are not due any more in the next cycle.
\<close>

lemma cancelled_evaluation_forgets:
  assumes "\<forall>w. yDone y 2 w"
  shows "\<exists>report' c'. decide_stage y b weight options forced dirty stats report c = ((report', False), c') \<and> cSync c' = cSync c \<and> cEngine c' = cEngine c"
proof -
  obtain rs affected report1 c1 where s: "search_stage y b weight options forced dirty stats report c = (rs, affected, report1, c1)"
    by (metis prod.exhaust)
  then have "cSync c1 = cSync c \<and> cEngine c1 = cEngine c" by (auto simp: search_stage_def Let_def split: prod.splits)
  then show ?thesis using s assms by (simp add: decide_stage_def)
qed

section \<open>The forced route is one of the discovered combinations\<close>

lemma take_append_take: "take n (take n xs @ ys) = take n (xs @ ys)"
  by (cases "length xs \<le> n") auto

lemma forced_walk_take:
  assumes "length out \<le> maximum"
  shows "forced_walk maximum symbols choices current out =
    take maximum (out @ map (\<lambda>hops. mk_route symbols (current @ hops)) (product_lists choices))"
  using assms
proof (induction choices arbitrary: current out)
  case Nil
  then show ?case by simp
next
  case (Cons choice choices)
  note rest = Cons.IH
  let ?step = "\<lambda>p out. if length out \<ge> maximum then out else forced_walk maximum symbols choices (current @ [p]) out"
  let ?routes = "\<lambda>ps. concat (map (\<lambda>p. map (\<lambda>hops. mk_route symbols (current @ p # hops)) (product_lists choices)) ps)"
  have "fold ?step ps out = take maximum (out @ ?routes ps)" if "length out \<le> maximum" for ps out
    using that
  proof (induction ps arbitrary: out)
    case (Cons p ps)
    have one: "?step p out = take maximum (out @ map (\<lambda>hops. mk_route symbols (current @ p # hops)) (product_lists choices))"
      using Cons.prems rest [of out "current @ [p]"] by simp
    have "length (?step p out) \<le> maximum" unfolding one by simp
    from Cons.IH [OF this]
    have "fold ?step (p # ps) out = take maximum (?step p out @ ?routes ps)" by (simp only: fold.simps comp_apply)
    also have "\<dots> = take maximum (out @ ?routes (p # ps))" unfolding one take_append_take by simp
    finally show ?case .
  qed simp
  from this [OF Cons.prems, of choice] show ?case
    using Cons.prems by (auto simp: map_concat o_def)
qed

lemma forcedRouteCombinations_exact:
  "forcedRouteCombinations symbols choices maximum = take maximum (map (mk_route symbols) (product_lists choices))"
  using forced_walk_take [of "[]" maximum symbols choices "[]"] by (simp add: forcedRouteCombinations_def)

lemma forced_choices_shape:
  assumes "forced_choices kk d market b symbols w = (Inr choices, w')"
  shows "length choices = length symbols - 1 \<and> list_all (list_all (\<lambda>p. big_pos (pLiquidity p))) choices"
  using assms
proof (induction kk d market b symbols w arbitrary: choices w' rule: forced_choices.induct)
  case (1 kk d market b x y rest w)
  obtain ta tb where t: "token market x = Some ta" "token market y = Some tb"
    using "1.prems" by (auto split: option.splits)
  obtain found w1 where f: "(if b > 0 then DiscoverPairAt kk d (tAddress ta) (tAddress tb) b else DiscoverPair kk d (tAddress ta) (tAddress tb)) w
      = (Inr found, w1)" "liquidPools found \<noteq> []"
    using "1.prems" t by (auto split: sum.splits prod.splits if_splits)
  obtain cs w2 where c: "forced_choices kk d market b (y # rest) w1 = (Inr cs, w2)" "choices = liquidPools found # cs"
    using "1.prems" t f by (auto split: sum.splits prod.splits)
  from "1.IH" [OF refl t f(1) [symmetric] refl f(2) c(1)] c(2) show ?case
    by (simp add: liquidPools_def list_all_iff)
qed auto

lemma EvaluateSilent_route:
  "EvaluateSilent kk v route amount s = (Inr op, s') \<Longrightarrow> oRoute op = route \<and> oAmountIn op = amount"
  by (auto simp: EvaluateSilent_def Let_def elim!: bindE_InrE split: if_splits option.splits prod.splits)

definition forced_from :: "u64 \<Rightarrow> int \<Rightarrow> Route list \<Rightarrow> Opportunity \<Rightarrow> bool" where
  "forced_from b amount rs op \<longleftrightarrow> oRoute op \<in> set rs \<and> oAmountIn op = amount
     \<and> oSourceBlock op = (if forcedRouteSourceBlock (oRoute op) = 0 then b else forcedRouteSourceBlock (oRoute op))"

lemma forced_fold:
  assumes "fold (forced_step kk v b amount) rs (best, s) = (best', s')" "set rs \<subseteq> set all"
    and "\<And>op. best = Some op \<Longrightarrow> forced_from b amount all op" "best' = Some op"
  shows "forced_from b amount all op"
  using assms
proof (induction rs arbitrary: best s)
  case (Cons r rs)
  obtain best1 s1 where one: "forced_step kk v b amount r (best, s) = (best1, s1)" by (metis prod.exhaust)
  obtain res s2 where ev: "EvaluateSilent kk v r amount s = (res, s2)" by (metis prod.exhaust)
  have new: "forced_from b amount all (forced_source b op1)" if "res = Inr op1" for op1
    using EvaluateSilent_route [of kk v r amount s op1 s2] ev that Cons.prems(2)
    by (simp add: forced_from_def forced_source_def Let_def)
  have inv: "forced_from b amount all op1" if "best1 = Some op1" for op1
    using that one ev new Cons.prems(3) by (auto simp: forced_step_def split: sum.splits option.splits if_splits)
  have "fold (forced_step kk v b amount) rs (best1, s1) = (best', s')" "set rs \<subseteq> set all" using Cons.prems(1,2) one by simp_all
  from Cons.IH [OF this inv Cons.prems(4)] show ?case .
qed simp

lemma forced_found:
  assumes "ForcedOpportunity kk d v market b symbols amount (e, w) = (Inr op, s)"
  shows "length symbols \<in> {3..5} \<and> hd symbols = last symbols \<and> rSymbols (oRoute op) = symbols
    \<and> length (rHops (oRoute op)) = length symbols - 1 \<and> (\<forall>p\<in>set (rHops (oRoute op)). big_pos (pLiquidity p))
    \<and> amount = Some (oAmountIn op) \<and> 0 < oAmountIn op
    \<and> oSourceBlock op = (if forcedRouteSourceBlock (oRoute op) = 0 then b else forcedRouteSourceBlock (oRoute op))"
proof -
  obtain a where a: "amount = Some a" "0 < a" "length symbols \<in> {3..5}" "hd symbols = last symbols"
      "filter (\<lambda>symbol. token market symbol = None) symbols = []"
    using assms by (auto simp: ForcedOpportunity_def split: if_splits option.splits list.splits)
  obtain choices w1 where ch: "forced_choices kk d market b symbols w = (Inr choices, w1)"
    using assms a by (auto simp: ForcedOpportunity_def split: if_splits sum.splits prod.splits)
  let ?rs = "forcedRouteCombinations symbols choices 32"
  have "fold (forced_step kk v b a) ?rs (None, (e, w1)) = (Some op, s)"
    using assms a ch by (auto simp: ForcedOpportunity_def split: if_splits prod.splits option.splits)
  from forced_fold [OF this subset_refl] have op: "forced_from b a ?rs op" by simp
  then obtain hops where h: "oRoute op = mk_route symbols hops" "hops \<in> set (product_lists choices)"
    by (auto simp: forced_from_def forcedRouteCombinations_exact dest!: in_set_takeD)
  have "list_all2 (\<lambda>h xs. h \<in> set xs) hops choices" using h(2) by (simp add: product_lists_mem)
  then have "length hops = length choices \<and> (\<forall>h\<in>set hops. \<exists>xs\<in>set choices. h \<in> set xs)"
    by (induction rule: list_all2_induct) auto
  then have "length hops = length symbols - 1" "\<forall>p\<in>set hops. big_pos (pLiquidity p)"
    using forced_choices_shape [OF ch] by (auto simp: list_all_iff)
  then show ?thesis using a op h(1) by (simp add: forced_from_def)
qed

lemma keeps_events_stamp [simp]: "keeps_events (\<lambda>(e, w). (Inr (f w), (e, w)))"
  by (simp add: keeps_events_def split: prod.split)

lemma keeps_events_case: "(\<And>a b. keeps_events (f a b)) \<Longrightarrow> keeps_events (case p of (a, b) \<Rightarrow> f a b)"
  by (cases p) simp

lemma keeps_events_silent: "keeps_events (EvaluateSilent kk v route amount)"
  unfolding EvaluateSilent_def Let_def
  by (split if_split, split option.split, split if_split)
     (intro conjI impI allI keeps_events_basic keeps_events_bind keeps_events_silent_hops keeps_events_case
       keeps_events_premium keeps_events_stamp)

lemma forced_silent:
  assumes "ForcedOpportunity kk d v market b symbols amount (e, w) = (res, (e', w'))"
  shows "Events e' = Events e"
proof -
  have step: "Events (fst (snd (forced_step kk v b a r (best, s)))) = Events (fst s)" for a r best s
  proof -
    obtain res s1 where ev: "EvaluateSilent kk v r a s = (res, s1)" by (metis prod.exhaust)
    then have "snd (forced_step kk v b a r (best, s)) = s1" by (simp add: forced_step_def split: sum.split option.split)
    moreover have "Events (fst (snd (EvaluateSilent kk v r a s))) = Events (fst s)"
      using keeps_events_silent unfolding keeps_events_def by blast
    ultimately show ?thesis using ev by simp
  qed
  have run: "Events (fst (snd (fold (forced_step kk v b a) rs (best, s)))) = Events (fst s)" for a rs best s
  proof (induction rs arbitrary: best s)
    case (Cons r rs)
    obtain best1 s1 where "forced_step kk v b a r (best, s) = (best1, s1)" by (metis prod.exhaust)
    then show ?case using Cons.IH [of best1 s1] step [of a r best s] by simp
  qed simp
  have found: "Events e' = Events e" if "amount = Some a" "forced_choices kk d market b symbols w = (Inr choices, w1)"
    "(case fold (forced_step kk v b a) (forcedRouteCombinations symbols choices 32) (None, (e, w1)) of
        (None, s) \<Rightarrow> (Inl err, s) | (Some op, s) \<Rightarrow> (Inr op, s)) = (res, (e', w'))" for a choices w1 err
    using that(3) run [of a "forcedRouteCombinations symbols choices 32" None "(e, w1)"] by (simp split: prod.splits option.splits)
  show ?thesis
    using assms found
    by (simp add: ForcedOpportunity_def split: if_splits option.splits list.splits) (simp split: sum.splits prod.splits)
qed


end
