(* ===== verification/Economics.thy ===== *)
theory Economics
  imports Prelude "HOL-Library.AList"
begin

text \<open>
  \<open>go/internal/decision/economics.go\<close>: the settlement and valuation of a modelled trade, asset by asset. \<open>big.Rat\<close>
  is exact and so a \<open>rat\<close>. A Go map is an association list with distinct keys; the order in which Go ranges over it is
  the argument \<open>ord\<close>. Address parsing is go-ethereum's: the record \<open>AddressLib\<close> holds what is used of it. Times are
  nanoseconds, the zero time 0.
\<close>

section \<open>Data\<close>

record AddressLib =
  aIsHex :: "string \<Rightarrow> bool"
  aToAddress :: "string \<Rightarrow> 8 word list"

record Asset =
  asAddress :: string
  asDecimals :: "8 word"

record Balance =
  blAsset :: Asset
  blRaw :: bigint

record Liability =
  lbAsset :: Asset
  lbPrincipal :: bigint
  lbPremium :: bigint

record Price =
  prUSD :: "rat option"
  prAsOf :: int
  prMaxRaw :: bigint
  prIndependent :: bool
  prExecutable :: bool
  prReviewedToken :: bool
  prHaircutBPS :: u64

record ValuationState =
  vsNumeraire :: string
  vsPrices :: "string \<rightharpoonup> Price"
  vsExposureLimits :: "string \<Rightarrow> bigint"
  vsNow :: int
  vsMaxAge :: int

record PortfolioInput =
  piBorrowed :: "Balance list"
  piOwnedBefore :: "Balance list"
  piLiabilities :: "Liability list"
  piAfter :: "Balance list"
  piCosts :: "Balance list"
  piValuation :: ValuationState

text \<open>\<open>poNetUSD\<close> is the number whose decimal rendering the code stores, and None for \<open>UNKNOWN\<close>.\<close>

record PortfolioResult =
  poLiabilitiesSatisfied :: bool
  poValuationComplete :: bool
  poResidual :: "(string \<times> int) list"
  poNetUSD :: "rat option"
  poPositive :: bool
  poReason :: string
  poExecutionAuthority :: bool

type_synonym totals = "(string \<times> int) list"
type_synonym decimals = "(string \<times> 8 word) list"

section \<open>Balances\<close>

definition address :: "AddressLib \<Rightarrow> Asset \<Rightarrow> string result" where
  "address A a =
     (if \<not> aIsHex A (asAddress a) \<or> aToAddress A (asAddress a) = replicate 20 0 \<or> asDecimals a > 36
      then Inl ''invalid canonical asset'' else Inr (to_lower (asAddress a)))"

definition add_balance :: "AddressLib \<Rightarrow> Balance \<Rightarrow> totals \<times> decimals \<Rightarrow> (totals \<times> decimals) result" where
  "add_balance A b = (\<lambda>(m, meta).
     case (address A (blAsset b), blRaw b) of
       (Inr k, Some raw) \<Rightarrow>
         if raw < 0 then Inl ''invalid balance''
         else (case map_of meta k of
                 Some old \<Rightarrow> if old \<noteq> asDecimals (blAsset b) then Inl ''conflicting decimals''
                             else Inr (AList.update k ((case map_of m k of None \<Rightarrow> 0 | Some v \<Rightarrow> v) + raw) m,
                                       AList.update k (asDecimals (blAsset b)) meta)
               | None \<Rightarrow> Inr (AList.update k ((case map_of m k of None \<Rightarrow> 0 | Some v \<Rightarrow> v) + raw) m,
                              AList.update k (asDecimals (blAsset b)) meta))
     | _ \<Rightarrow> Inl ''invalid balance'')"

fun add_all :: "AddressLib \<Rightarrow> Balance list \<Rightarrow> totals \<times> decimals \<Rightarrow> (totals \<times> decimals) result" where
  "add_all A [] s = Inr s"
| "add_all A (b # bs) s = (case add_balance A b s of Inl err \<Rightarrow> Inl err | Inr s1 \<Rightarrow> add_all A bs s1)"

text \<open>The liabilities: principals and whole debts per asset.\<close>

fun add_debts :: "AddressLib \<Rightarrow> Liability list \<Rightarrow> totals \<Rightarrow> totals \<Rightarrow> decimals \<Rightarrow> (totals \<times> totals \<times> decimals) result" where
  "add_debts A [] principals debts meta = Inr (principals, debts, meta)"
| "add_debts A (l # ls) principals debts meta =
     (case (lbPrincipal l, lbPremium l) of
        (Some p, Some q) \<Rightarrow>
          if p \<le> 0 \<or> q < 0 then Inl ''invalid liability''
          else (case add_balance A \<lparr>blAsset = lbAsset l, blRaw = Some p\<rparr> (principals, meta) of
                  Inl err \<Rightarrow> Inl err
                | Inr (principals1, meta1) \<Rightarrow>
                    (case add_balance A \<lparr>blAsset = lbAsset l, blRaw = Some (p + q)\<rparr> (debts, meta1) of
                       Inl err \<Rightarrow> Inl err
                     | Inr (debts1, meta2) \<Rightarrow> add_debts A ls principals1 debts1 meta2))
      | _ \<Rightarrow> Inl ''invalid liability'')"

definition funding_matches :: "totals \<Rightarrow> totals \<Rightarrow> bool" where
  "funding_matches principals borrowed \<longleftrightarrow> length principals = length borrowed
     \<and> list_all (\<lambda>(k, p). map_of borrowed k = Some p) principals"

fun settle_debts :: "totals \<Rightarrow> totals \<Rightarrow> totals result" where
  "settle_debts [] after = Inr after"
| "settle_debts ((k, debt) # ds) after =
     (case map_of after k of
        Some v \<Rightarrow> if v < debt then Inl (''unpaid liability: '' @ k) else settle_debts ds (AList.update k (v - debt) after)
      | None \<Rightarrow> Inl (''unpaid liability: '' @ k))"

fun pay_costs :: "AddressLib \<Rightarrow> decimals \<Rightarrow> Balance list \<Rightarrow> totals \<Rightarrow> totals result" where
  "pay_costs A meta [] after = Inr after"
| "pay_costs A meta (cost # costs) after =
     (case (address A (blAsset cost), blRaw cost) of
        (Inr k, Some raw) \<Rightarrow>
          if raw < 0 then Inl ''invalid cost''
          else if (case map_of meta k of None \<Rightarrow> False | Some old \<Rightarrow> old \<noteq> asDecimals (blAsset cost)) then Inl ''conflicting cost decimals''
          else if raw = 0 then pay_costs A meta costs after
          else (case map_of after k of
                  Some v \<Rightarrow> if v < raw then Inl (''unfunded cost: '' @ k) else pay_costs A meta costs (AList.update k (v - raw) after)
                | None \<Rightarrow> Inl (''unfunded cost: '' @ k))
      | _ \<Rightarrow> Inl ''invalid cost'')"

section \<open>Valuation\<close>

fun within_limits :: "(string \<Rightarrow> bigint) \<Rightarrow> totals \<Rightarrow> string option" where
  "within_limits limits [] = None"
| "within_limits limits ((k, v) # rest) =
     (if v = 0 then within_limits limits rest
      else case limits k of
             Some cap \<Rightarrow> if cap < 0 \<or> v > cap then Some (''missing/exceeded residual exposure limit: '' @ k) else within_limits limits rest
           | None \<Rightarrow> Some (''missing/exceeded residual exposure limit: '' @ k))"

definition usable_price :: "ValuationState \<Rightarrow> Price \<Rightarrow> int \<Rightarrow> bool" where
  "usable_price V p raw \<longleftrightarrow> (case prUSD p of Some usd \<Rightarrow> 0 < usd | None \<Rightarrow> False)
     \<and> (case prMaxRaw p of Some m \<Rightarrow> raw \<le> m | None \<Rightarrow> False)
     \<and> prIndependent p \<and> prExecutable p \<and> prReviewedToken p
     \<and> 0 \<le> vsNow V - prAsOf p \<and> vsNow V - prAsOf p \<le> vsMaxAge V \<and> prHaircutBPS p \<le> 10000"

definition worth :: "Price \<Rightarrow> 8 word \<Rightarrow> int \<Rightarrow> rat" where
  "worth p dec raw = Rat.Fract raw (10 ^ unat dec) * the (prUSD p) * Rat.Fract (10000 - uint (prHaircutBPS p)) 10000"

fun valuation :: "ValuationState \<Rightarrow> decimals \<Rightarrow> totals \<Rightarrow> rat result" where
  "valuation V meta [] = Inr 0"
| "valuation V meta ((k, raw) # rest) =
     (if raw = 0 then valuation V meta rest
      else case vsPrices V k of
             Some p \<Rightarrow>
               if usable_price V p raw
               then (case valuation V meta rest of
                       Inl err \<Rightarrow> Inl err
                     | Inr others \<Rightarrow> Inr (worth p (case map_of meta k of Some d \<Rightarrow> d | None \<Rightarrow> 0) raw + others))
               else Inl (''missing/weak/stale liquidation valuation: '' @ k)
           | None \<Rightarrow> Inl (''missing/weak/stale liquidation valuation: '' @ k))"

definition no_portfolio :: PortfolioResult where
  "no_portfolio = \<lparr>poLiabilitiesSatisfied = False, poValuationComplete = False, poResidual = [], poNetUSD = None,
     poPositive = False, poReason = '''', poExecutionAuthority = False\<rparr>"

definition value_portfolio :: "(totals \<Rightarrow> totals) \<Rightarrow> ValuationState \<Rightarrow> decimals \<Rightarrow> totals \<Rightarrow> totals \<Rightarrow> PortfolioResult \<Rightarrow> PortfolioResult" where
  "value_portfolio ord V meta after owned r =
     (case within_limits (vsExposureLimits V) (ord after) of
        Some reason \<Rightarrow> r\<lparr>poReason := reason\<rparr>
      | None \<Rightarrow>
          if vsNumeraire V \<noteq> ''USD'' \<or> vsMaxAge V \<le> 0 \<or> vsNow V = 0 then r\<lparr>poReason := ''missing valuation policy''\<rparr>
          else case valuation V meta (ord after) of
                 Inl err \<Rightarrow> r\<lparr>poReason := err\<rparr>
               | Inr a \<Rightarrow>
                   (case valuation V meta (ord owned) of
                      Inl err \<Rightarrow> r\<lparr>poReason := err\<rparr>
                    | Inr b \<Rightarrow> r\<lparr>poValuationComplete := True, poNetUSD := Some (a - b), poPositive := (a - b > 0),
                                 poReason := ''analysis_only''\<rparr>))"

definition EvaluatePortfolio :: "AddressLib \<Rightarrow> (totals \<Rightarrow> totals) \<Rightarrow> PortfolioInput \<Rightarrow> PortfolioResult" where
  "EvaluatePortfolio A ord p =
     (case add_all A (piAfter p) ([], []) of
        Inl err \<Rightarrow> no_portfolio\<lparr>poReason := err\<rparr>
      | Inr (after, meta1) \<Rightarrow>
     case add_all A (piOwnedBefore p) ([], meta1) of
        Inl err \<Rightarrow> no_portfolio\<lparr>poReason := err\<rparr>
      | Inr (owned, meta2) \<Rightarrow>
     case add_all A (piBorrowed p) ([], meta2) of
        Inl err \<Rightarrow> no_portfolio\<lparr>poReason := err\<rparr>
      | Inr (borrowed, meta3) \<Rightarrow>
     case add_debts A (piLiabilities p) [] [] meta3 of
        Inl err \<Rightarrow> no_portfolio\<lparr>poReason := err\<rparr>
      | Inr (principals, debts, meta) \<Rightarrow>
     if \<not> funding_matches principals borrowed then no_portfolio\<lparr>poReason := ''funding/liability mismatch''\<rparr>
     else case settle_debts (ord debts) after of
        Inl err \<Rightarrow> no_portfolio\<lparr>poReason := err\<rparr>
      | Inr after1 \<Rightarrow>
          let r = no_portfolio\<lparr>poLiabilitiesSatisfied := True\<rparr>
          in case pay_costs A meta (piCosts p) after1 of
               Inl err \<Rightarrow> r\<lparr>poReason := err\<rparr>
             | Inr after2 \<Rightarrow>
                 value_portfolio ord (piValuation p) meta after2 owned (r\<lparr>poResidual := filter (\<lambda>(k, v). v > 0) after2\<rparr>))"

section \<open>The amount ladder\<close>

definition ladder_step :: "int \<Rightarrow> int \<Rightarrow> int list \<Rightarrow> int list" where
  "ladder_step top1 d out = (let x = big_quo top1 d in if x > 0 \<and> x \<notin> set out then out @ [x] else out)"

definition AmountLadder :: "bigint \<Rightarrow> bigint \<Rightarrow> int list" where
  "AmountLadder base depthCap =
     (case base of
        None \<Rightarrow> []
      | Some b \<Rightarrow>
          if b \<le> 0 then []
          else let top1 = (case depthCap of Some c \<Rightarrow> if 0 < c \<and> c < b then c else b | None \<Rightarrow> b)
               in fold (ladder_step top1) [100, 20, 10, 4, 1] [])"

section \<open>What the totals are\<close>

definition amount_of :: "totals \<Rightarrow> string \<Rightarrow> int" where
  "amount_of m k = (case map_of m k of None \<Rightarrow> 0 | Some v \<Rightarrow> v)"

definition asset_key :: "Asset \<Rightarrow> string" where
  "asset_key a = to_lower (asAddress a)"

definition sum_of :: "('a \<Rightarrow> string) \<Rightarrow> ('a \<Rightarrow> int) \<Rightarrow> 'a list \<Rightarrow> string \<Rightarrow> int" where
  "sum_of key raw xs k = sum_list (map raw (filter (\<lambda>x. key x = k) xs))"

definition balance_total :: "Balance list \<Rightarrow> string \<Rightarrow> int" where
  "balance_total = sum_of (\<lambda>b. asset_key (blAsset b)) (\<lambda>b. big_or_zero (blRaw b))"

definition principal_total :: "Liability list \<Rightarrow> string \<Rightarrow> int" where
  "principal_total = sum_of (\<lambda>l. asset_key (lbAsset l)) (\<lambda>l. big_or_zero (lbPrincipal l))"

definition debt_total :: "Liability list \<Rightarrow> string \<Rightarrow> int" where
  "debt_total = sum_of (\<lambda>l. asset_key (lbAsset l)) (\<lambda>l. big_or_zero (lbPrincipal l) + big_or_zero (lbPremium l))"

lemma sum_of_simps [simp]:
  "sum_of key raw [] k = 0" "sum_of key raw (x # xs) k = (if key x = k then raw x else 0) + sum_of key raw xs k"
  by (simp_all add: sum_of_def)

text \<open>Tables are well formed: distinct keys and no negative amount.\<close>

definition totals_ok :: "totals \<Rightarrow> bool" where
  "totals_ok m \<longleftrightarrow> distinct (map fst m) \<and> (\<forall>k. 0 \<le> amount_of m k)"

lemma amount_of_update [simp]: "amount_of (AList.update k v m) j = (if j = k then v else amount_of m j)"
  by (simp add: amount_of_def update_conv')

lemma totals_ok_update: "totals_ok m \<Longrightarrow> 0 \<le> v \<Longrightarrow> totals_ok (AList.update k v m)"
  by (simp add: totals_ok_def distinct_update)

lemma totals_ok_Nil [simp]: "totals_ok []" "amount_of [] k = 0"
  by (simp_all add: totals_ok_def amount_of_def)

lemma add_balance_spec:
  assumes "add_balance A b (m, meta) = Inr (m', meta')" "totals_ok m"
  shows "totals_ok m' \<and> (\<forall>k. amount_of m' k = amount_of m k + (if asset_key (blAsset b) = k then big_or_zero (blRaw b) else 0))"
proof -
  obtain raw where raw: "blRaw b = Some raw" "0 \<le> raw" and m': "m' = AList.update (asset_key (blAsset b)) (amount_of m (asset_key (blAsset b)) + raw) m"
    using assms(1) by (auto simp: add_balance_def address_def asset_key_def amount_of_def split: option.splits sum.splits if_splits)
  have "0 \<le> amount_of m (asset_key (blAsset b))" using assms(2) by (simp add: totals_ok_def)
  then show ?thesis using raw m' assms(2) totals_ok_update by simp
qed

lemma add_all_spec:
  assumes "add_all A bs (m, meta) = Inr (m', meta')" "totals_ok m"
  shows "totals_ok m' \<and> (\<forall>k. amount_of m' k = amount_of m k + balance_total bs k)"
  using assms
proof (induction bs arbitrary: m meta)
  case (Cons b bs)
  obtain m1 meta1 where b: "add_balance A b (m, meta) = Inr (m1, meta1)" "add_all A bs (m1, meta1) = Inr (m', meta')"
    using Cons.prems(1) by (auto split: sum.splits)
  note one = add_balance_spec [OF b(1) Cons.prems(2)]
  from Cons.IH [OF b(2)] one show ?case by (simp add: balance_total_def)
qed (simp add: balance_total_def)

lemma add_debts_spec:
  assumes "add_debts A ls principals debts meta = Inr (principals', debts', meta')" "totals_ok principals" "totals_ok debts"
  shows "totals_ok principals' \<and> totals_ok debts' \<and> (\<forall>k. amount_of principals' k = amount_of principals k + principal_total ls k)
    \<and> (\<forall>k. amount_of debts' k = amount_of debts k + debt_total ls k)"
  using assms
proof (induction ls arbitrary: principals debts meta)
  case (Cons l ls)
  obtain p q p1 m1 d1 m2 where l: "lbPrincipal l = Some p" "lbPremium l = Some q"
      "add_balance A \<lparr>blAsset = lbAsset l, blRaw = Some p\<rparr> (principals, meta) = Inr (p1, m1)"
      "add_balance A \<lparr>blAsset = lbAsset l, blRaw = Some (p + q)\<rparr> (debts, m1) = Inr (d1, m2)"
      "add_debts A ls p1 d1 m2 = Inr (principals', debts', meta')"
    using Cons.prems(1) by (auto split: option.splits sum.splits if_splits)
  note one = add_balance_spec [OF l(3) Cons.prems(2)] and two = add_balance_spec [OF l(4) Cons.prems(3)]
  from Cons.IH [OF l(5) conjunct1 [OF one] conjunct1 [OF two]] one two l(1,2) show ?case
    by (simp add: principal_total_def debt_total_def)
qed (simp add: principal_total_def debt_total_def)

lemma funding_matches_amounts:
  assumes "funding_matches principals borrowed" "distinct (map fst principals)" "distinct (map fst borrowed)"
  shows "amount_of principals k = amount_of borrowed k"
proof -
  have sub: "set principals \<subseteq> set borrowed"
    using assms(1) by (auto simp: funding_matches_def list_all_iff dest: map_of_SomeD)
  have "card (set principals) = card (set borrowed)"
    using assms by (simp add: funding_matches_def distinct_card distinct_map)
  then have "set principals = set borrowed" using sub by (simp add: card_subset_eq)
  then have "map_of principals = map_of borrowed" using assms(2,3) by (metis map_of_inject_set)
  then show ?thesis by (simp add: amount_of_def)
qed

lemma settle_debts_spec:
  assumes "settle_debts ds after = Inr after'" "distinct (map fst ds)" "totals_ok after"
  shows "totals_ok after' \<and> (\<forall>k. amount_of after' k = amount_of after k - amount_of ds k)"
  using assms
proof (induction ds arbitrary: after)
  case (Cons d ds)
  obtain k debt where d: "d = (k, debt)" by (cases d)
  obtain v where v: "map_of after k = Some v" "debt \<le> v" "settle_debts ds (AList.update k (v - debt) after) = Inr after'"
    using Cons.prems(1) d by (auto split: option.splits if_splits)
  have ok: "totals_ok (AList.update k (v - debt) after)" using Cons.prems(3) v(2) totals_ok_update by simp
  have "amount_of ds k = 0" using Cons.prems(2) d by (simp add: amount_of_def map_of_eq_None_iff [THEN iffD2] split: option.split)
  moreover have "amount_of after k = v" using v(1) by (simp add: amount_of_def)
  moreover have "amount_of (d # ds) j = (if j = k then debt else amount_of ds j)" for j by (simp add: d amount_of_def)
  ultimately show ?case using Cons.IH [OF v(3) _ ok] Cons.prems(2) by auto
qed simp

lemma pay_costs_spec:
  assumes "pay_costs A meta costs after = Inr after'" "totals_ok after"
  shows "totals_ok after' \<and> (\<forall>k. amount_of after' k = amount_of after k - balance_total costs k)"
  using assms
proof (induction costs arbitrary: after)
  case (Cons c costs)
  obtain raw where raw: "blRaw c = Some raw" "0 \<le> raw"
    and rest: "raw = 0 \<and> pay_costs A meta costs after = Inr after'
      \<or> (\<exists>v. map_of after (asset_key (blAsset c)) = Some v \<and> raw \<le> v
           \<and> pay_costs A meta costs (AList.update (asset_key (blAsset c)) (v - raw) after) = Inr after')"
    using Cons.prems(1) by (auto simp: address_def asset_key_def split: option.splits sum.splits if_splits)
  from rest show ?case
  proof
    assume "raw = 0 \<and> pay_costs A meta costs after = Inr after'"
    then show ?thesis using Cons.IH [of after] Cons.prems(2) raw(1) by (simp add: balance_total_def)
  next
    assume "\<exists>v. map_of after (asset_key (blAsset c)) = Some v \<and> raw \<le> v
      \<and> pay_costs A meta costs (AList.update (asset_key (blAsset c)) (v - raw) after) = Inr after'"
    then obtain v where v: "map_of after (asset_key (blAsset c)) = Some v" "raw \<le> v"
        "pay_costs A meta costs (AList.update (asset_key (blAsset c)) (v - raw) after) = Inr after'" by blast
    have ok: "totals_ok (AList.update (asset_key (blAsset c)) (v - raw) after)" using Cons.prems(2) v(2) totals_ok_update by simp
    have "amount_of after (asset_key (blAsset c)) = v" using v(1) by (simp add: amount_of_def)
    then show ?thesis using Cons.IH [OF v(3) ok] raw(1) by (auto simp: balance_total_def)
  qed
qed (simp add: balance_total_def)

section \<open>The valuation\<close>

text \<open>Every residual is within its exposure limit and has a usable price; the value is the sum of the worths.\<close>

definition holding_ok :: "ValuationState \<Rightarrow> string \<Rightarrow> int \<Rightarrow> bool" where
  "holding_ok V k raw \<longleftrightarrow> raw = 0 \<or> (\<exists>p. vsPrices V k = Some p \<and> usable_price V p raw)"

definition worth_of :: "ValuationState \<Rightarrow> (string \<Rightarrow> 8 word) \<Rightarrow> string \<Rightarrow> int \<Rightarrow> rat" where
  "worth_of V dec k raw = (if raw = 0 then 0 else worth (the (vsPrices V k)) (dec k) raw)"

definition decimals_of :: "decimals \<Rightarrow> string \<Rightarrow> 8 word" where
  "decimals_of meta k = (case map_of meta k of Some d \<Rightarrow> d | None \<Rightarrow> 0)"

lemma valuation_spec:
  assumes "valuation V meta m = Inr t"
  shows "t = sum_list (map (\<lambda>(k, raw). worth_of V (decimals_of meta) k raw) m) \<and> list_all (\<lambda>(k, raw). holding_ok V k raw) m"
  using assms
proof (induction m arbitrary: t)
  case (Cons e m)
  obtain k raw where e: "e = (k, raw)" by (cases e)
  show ?case
  proof (cases "raw = 0")
    case True
    then show ?thesis using Cons e by (simp add: worth_of_def holding_ok_def)
  next
    case False
    obtain p t1 where "vsPrices V k = Some p" "usable_price V p raw" "valuation V meta m = Inr t1"
        "t = worth p (decimals_of meta k) raw + t1"
      using Cons.prems False e by (auto simp: decimals_of_def split: option.splits sum.splits if_splits)
    then show ?thesis using Cons.IH False e by (auto simp: worth_of_def holding_ok_def)
  qed
qed simp

lemma within_limits_spec:
  "within_limits limits m = None \<longleftrightarrow> list_all (\<lambda>(k, v). v = 0 \<or> (\<exists>cap. limits k = Some cap \<and> 0 \<le> cap \<and> v \<le> cap)) m"
  by (induction limits m rule: within_limits.induct) (auto split: option.split)

lemma sum_over_keys:
  assumes "distinct (map fst m)" "finite K" "fst ` set m \<subseteq> K" "\<And>k. f k 0 = (0 :: rat)"
  shows "sum_list (map (\<lambda>(k, v). f k v) m) = (\<Sum>k\<in>K. f k (amount_of m k))"
  using assms(1,3)
proof (induction m)
  case Nil
  then show ?case using assms(4) by simp
next
  case (Cons e m)
  obtain k v where e: "e = (k, v)" by (cases e)
  have k: "k \<in> K" "amount_of m k = 0" using Cons.prems e
    by (auto simp: amount_of_def map_of_eq_None_iff [THEN iffD2] split: option.split)
  have "(\<Sum>j\<in>K. f j (amount_of (e # m) j)) = f k v + (\<Sum>j\<in>K - {k}. f j (amount_of m j))"
    using k assms(2) by (simp add: sum.remove [of K k] e amount_of_def)
  also have "(\<Sum>j\<in>K - {k}. f j (amount_of m j)) = (\<Sum>j\<in>K. f j (amount_of m j))"
    using k assms(2,4) by (simp add: sum.remove [of K k])
  finally show ?case using Cons by (simp add: e)
qed

lemma amount_of_member: "distinct (map fst m) \<Longrightarrow> (k, v) \<in> set m \<Longrightarrow> amount_of m k = v"
  by (simp add: amount_of_def)

lemma amount_of_absent: "k \<notin> fst ` set m \<Longrightarrow> amount_of m k = 0"
  by (simp add: amount_of_def map_of_eq_None_iff [THEN iffD2])

lemma value_portfolio_spec:
  assumes "\<And>m. mset (ord m) = mset m" "totals_ok after" "totals_ok owned" "\<not> poPositive r"
    and "poPositive (value_portfolio ord V meta after owned r)"
  shows "\<exists>net. poNetUSD (value_portfolio ord V meta after owned r) = Some net \<and> 0 < net
    \<and> (\<forall>K. finite K \<longrightarrow> fst ` set after \<union> fst ` set owned \<subseteq> K \<longrightarrow>
         net = (\<Sum>k\<in>K. worth_of V (decimals_of meta) k (amount_of after k)) - (\<Sum>k\<in>K. worth_of V (decimals_of meta) k (amount_of owned k)))
    \<and> (\<forall>k. holding_ok V k (amount_of after k)
         \<and> (amount_of after k = 0 \<or> (\<exists>cap. vsExposureLimits V k = Some cap \<and> amount_of after k \<le> cap)))
    \<and> (\<forall>k. holding_ok V k (amount_of owned k))
    \<and> poLiabilitiesSatisfied (value_portfolio ord V meta after owned r) = poLiabilitiesSatisfied r"
proof -
  obtain a b where w: "within_limits (vsExposureLimits V) (ord after) = None" "valuation V meta (ord after) = Inr a"
      "valuation V meta (ord owned) = Inr b" and ab: "0 < a - b"
      and r: "poNetUSD (value_portfolio ord V meta after owned r) = Some (a - b)"
      "poLiabilitiesSatisfied (value_portfolio ord V meta after owned r) = poLiabilitiesSatisfied r"
    using assms(4,5) by (auto simp: value_portfolio_def split: option.splits sum.splits if_splits)
  have set_ord: "set (ord m) = set m" for m using assms(1) [of m] by (metis set_mset_mset)
  note va = valuation_spec [OF w(2)] and vb = valuation_spec [OF w(3)]
  have reorder: "sum_list (map f (ord m)) = sum_list (map f m)" for f :: "string \<times> int \<Rightarrow> rat" and m
    unfolding sum_mset_sum_list [symmetric] mset_map assms(1) ..
  have dis: "distinct (map fst after)" "distinct (map fst owned)" using assms(2,3) by (simp_all add: totals_ok_def)
  have "holding_ok V k (amount_of m k)" if "list_all (\<lambda>(k, raw). holding_ok V k raw) m" "distinct (map fst m)" for k m
    using that by (cases "k \<in> fst ` set m") (auto simp: list_all_iff amount_of_member amount_of_absent, simp add: holding_ok_def)
  moreover have "list_all (\<lambda>(k, raw). holding_ok V k raw) after" "list_all (\<lambda>(k, raw). holding_ok V k raw) owned"
    using va vb set_ord by (auto simp: list_all_iff)
  moreover have "amount_of after k = 0 \<or> (\<exists>cap. vsExposureLimits V k = Some cap \<and> amount_of after k \<le> cap)" for k
    using w(1) dis set_ord unfolding within_limits_spec
    by (cases "k \<in> fst ` set after") (fastforce simp: list_all_iff amount_of_member amount_of_absent)+
  moreover have "a - b = (\<Sum>k\<in>K. worth_of V (decimals_of meta) k (amount_of after k)) - (\<Sum>k\<in>K. worth_of V (decimals_of meta) k (amount_of owned k))"
    if "finite K" "fst ` set after \<union> fst ` set owned \<subseteq> K" for K
    using va vb that dis unfolding reorder by (simp add: sum_over_keys worth_of_def)
  ultimately show ?thesis using r ab dis by blast
qed

section \<open>A positive portfolio\<close>

definition portfolio_assets :: "PortfolioInput \<Rightarrow> string set" where
  "portfolio_assets p = (\<lambda>b. asset_key (blAsset b)) ` (set (piAfter p) \<union> set (piOwnedBefore p))"

lemma add_balance_meta:
  assumes "add_balance A b (m, meta) = Inr (m', meta')"
  shows "map_of meta \<subseteq>\<^sub>m map_of meta' \<and> map_of meta' (asset_key (blAsset b)) = Some (asDecimals (blAsset b))
    \<and> fst ` set m' = insert (asset_key (blAsset b)) (fst ` set m)"
proof -
  let ?k = "asset_key (blAsset b)" and ?d = "asDecimals (blAsset b)"
  obtain v where "m' = AList.update ?k v m" "meta' = AList.update ?k ?d meta" "map_of meta ?k = None \<or> map_of meta ?k = Some ?d"
    using assms by (auto simp: add_balance_def address_def asset_key_def split: option.splits sum.splits if_splits)
  then show ?thesis by (auto simp: map_le_def update_conv' dom_update)
qed

lemma add_all_meta:
  assumes "add_all A bs (m, meta) = Inr (m', meta')"
  shows "map_of meta \<subseteq>\<^sub>m map_of meta' \<and> (\<forall>b\<in>set bs. map_of meta' (asset_key (blAsset b)) = Some (asDecimals (blAsset b)))
    \<and> fst ` set m' = fst ` set m \<union> (\<lambda>b. asset_key (blAsset b)) ` set bs"
  using assms
proof (induction bs arbitrary: m meta)
  case (Cons b bs)
  obtain m1 meta1 where b: "add_balance A b (m, meta) = Inr (m1, meta1)" "add_all A bs (m1, meta1) = Inr (m', meta')"
    using Cons.prems by (auto split: sum.splits)
  have one: "map_of meta \<subseteq>\<^sub>m map_of meta1" "map_of meta1 (asset_key (blAsset b)) = Some (asDecimals (blAsset b))"
    "fst ` set m1 = insert (asset_key (blAsset b)) (fst ` set m)"
    using add_balance_meta [OF b(1)] by simp_all
  have rest: "map_of meta1 \<subseteq>\<^sub>m map_of meta'" "\<forall>b\<in>set bs. map_of meta' (asset_key (blAsset b)) = Some (asDecimals (blAsset b))"
    "fst ` set m' = fst ` set m1 \<union> (\<lambda>b. asset_key (blAsset b)) ` set bs"
    using Cons.IH [OF b(2)] by simp_all
  have "map_of meta' (asset_key (blAsset b)) = Some (asDecimals (blAsset b))" using rest(1) one(2) by (metis domI map_le_def)
  then show ?case using one rest map_le_trans [OF one(1) rest(1)] by auto
qed simp

lemma add_debts_meta:
  assumes "add_debts A ls principals debts meta = Inr (principals', debts', meta')"
  shows "map_of meta \<subseteq>\<^sub>m map_of meta'"
  using assms
proof (induction ls arbitrary: principals debts meta)
  case (Cons l ls)
  obtain p q p1 m1 d1 m2 where l: "add_balance A \<lparr>blAsset = lbAsset l, blRaw = Some p\<rparr> (principals, meta) = Inr (p1, m1)"
      "add_balance A \<lparr>blAsset = lbAsset l, blRaw = Some (p + q)\<rparr> (debts, m1) = Inr (d1, m2)"
      "add_debts A ls p1 d1 m2 = Inr (principals', debts', meta')"
    using Cons.prems by (auto split: option.splits sum.splits if_splits)
  have "map_of meta \<subseteq>\<^sub>m map_of m1" "map_of m1 \<subseteq>\<^sub>m map_of m2"
    using add_balance_meta [OF l(1)] add_balance_meta [OF l(2)] by blast+
  then show ?case using Cons.IH [OF l(3)] by (metis map_le_trans)
qed simp

lemma settle_debts_keys: "settle_debts ds after = Inr after' \<Longrightarrow> fst ` set after' = fst ` set after"
  by (induction ds after rule: settle_debts.induct)
     (auto simp: dom_update dest: map_of_SomeD split: option.splits if_splits intro: rev_image_eqI)

lemma pay_costs_keys: "pay_costs A meta costs after = Inr after' \<Longrightarrow> fst ` set after' = fst ` set after"
proof (induction A meta costs after rule: pay_costs.induct)
  case (2 A meta cost costs after)
  then show ?case
    by (auto simp: dom_update dest: map_of_SomeD split: option.splits sum.splits if_splits intro: rev_image_eqI)
qed simp

text \<open>
  C29: what a positive portfolio means. Every liability is settled in its own asset and every cost is paid in its own asset out
  of the balances after the trade: per asset the residual is the balance minus principal, premium and costs, and never
  negative; what was borrowed is exactly the principal owed; each residual is within its configured exposure limit and has a
  usable independent price; and the net is positive, the exact worth of the residuals minus the exact worth of what was owned
  before.
\<close>

theorem portfolio_positive_sound:
  assumes "\<And>m. mset (ord m) = mset m" and "poPositive (EvaluatePortfolio A ord p)"
  shows "\<exists>residual net dec. poNetUSD (EvaluatePortfolio A ord p) = Some net \<and> 0 < net
    \<and> poLiabilitiesSatisfied (EvaluatePortfolio A ord p)
    \<and> (\<forall>k. residual k = balance_total (piAfter p) k - debt_total (piLiabilities p) k - balance_total (piCosts p) k \<and> 0 \<le> residual k)
    \<and> (\<forall>k. balance_total (piBorrowed p) k = principal_total (piLiabilities p) k)
    \<and> (\<forall>k. holding_ok (piValuation p) k (residual k)
         \<and> (residual k = 0 \<or> (\<exists>cap. vsExposureLimits (piValuation p) k = Some cap \<and> residual k \<le> cap)))
    \<and> (\<forall>b\<in>set (piAfter p) \<union> set (piOwnedBefore p). dec (asset_key (blAsset b)) = asDecimals (blAsset b))
    \<and> net = (\<Sum>k\<in>portfolio_assets p. worth_of (piValuation p) dec k (residual k))
          - (\<Sum>k\<in>portfolio_assets p. worth_of (piValuation p) dec k (balance_total (piOwnedBefore p) k))"
proof -
  let ?r = "\<lambda>after2. no_portfolio\<lparr>poLiabilitiesSatisfied := True, poResidual := filter (\<lambda>(k, v). v > 0) after2\<rparr>"
  obtain after meta1 owned meta2 borrowed meta3 principals debts meta after1 after2 where
    s: "add_all A (piAfter p) ([], []) = Inr (after, meta1)" "add_all A (piOwnedBefore p) ([], meta1) = Inr (owned, meta2)"
      "add_all A (piBorrowed p) ([], meta2) = Inr (borrowed, meta3)"
      "add_debts A (piLiabilities p) [] [] meta3 = Inr (principals, debts, meta)" "funding_matches principals borrowed"
      "settle_debts (ord debts) after = Inr after1" "pay_costs A meta (piCosts p) after1 = Inr after2"
    and res: "EvaluatePortfolio A ord p = value_portfolio ord (piValuation p) meta after2 owned (?r after2)"
    using assms(2) by (auto simp: EvaluatePortfolio_def no_portfolio_def Let_def split: sum.splits if_splits)
  note ok1 = add_all_spec [OF s(1) totals_ok_Nil(1)] and ok2 = add_all_spec [OF s(2) totals_ok_Nil(1)]
    and ok3 = add_all_spec [OF s(3) totals_ok_Nil(1)] and ok4 = add_debts_spec [OF s(4) totals_ok_Nil(1) totals_ok_Nil(1)]
  have debts: "distinct (map fst (ord debts))" "amount_of (ord debts) k = amount_of debts k" for k
  proof -
    have d: "distinct (map fst debts)" using ok4 by (simp add: totals_ok_def)
    have "mset (map fst (ord debts)) = mset (map fst debts)" using assms(1) by simp
    then show "distinct (map fst (ord debts))" using d mset_eq_imp_distinct_iff by blast
    then show "amount_of (ord debts) k = amount_of debts k"
      using d assms(1) [of debts] unfolding amount_of_def by (metis map_of_inject_set set_mset_mset)
  qed
  note st = settle_debts_spec [OF s(6) debts(1) conjunct1 [OF ok1]]
  note pc = pay_costs_spec [OF s(7) conjunct1 [OF st]]
  have residual: "amount_of after2 k = balance_total (piAfter p) k - debt_total (piLiabilities p) k - balance_total (piCosts p) k" for k
    using pc st ok1 ok4 debts(2) by simp
  have funded: "balance_total (piBorrowed p) k = principal_total (piLiabilities p) k" for k
    using funding_matches_amounts [OF s(5), of k] ok3 ok4 by (simp add: totals_ok_def)
  have keys: "fst ` set after2 \<union> fst ` set owned \<subseteq> portfolio_assets p" "finite (portfolio_assets p)"
    using add_all_meta [OF s(1)] add_all_meta [OF s(2)] settle_debts_keys [OF s(6)] pay_costs_keys [OF s(7)]
    by (auto simp: portfolio_assets_def)
  have "map_of meta1 \<subseteq>\<^sub>m map_of meta" "map_of meta2 \<subseteq>\<^sub>m map_of meta"
    using add_all_meta [OF s(2)] add_all_meta [OF s(3)] add_debts_meta [OF s(4)] by (metis map_le_trans)+
  then have dec: "decimals_of meta (asset_key (blAsset b)) = asDecimals (blAsset b)" if "b \<in> set (piAfter p) \<union> set (piOwnedBefore p)" for b
    using that add_all_meta [OF s(1)] add_all_meta [OF s(2)] unfolding decimals_of_def map_le_def by (metis Un_iff domI option.simps(5))
  have "\<not> poPositive (?r after2)" by (simp add: no_portfolio_def)
  from value_portfolio_spec [OF assms(1) conjunct1 [OF pc] conjunct1 [OF ok2] this assms(2) [unfolded res]]
  obtain net where net: "poNetUSD (EvaluatePortfolio A ord p) = Some net" "0 < net" "poLiabilitiesSatisfied (EvaluatePortfolio A ord p)"
      "net = (\<Sum>k\<in>portfolio_assets p. worth_of (piValuation p) (decimals_of meta) k (amount_of after2 k))
           - (\<Sum>k\<in>portfolio_assets p. worth_of (piValuation p) (decimals_of meta) k (amount_of owned k))"
      "\<forall>k. holding_ok (piValuation p) k (amount_of after2 k)
         \<and> (amount_of after2 k = 0 \<or> (\<exists>cap. vsExposureLimits (piValuation p) k = Some cap \<and> amount_of after2 k \<le> cap))"
    unfolding res using keys by auto
  have owned: "amount_of owned k = balance_total (piOwnedBefore p) k" for k using ok2 by simp
  show ?thesis
    by (intro exI [of _ "amount_of after2"] exI [of _ net] exI [of _ "decimals_of meta"])
       (use net residual funded dec pc in \<open>auto simp: owned totals_ok_def\<close>)
qed

definition demo_asset :: Asset where
  "demo_asset = \<lparr>asAddress = ''0x1'', asDecimals = 2\<rparr>"

definition demo_price :: Price where
  "demo_price = \<lparr>prUSD = Some 2, prAsOf = 90, prMaxRaw = Some 1000, prIndependent = True, prExecutable = True,
     prReviewedToken = True, prHaircutBPS = 500\<rparr>"

text \<open>A loan of 100 with a premium of 1 and a cost of 2 in the same token, repaid out of 120.\<close>

definition demo_portfolio :: PortfolioInput where
  "demo_portfolio = \<lparr>piBorrowed = [\<lparr>blAsset = demo_asset, blRaw = Some 100\<rparr>], piOwnedBefore = [],
     piLiabilities = [\<lparr>lbAsset = demo_asset, lbPrincipal = Some 100, lbPremium = Some 1\<rparr>],
     piAfter = [\<lparr>blAsset = demo_asset, blRaw = Some 120\<rparr>], piCosts = [\<lparr>blAsset = demo_asset, blRaw = Some 2\<rparr>],
     piValuation = \<lparr>vsNumeraire = ''USD'', vsPrices = [''0x1'' \<mapsto> demo_price], vsExposureLimits = (\<lambda>_. Some 50), vsNow = 100, vsMaxAge = 60\<rparr>\<rparr>"

definition demo_addresses :: AddressLib where
  "demo_addresses = \<lparr>aIsHex = (\<lambda>s. s \<noteq> ''''), aToAddress = (\<lambda>s. replicate 20 1)\<rparr>"

lemma demo_portfolio_positive: "poPositive (EvaluatePortfolio demo_addresses (\<lambda>m. m) demo_portfolio)"
proof -
  have low: "to_lower ''0x1'' = ''0x1''" by code_simp
  have addr: "address demo_addresses demo_asset = Inr ''0x1''"
    by (simp add: address_def demo_addresses_def demo_asset_def low)
  show ?thesis
    by (simp add: EvaluatePortfolio_def demo_portfolio_def addr add_balance_def no_portfolio_def funding_matches_def Let_def
        value_portfolio_def usable_price_def demo_price_def worth_def) (simp add: demo_asset_def Fract_of_int_quotient)
qed

theorem portfolio_positive_sound_witness:
  "\<exists>residual net. poNetUSD (EvaluatePortfolio demo_addresses (\<lambda>m. m) demo_portfolio) = Some net \<and> 0 < net
     \<and> residual ''0x1'' = balance_total (piAfter demo_portfolio) ''0x1'' - debt_total (piLiabilities demo_portfolio) ''0x1''
         - balance_total (piCosts demo_portfolio) ''0x1''"
  using portfolio_positive_sound [of "\<lambda>m. m", OF refl demo_portfolio_positive] by blast

text \<open>The ladder is at most five increasing positive sizes, none above the production amount.\<close>

definition ladder_ok :: "int \<Rightarrow> nat \<Rightarrow> int list \<Rightarrow> bool" where
  "ladder_ok bound n out \<longleftrightarrow> length out \<le> n \<and> sorted_wrt (<) out \<and> (\<forall>x\<in>set out. 0 < x \<and> x \<le> bound)"

lemma ladder_ok_step:
  assumes "ladder_ok (t div c) n out" "0 \<le> t" "0 < d" "d \<le> c"
  shows "ladder_ok (t div d) (Suc n) (ladder_step t d out)"
proof -
  have le: "t div c \<le> t div d" using assms(2-4) by (intro zdiv_mono2) auto
  have quo: "big_quo t d = t div d" using assms(2,3) by simp
  have "x \<le> t div d" if "x \<in> set out" for x using that assms(1) le by (fastforce simp: ladder_ok_def)
  then have less: "\<forall>x\<in>set out. x < t div d" if "t div d \<notin> set out" using that by (metis order_le_imp_less_or_eq)
  show ?thesis
  proof (cases "t div d > 0 \<and> t div d \<notin> set out")
    case True
    then have "\<forall>x\<in>set out. x < t div d" using less by blast
    then show ?thesis using assms(1) True
      by (simp add: ladder_ok_def ladder_step_def Let_def sorted_wrt_append less_imp_le quo)
  next
    case False
    then have "ladder_step t d out = out" by (simp add: ladder_step_def Let_def quo)
    then show ?thesis using assms(1) \<open>\<And>x. x \<in> set out \<Longrightarrow> x \<le> t div d\<close> by (simp add: ladder_ok_def)
  qed
qed

lemma AmountLadder_bounded:
  "ladder_ok (big_or_zero base) 5 (AmountLadder base cap)"
proof (cases base)
  case (Some b)
  define t where "t = (case cap of Some c \<Rightarrow> if 0 < c \<and> c < b then c else b | None \<Rightarrow> b)"
  show ?thesis
  proof (cases "b \<le> 0")
    case False
    then have t: "0 \<le> t" "t \<le> b" by (auto simp: t_def split: option.split)
    have "ladder_ok (t div 100) 0 []" by (simp add: ladder_ok_def)
    from ladder_ok_step [OF this t(1), of 100] have "ladder_ok (t div 100) 1 (ladder_step t 100 [])" by simp
    from ladder_ok_step [OF this t(1), of 20] have "ladder_ok (t div 20) 2 (ladder_step t 20 (ladder_step t 100 []))"
      by (simp add: numeral_2_eq_2)
    from ladder_ok_step [OF this t(1), of 10]
    have "ladder_ok (t div 10) 3 (ladder_step t 10 (ladder_step t 20 (ladder_step t 100 [])))" by (simp add: numeral_3_eq_3)
    from ladder_ok_step [OF this t(1), of 4]
    have "ladder_ok (t div 4) 4 (ladder_step t 4 (ladder_step t 10 (ladder_step t 20 (ladder_step t 100 []))))" by simp
    from ladder_ok_step [OF this t(1), of 1]
    have "ladder_ok t 5 (ladder_step t 1 (ladder_step t 4 (ladder_step t 10 (ladder_step t 20 (ladder_step t 100 [])))))" by simp
    moreover have "AmountLadder base cap = ladder_step t 1 (ladder_step t 4 (ladder_step t 10 (ladder_step t 20 (ladder_step t 100 []))))"
      using Some False by (simp add: AmountLadder_def t_def Let_def)
    ultimately show ?thesis using t Some by (fastforce simp: ladder_ok_def)
  qed (simp add: AmountLadder_def Some ladder_ok_def)
qed (simp add: AmountLadder_def ladder_ok_def)

end
