(* ===== verification/PairMemory.thy ===== *)
theory PairMemory
  imports Float64 Pools "HOL-Library.AList"
begin

text \<open>
  \<open>go/internal/pairintel/memory.go\<close>: the bounded memory of token pairs, their scores, and the selection of pairs for
  the shadow and the live graph. A Go map that is ranged over is an association list with distinct keys, and the order
  of the range is the argument \<open>ord\<close>, applied to its keys; maps that are only looked up are partial maps. A
  \<open>*Pair\<close> held in the map is the entry of its key. Times are nanoseconds since 1970; each operation takes the
  times it reads from the clock. The telemetry rendering is left out.
\<close>

section \<open>Data\<close>

text \<open>\<open>State\<close> is a string type: a stored snapshot may hold any other one.\<close>

datatype State = Observed | Shadow | Admitted | Cooled | OtherState string

record 'f PairConfig =
  pcEnabled :: bool
  pcMode :: string
  pcMaxTrackedPairs :: int
  pcMaxShadowPairs :: int
  pcMaxDynamicAssets :: int
  pcMaxLivePairs :: int
  pcMaxLiveDynamicAssets :: int
  pcMinObservation :: int
  pcMaxRPS :: 'f
  pcBurst :: int
  pcMinScore :: 'f
  pcMinConfidence :: 'f
  pcCooldown :: int
  pcDislocationThresholdBPS :: 'f
  pcMinVenueDEXes :: int
  pcMinQuoteSuccess :: 'f
  pcMinDepthScore :: 'f
  pcMaxFailurePenalty :: 'f
  pcMaxIlliquidityPenalty :: 'f
  pcMaxScoreDrift :: 'f
  pcEjectWindows :: int

record TokenMeta =
  tmAddress :: string
  tmDecimals :: "8 word"
  tmHasCode :: bool
  tmCore :: bool
  tmSymbol :: string

record PairKey =
  pkToken0 :: string
  pkToken1 :: string

record 'f Depth =
  dpDirection :: string
  dpBucket :: string
  dpAmountIn :: string
  dpAmountOut :: string
  dpAmountInNormalized :: 'f
  dpPriceImpactBPS :: 'f
  dpScore :: 'f
  dpSuccessful :: bool
  dpObservedAt :: int

record 'f Venue =
  vePool :: string
  veDEX :: DEX
  veFee :: u32
  veLastPrice :: 'f
  veLastUpdatedBlock :: u64
  veQuoteSuccessEMA :: 'f
  veFailureEMA :: 'f
  veQuoteObservations :: u64
  veDepth :: "(string \<times> 'f Depth) list"

record 'f Bucket =
  bkMinute :: int
  bkPriceOpen :: 'f
  bkPriceHigh :: 'f
  bkPriceLow :: 'f
  bkPriceClose :: 'f
  bkPriceObservations :: u64
  bkSquaredLogReturns :: 'f
  bkVolumeToken0 :: 'f
  bkSwaps :: u64
  bkDislocationHits :: u64
  bkDislocationChecks :: u64

record 'f Components =
  coRV5m :: 'f
  coRV1h :: 'f
  coRV4h :: 'f
  coVolume1h :: 'f
  coVolume24h :: 'f
  coTurnover1h :: 'f
  coTurnover24h :: 'f
  coRV :: 'f
  coVolume :: 'f
  coDepth :: 'f
  coVenueDiversity :: 'f
  coQuoteSuccess :: 'f
  coDislocationFrequency :: 'f
  coFailurePenalty :: 'f
  coIlliquidityPenalty :: 'f

record 'f Pair =
  paKey :: PairKey
  paVenues :: "(string \<times> 'f Venue) list"
  paBuckets :: "'f Bucket list"
  paFirstObserved :: int
  paLastObserved :: int
  paLastPrice :: 'f
  paSwapCount :: u64
  paFailureEMA :: 'f
  paIlliquidityEMA :: 'f
  paState :: State
  paCooldownUntil :: int
  paScore :: 'f
  paConfidence :: 'f
  paComponents :: "'f Components"
  paRecentScores :: "'f list"
  paBelowWindows :: int

record 'f Snapshot =
  snVersion :: int
  snSavedAt :: int
  snCheckpoints :: "string \<rightharpoonup> u64"
  snTokens :: "(string \<times> TokenMeta) list"
  snPairs :: "'f Pair list"

record 'f Memory =
  meCfg :: "'f PairConfig"
  meTokens :: "(string \<times> TokenMeta) list"
  mePairs :: "(string \<times> 'f Pair) list"
  mePoolPairs :: "string \<rightharpoonup> string"
  meCheckpoints :: "string \<rightharpoonup> u64"

text \<open>The zero values of the structs.\<close>

definition no_components :: "'f MathOps \<Rightarrow> 'f Components" where
  "no_components F = (let z = fZero F in
     \<lparr>coRV5m = z, coRV1h = z, coRV4h = z, coVolume1h = z, coVolume24h = z, coTurnover1h = z, coTurnover24h = z, coRV = z,
      coVolume = z, coDepth = z, coVenueDiversity = z, coQuoteSuccess = z, coDislocationFrequency = z,
      coFailurePenalty = z, coIlliquidityPenalty = z\<rparr>)"

definition no_venue :: "'f MathOps \<Rightarrow> 'f Venue" where
  "no_venue F = \<lparr>vePool = '''', veDEX = '''', veFee = 0, veLastPrice = fZero F, veLastUpdatedBlock = 0,
     veQuoteSuccessEMA = fZero F, veFailureEMA = fZero F, veQuoteObservations = 0, veDepth = []\<rparr>"

definition new_bucket :: "'f MathOps \<Rightarrow> int \<Rightarrow> 'f Bucket" where
  "new_bucket F minute = (let z = fZero F in
     \<lparr>bkMinute = minute, bkPriceOpen = z, bkPriceHigh = z, bkPriceLow = z, bkPriceClose = z, bkPriceObservations = 0,
      bkSquaredLogReturns = z, bkVolumeToken0 = z, bkSwaps = 0, bkDislocationHits = 0, bkDislocationChecks = 0\<rparr>)"

definition no_pair :: "'f MathOps \<Rightarrow> 'f Pair" where
  "no_pair F = \<lparr>paKey = \<lparr>pkToken0 = '''', pkToken1 = ''''\<rparr>, paVenues = [], paBuckets = [], paFirstObserved = 0, paLastObserved = 0,
     paLastPrice = fZero F, paSwapCount = 0, paFailureEMA = fZero F, paIlliquidityEMA = fZero F, paState = OtherState '''',
     paCooldownUntil = 0, paScore = fZero F, paConfidence = fZero F, paComponents = no_components F, paRecentScores = [],
     paBelowWindows = 0\<rparr>"

section \<open>Keys and configuration\<close>

definition validAddress :: "string \<Rightarrow> bool" where
  "validAddress s \<longleftrightarrow> length s = 42 \<and> has_prefix ''0x'' s
     \<and> list_all (\<lambda>c. let n = (of_char c :: nat) in 48 \<le> n \<and> n \<le> 57 \<or> 97 \<le> n \<and> n \<le> 102) (drop 2 s)"

definition CanonicalPair :: "string \<Rightarrow> string \<Rightarrow> PairKey option" where
  "CanonicalPair a b =
     (let a = to_lower (trim_space a); b = to_lower (trim_space b)
      in if \<not> validAddress a \<or> \<not> validAddress b \<or> a = b then None
         else if a > b then Some \<lparr>pkToken0 = b, pkToken1 = a\<rparr> else Some \<lparr>pkToken0 = a, pkToken1 = b\<rparr>)"

definition key_string :: "PairKey \<Rightarrow> string" where
  "key_string k = pkToken0 k @ '':'' @ pkToken1 k"

definition DefaultConfig :: "'f MathOps \<Rightarrow> 'f PairConfig" where
  "DefaultConfig F = \<lparr>pcEnabled = True, pcMode = ''shadow'', pcMaxTrackedPairs = 16, pcMaxShadowPairs = 8, pcMaxDynamicAssets = 4,
     pcMaxLivePairs = 2, pcMaxLiveDynamicAssets = 2, pcMinObservation = 3600 * 10 ^ 9, pcMaxRPS = fNum F (1 / 2), pcBurst = 1,
     pcMinScore = fNum F 65, pcMinConfidence = fNum F (7 / 10), pcCooldown = 3600 * 10 ^ 9, pcDislocationThresholdBPS = fNum F 10,
     pcMinVenueDEXes = 2, pcMinQuoteSuccess = fNum F (8 / 10), pcMinDepthScore = fNum F (5 / 10),
     pcMaxFailurePenalty = fNum F (5 / 10), pcMaxIlliquidityPenalty = fNum F (5 / 10), pcMaxScoreDrift = fNum F 15,
     pcEjectWindows = 3\<rparr>"

text \<open>The defaults that \<open>NewMemory\<close> puts in place of unset or non-positive settings.\<close>

definition config_defaults :: "'f MathOps \<Rightarrow> 'f PairConfig \<Rightarrow> 'f PairConfig" where
  "config_defaults F cfg =
     (let at_least = (\<lambda>least v d. if v < least then d else v :: int);
          positive = (\<lambda>v d. if fLe F v (fZero F) then fNum F d else v);
          lasting = (\<lambda>v. if v \<le> 0 then 3600 * 10 ^ 9 else v :: int)
      in cfg\<lparr>pcMaxTrackedPairs := at_least 1 (pcMaxTrackedPairs cfg) 16,
             pcMaxShadowPairs := at_least 1 (pcMaxShadowPairs cfg) 8,
             pcMaxDynamicAssets := at_least 1 (pcMaxDynamicAssets cfg) 4,
             pcMaxLivePairs := at_least 1 (pcMaxLivePairs cfg) 2,
             pcMaxLiveDynamicAssets := at_least 1 (pcMaxLiveDynamicAssets cfg) 2,
             pcMinVenueDEXes := at_least 2 (pcMinVenueDEXes cfg) 2,
             pcMinQuoteSuccess := positive (pcMinQuoteSuccess cfg) (8 / 10),
             pcMinDepthScore := positive (pcMinDepthScore cfg) (5 / 10),
             pcMaxFailurePenalty := positive (pcMaxFailurePenalty cfg) (5 / 10),
             pcMaxIlliquidityPenalty := positive (pcMaxIlliquidityPenalty cfg) (5 / 10),
             pcMaxScoreDrift := positive (pcMaxScoreDrift cfg) 15,
             pcEjectWindows := at_least 1 (pcEjectWindows cfg) 3,
             pcMinObservation := lasting (pcMinObservation cfg),
             pcMinScore := positive (pcMinScore cfg) 65,
             pcMinConfidence := positive (pcMinConfidence cfg) (7 / 10),
             pcCooldown := lasting (pcCooldown cfg),
             pcDislocationThresholdBPS := positive (pcDislocationThresholdBPS cfg) 10\<rparr>)"

definition NewMemory :: "'f MathOps \<Rightarrow> 'f PairConfig \<Rightarrow> 'f Memory" where
  "NewMemory F cfg = \<lparr>meCfg = config_defaults F cfg, meTokens = [], mePairs = [], mePoolPairs = Map.empty,
     meCheckpoints = Map.empty\<rparr>"

definition RegisterToken :: "TokenMeta \<Rightarrow> 'f Memory \<Rightarrow> bool \<times> 'f Memory" where
  "RegisterToken t m =
     (let t = t\<lparr>tmAddress := to_lower (trim_space (tmAddress t))\<rparr>
      in if \<not> validAddress (tmAddress t) \<or> \<not> tmHasCode t \<or> tmDecimals t > 36 then (False, m)
         else (True, m\<lparr>meTokens := AList.update (tmAddress t) t (meTokens m)\<rparr>))"

section \<open>Scores\<close>

definition clamp :: "'f MathOps \<Rightarrow> 'f \<Rightarrow> 'f" where
  "clamp F v = (if fLt F v (fZero F) then fZero F else if fLt F (fNum F 1) v then fNum F 1 else v)"

definition saturate :: "'f MathOps \<Rightarrow> 'f \<Rightarrow> rat \<Rightarrow> 'f" where
  "saturate F v top1 = clamp F (fDiv F v (fNum F top1))"

definition saturateLog :: "'f MathOps \<Rightarrow> 'f \<Rightarrow> rat \<Rightarrow> 'f" where
  "saturateLog F v top1 =
     (if fLe F v (fZero F) then fZero F else clamp F (fDiv F (fLog1p F v) (fLog1p F (fNum F top1))))"

definition ema :: "'f MathOps \<Rightarrow> 'f \<Rightarrow> 'f \<Rightarrow> 'f \<Rightarrow> 'f" where
  "ema F a b x = fAdd F (fMul F a (fSub F (fNum F 1) x)) (fMul F b x)"

definition boolFloat :: "'f MathOps \<Rightarrow> bool \<Rightarrow> 'f" where
  "boolFloat F v = (if v then fNum F 1 else fZero F)"

definition fSum :: "'f MathOps \<Rightarrow> 'f list \<Rightarrow> 'f" where
  "fSum F xs = fold (\<lambda>x sum. fAdd F sum x) xs (fZero F)"

text \<open>\<open>now.Unix() / 60\<close>; Go's integer division truncates.\<close>

definition minute_of :: "int \<Rightarrow> int" where
  "minute_of now = big_quo (now div 10 ^ 9) 60"

definition recent :: "int \<Rightarrow> int \<Rightarrow> 'f Bucket list \<Rightarrow> 'f Bucket list" where
  "recent now mins bs = filter (\<lambda>b. minute_of now - mins \<le> bkMinute b) bs"

definition rv :: "'f MathOps \<Rightarrow> 'f Bucket list \<Rightarrow> int \<Rightarrow> int \<Rightarrow> 'f" where
  "rv F bs now mins = fMul F (fSqrt F (fSum F (map bkSquaredLogReturns (recent now mins bs)))) (fNum F 10000)"

definition volume :: "'f MathOps \<Rightarrow> 'f Bucket list \<Rightarrow> int \<Rightarrow> int \<Rightarrow> 'f" where
  "volume F bs now mins = fSum F (map bkVolumeToken0 (recent now mins bs))"

definition dislocation :: "'f MathOps \<Rightarrow> 'f Bucket list \<Rightarrow> int \<Rightarrow> int \<Rightarrow> 'f" where
  "dislocation F bs now mins =
     (let h = sum_list (map bkDislocationHits (recent now mins bs)); n = sum_list (map bkDislocationChecks (recent now mins bs))
      in if n = 0 then fZero F else fDiv F (fOfInt F (uint h)) (fOfInt F (uint n)))"

text \<open>The entries of a map in the order of a range statement.\<close>

definition range_map :: "(string list \<Rightarrow> string list) \<Rightarrow> (string \<times> 'a) list \<Rightarrow> (string \<times> 'a) list" where
  "range_map ord m = List.map_filter (\<lambda>k. map_option (Pair k) (map_of m k)) (ord (map fst m))"

definition venues_of :: "(string list \<Rightarrow> string list) \<Rightarrow> 'f Pair \<Rightarrow> 'f Venue list" where
  "venues_of ord p = map snd (range_map ord (paVenues p))"

definition venueDiversity :: "'f MathOps \<Rightarrow> 'f Pair \<Rightarrow> 'f" where
  "venueDiversity F p =
     (let s = card (set (map (veDEX \<circ> snd) (filter (\<lambda>(_, v). fLt F (fZero F) (veLastPrice v)) (paVenues p))))
      in if s \<ge> 2 then fNum F 1 else if s = 1 then fNum F (25 / 100) else fZero F)"

definition average :: "'f MathOps \<Rightarrow> 'f \<Rightarrow> 'f list \<Rightarrow> 'f" where
  "average F none xs = (if xs = [] then none else fDiv F (fSum F xs) (fOfInt F (int (length xs))))"

definition quoteSuccess :: "'f MathOps \<Rightarrow> (string list \<Rightarrow> string list) \<Rightarrow> 'f Pair \<Rightarrow> 'f" where
  "quoteSuccess F ord p =
     average F (fNum F (5 / 10)) (map veQuoteSuccessEMA (filter (\<lambda>v. veQuoteObservations v > 0) (venues_of ord p)))"

definition quoteObservations :: "'f Pair \<Rightarrow> u64" where
  "quoteObservations p = sum_list (map (veQuoteObservations \<circ> snd) (paVenues p))"

definition depths_of :: "(string list \<Rightarrow> string list) \<Rightarrow> 'f Pair \<Rightarrow> 'f Depth list" where
  "depths_of ord p = concat (map (\<lambda>v. map snd (range_map ord (veDepth v))) (venues_of ord p))"

definition depthScore :: "'f MathOps \<Rightarrow> (string list \<Rightarrow> string list) \<Rightarrow> 'f Pair \<Rightarrow> 'f" where
  "depthScore F ord p = average F (fZero F) (map dpScore (depths_of ord p))"

definition pairDepth :: "'f MathOps \<Rightarrow> (string list \<Rightarrow> string list) \<Rightarrow> 'f Pair \<Rightarrow> 'f" where
  "pairDepth F ord p =
     average F (fZero F) (map (\<lambda>d. fMul F (dpAmountInNormalized d) (dpScore d))
       (filter (\<lambda>d. dpSuccessful d \<and> fLt F (fZero F) (dpAmountInNormalized d)) (depths_of ord p)))"

text \<open>\<open>Duration.Seconds()\<close>.\<close>

definition seconds :: "'f MathOps \<Rightarrow> int \<Rightarrow> 'f" where
  "seconds F d = fAdd F (fOfInt F (big_quo d (10 ^ 9))) (fDiv F (fOfInt F (big_rem d (10 ^ 9))) (fNum F (10 ^ 9)))"

definition pair_components :: "'f MathOps \<Rightarrow> (string list \<Rightarrow> string list) \<Rightarrow> int \<Rightarrow> 'f Pair \<Rightarrow> 'f Components" where
  "pair_components F ord now p =
     (let bs = paBuckets p; rv5 = rv F bs now 5; rv60 = rv F bs now 60; rv240 = rv F bs now 240;
          v60 = volume F bs now 60; v1440 = volume F bs now 1440;
          depth = fMax F (pairDepth F ord p) (fNum F (1 / 1000000));
          t60 = fDiv F v60 depth; t1440 = fDiv F v1440 depth
      in \<lparr>coRV5m = rv5, coRV1h = rv60, coRV4h = rv240, coVolume1h = v60, coVolume24h = v1440, coTurnover1h = t60, coTurnover24h = t1440,
          coRV = fAdd F (fAdd F (fMul F (fNum F (45 / 100)) (saturate F rv5 500)) (fMul F (fNum F (35 / 100)) (saturate F rv60 1500)))
                   (fMul F (fNum F (20 / 100)) (saturate F rv240 3000)),
          coVolume = fAdd F (fMul F (fNum F (60 / 100)) (saturateLog F t60 20)) (fMul F (fNum F (40 / 100)) (saturateLog F t1440 100)),
          coDepth = depthScore F ord p, coVenueDiversity = venueDiversity F p, coQuoteSuccess = quoteSuccess F ord p,
          coDislocationFrequency = dislocation F bs now 240, coFailurePenalty = paFailureEMA p,
          coIlliquidityPenalty = paIlliquidityEMA p\<rparr>)"

definition pair_score :: "'f MathOps \<Rightarrow> 'f Components \<Rightarrow> 'f" where
  "pair_score F c =
     (let times = (\<lambda>q x. fMul F (fNum F q) x)
      in fMul F (fNum F 100) (clamp F
           (fSub F (fSub F (fAdd F (fAdd F (fAdd F (fAdd F (fAdd F (times (20 / 100) (coRV c)) (times (15 / 100) (coVolume c)))
             (times (25 / 100) (coDepth c))) (times (15 / 100) (coVenueDiversity c))) (times (10 / 100) (coQuoteSuccess c)))
             (times (15 / 100) (coDislocationFrequency c))) (times (15 / 100) (coFailurePenalty c)))
             (times (20 / 100) (coIlliquidityPenalty c)))))"

definition pair_confidence :: "'f MathOps \<Rightarrow> 'f PairConfig \<Rightarrow> int \<Rightarrow> 'f Components \<Rightarrow> 'f Pair \<Rightarrow> 'f" where
  "pair_confidence F cfg now c p =
     (let ageScore = fMin F (fNum F 1) (fDiv F (seconds F (now - paFirstObserved p)) (seconds F (pcMinObservation cfg)));
          obsScore = fMin F (fNum F 1) (fDiv F (fOfInt F (uint (paSwapCount p + quoteObservations p))) (fNum F 20));
          windowScore = fMin F (fNum F 1) (fDiv F (fOfInt F (int (length (paBuckets p)))) (fNum F 60))
      in clamp F (fAdd F (fAdd F (fAdd F (fMul F (fNum F (35 / 100)) ageScore) (fMul F (fNum F (30 / 100)) obsScore))
           (fMul F (fNum F (20 / 100)) windowScore)) (fMul F (fNum F (15 / 100)) (coVenueDiversity c))))"

definition scoreLocked :: "'f MathOps \<Rightarrow> (string list \<Rightarrow> string list) \<Rightarrow> 'f PairConfig \<Rightarrow> int \<Rightarrow> 'f Pair \<Rightarrow> 'f Pair" where
  "scoreLocked F ord cfg now p =
     (let c = pair_components F ord now p
      in p\<lparr>paComponents := c, paScore := pair_score F c, paConfidence := pair_confidence F cfg now c p\<rparr>)"

section \<open>Observations\<close>

text \<open>\<open>bucketLocked\<close>: the bucket of this minute, appended when there is none, is updated by \<open>f\<close>.\<close>

primrec update_minute :: "int \<Rightarrow> ('f Bucket \<Rightarrow> 'f Bucket) \<Rightarrow> 'f Bucket list \<Rightarrow> 'f Bucket list" where
  "update_minute minute f [] = []"
| "update_minute minute f (b # bs) = (if bkMinute b = minute then f b # bs else b # update_minute minute f bs)"

definition bucketLocked :: "'f MathOps \<Rightarrow> int \<Rightarrow> ('f Bucket \<Rightarrow> 'f Bucket) \<Rightarrow> 'f Pair \<Rightarrow> 'f Pair" where
  "bucketLocked F now f p =
     (let minute = minute_of now
      in if list_ex (\<lambda>b. bkMinute b = minute) (paBuckets p)
         then p\<lparr>paBuckets := update_minute minute f (paBuckets p)\<rparr>
         else let kept = dropWhile (\<lambda>b. bkMinute b < minute - 24 * 60) (paBuckets p @ [new_bucket F minute])
              in p\<lparr>paBuckets := butlast kept @ [f (last kept)]\<rparr>)"

definition canonicalPrice :: "'f MathOps \<Rightarrow> bigint \<Rightarrow> 8 word \<Rightarrow> 8 word \<Rightarrow> 'f" where
  "canonicalPrice F sqrtPrice d0 d1 =
     (case sqrtPrice of
        None \<Rightarrow> fZero F
      | Some s \<Rightarrow>
          if s \<le> 0 then fZero F
          else let r = (of_int s / 2 ^ 96) ^ 2 :: rat
               in fNum F (if d0 > d1 then r * 10 ^ unat (d0 - d1) else if d1 > d0 then r / 10 ^ unat (d1 - d0) else r))"

definition normalizedAbs :: "'f MathOps \<Rightarrow> bigint \<Rightarrow> 8 word \<Rightarrow> 'f" where
  "normalizedAbs F v d = (case v of None \<Rightarrow> fZero F | Some x \<Rightarrow> fNum F (of_int \<bar>x\<bar> / 10 ^ unat d))"

text \<open>The prices seen on two or more exchanges: the check and, when they are far apart, the hit of this minute.\<close>

definition observeDislocationLocked :: "'f MathOps \<Rightarrow> (string list \<Rightarrow> string list) \<Rightarrow> 'f PairConfig \<Rightarrow> int \<Rightarrow> 'f Pair \<Rightarrow> 'f Pair" where
  "observeDislocationLocked F ord cfg now p =
     (let priced = filter (\<lambda>v. fLt F (fZero F) (veLastPrice v)) (venues_of ord p);
          dexes = remdups (map veDEX priced);
          prices = concat (map (\<lambda>dex. map veLastPrice (filter (\<lambda>v. veDEX v = dex) priced)) (ord dexes));
          least = fold (\<lambda>v least. if fEq F least (fZero F) \<or> fLt F v least then v else least) prices (fZero F);
          greatest = fold (\<lambda>v greatest. if fLt F greatest v then v else greatest) prices (fZero F)
      in if length dexes < 2 \<or> fLe F least (fZero F) then p
         else bucketLocked F now (\<lambda>b.
                let b = b\<lparr>bkDislocationChecks := bkDislocationChecks b + 1\<rparr>
                in if fLe F (pcDislocationThresholdBPS cfg)
                        (fMul F (fSub F (fDiv F greatest least) (fNum F 1)) (fNum F 10000))
                   then b\<lparr>bkDislocationHits := bkDislocationHits b + 1\<rparr> else b) p)"

definition stateRank :: "State \<Rightarrow> int" where
  "stateRank s = (case s of Cooled \<Rightarrow> 0 | Observed \<Rightarrow> 1 | Shadow \<Rightarrow> 2 | Admitted \<Rightarrow> 3 | OtherState _ \<Rightarrow> 0)"

text \<open>\<open>pruneLocked\<close>: the pairs that go first, and the removal of one of them.\<close>

definition prune_before :: "'f MathOps \<Rightarrow> 'f Pair \<Rightarrow> 'f Pair \<Rightarrow> bool" where
  "prune_before F a b \<longleftrightarrow>
     (if paState a \<noteq> paState b then stateRank (paState a) < stateRank (paState b)
      else if \<not> fEq F (paScore a) (paScore b) then fLt F (paScore a) (paScore b)
      else paLastObserved a < paLastObserved b)"

definition drop_pair :: "'f Pair \<Rightarrow> 'f Memory \<Rightarrow> 'f Memory" where
  "drop_pair p m = m\<lparr>mePairs := AList.delete (key_string (paKey p)) (mePairs m),
     mePoolPairs := (\<lambda>a. if a \<in> set (map fst (paVenues p)) then None else mePoolPairs m a)\<rparr>"

fun drop_pairs :: "'f Pair list \<Rightarrow> 'f Memory \<Rightarrow> 'f Memory" where
  "drop_pairs [] m = m"
| "drop_pairs (p # ps) m =
     (if int (length (mePairs m)) > pcMaxTrackedPairs (meCfg m) then drop_pairs ps (drop_pair p m) else m)"

definition pruneLocked :: "'f MathOps \<Rightarrow> (string list \<Rightarrow> string list) \<Rightarrow> 'f Memory \<Rightarrow> 'f Memory" where
  "pruneLocked F ord m =
     (if int (length (mePairs m)) \<le> pcMaxTrackedPairs (meCfg m) then m
      else drop_pairs (sort_slice (prune_before F) (map snd (range_map ord (mePairs m)))) m)"

definition fresh_pair :: "'f MathOps \<Rightarrow> PairKey \<Rightarrow> int \<Rightarrow> 'f Pair" where
  "fresh_pair F key now = (no_pair F)\<lparr>paKey := key, paFirstObserved := now, paLastObserved := now, paState := Observed\<rparr>"

definition ensurePairLocked :: "'f MathOps \<Rightarrow> PairKey \<Rightarrow> int \<Rightarrow> 'f Memory \<Rightarrow> 'f Pair" where
  "ensurePairLocked F key now m = (case map_of (mePairs m) (key_string key) of Some p \<Rightarrow> p | None \<Rightarrow> fresh_pair F key now)"

text \<open>The update of the minute's prices in \<open>ObservePool\<close>.\<close>

definition observe_price :: "'f MathOps \<Rightarrow> 'f \<Rightarrow> 'f \<Rightarrow> 'f Bucket \<Rightarrow> 'f Bucket" where
  "observe_price F last_price price b =
     (let b = (if fLt F (fZero F) last_price
               then b\<lparr>bkSquaredLogReturns := fAdd F (bkSquaredLogReturns b) (fPow F (fLog F (fDiv F price last_price)) (fNum F 2))\<rparr> else b);
          b = (if bkPriceObservations b = 0 then b\<lparr>bkPriceOpen := price, bkPriceHigh := price, bkPriceLow := price\<rparr> else b);
          b = (if fLt F (bkPriceHigh b) price then b\<lparr>bkPriceHigh := price\<rparr> else b);
          b = (if fEq F (bkPriceLow b) (fZero F) \<or> fLt F price (bkPriceLow b) then b\<lparr>bkPriceLow := price\<rparr> else b)
      in b\<lparr>bkPriceClose := price, bkPriceObservations := bkPriceObservations b + 1\<rparr>)"

definition pool_price :: "'f MathOps \<Rightarrow> PairKey \<Rightarrow> 8 word \<Rightarrow> 8 word \<Rightarrow> Pool \<Rightarrow> 'f" where
  "pool_price F key d0 d1 pool =
     (let price = canonicalPrice F (pSqrtPriceX96 pool) d0 d1
      in if \<not> equal_fold (pToken0 pool) (pkToken0 key) \<and> fLt F (fZero F) price then fDiv F (fNum F 1) price else price)"

definition observe_venue :: "'f MathOps \<Rightarrow> int \<Rightarrow> 'f \<Rightarrow> Pool \<Rightarrow> 'f Pair \<Rightarrow> 'f Pair" where
  "observe_venue F now price pool p =
     (let a = to_lower (pAddress pool);
          v = (case map_of (paVenues p) a of Some v \<Rightarrow> v | None \<Rightarrow> no_venue F);
          v = v\<lparr>vePool := a, veDEX := pDEX pool, veFee := pFee pool, veLastUpdatedBlock := pLastUpdatedBlock pool\<rparr>;
          good = fLt F (fZero F) price \<and> fFinite F price;
          v = (if good then v\<lparr>veLastPrice := price\<rparr> else v);
          p = (if good then (bucketLocked F now (observe_price F (paLastPrice p) price) p)\<lparr>paLastPrice := price\<rparr> else p)
      in p\<lparr>paVenues := AList.update a v (paVenues p), paLastObserved := now\<rparr>)"

definition mem_ObservePool :: "'f MathOps \<Rightarrow> (string list \<Rightarrow> string list) \<Rightarrow> Pool \<Rightarrow> int \<Rightarrow> 'f Memory \<Rightarrow> 'f Memory" where
  "mem_ObservePool F ord pool now m =
     (case CanonicalPair (pToken0 pool) (pToken1 pool) of
        None \<Rightarrow> m
      | Some key \<Rightarrow>
          (case (map_of (meTokens m) (pkToken0 key), map_of (meTokens m) (pkToken1 key)) of
             (Some t0, Some t1) \<Rightarrow>
               let p = observe_venue F now (pool_price F key (tmDecimals t0) (tmDecimals t1) pool) pool (ensurePairLocked F key now m);
                   p = scoreLocked F ord (meCfg m) now (observeDislocationLocked F ord (meCfg m) now p)
               in pruneLocked F ord
                    (m\<lparr>mePairs := AList.update (key_string key) p (mePairs m),
                       mePoolPairs := (mePoolPairs m)(to_lower (pAddress pool) \<mapsto> key_string (paKey p))\<rparr>)
           | _ \<Rightarrow> m))"

text \<open>\<open>pairByPoolLocked\<close>: the key under which the pair of a pool is stored, with the index it may complete.\<close>

definition pairByPoolLocked :: "(string list \<Rightarrow> string list) \<Rightarrow> string \<Rightarrow> 'f Memory \<Rightarrow> string option \<times> 'f Memory" where
  "pairByPoolLocked ord pool m =
     (let a = to_lower pool; k = (case mePoolPairs m a of Some k \<Rightarrow> k | None \<Rightarrow> '''')
      in if k \<noteq> '''' then (if map_of (mePairs m) k = None then None else Some k, m)
         else case filter (\<lambda>(_, p). map_of (paVenues p) a \<noteq> None) (range_map ord (mePairs m)) of
                [] \<Rightarrow> (None, m)
              | (k, _) # _ \<Rightarrow> (Some k, m\<lparr>mePoolPairs := (mePoolPairs m)(a \<mapsto> k)\<rparr>))"

definition decimals_in :: "'f Memory \<Rightarrow> string \<Rightarrow> 8 word" where
  "decimals_in m a = (case map_of (meTokens m) a of Some t \<Rightarrow> tmDecimals t | None \<Rightarrow> 0)"

definition core_in :: "'f Memory \<Rightarrow> string \<Rightarrow> bool" where
  "core_in m a = (case map_of (meTokens m) a of Some t \<Rightarrow> tmCore t | None \<Rightarrow> False)"

definition swap_volume :: "'f MathOps \<Rightarrow> 'f \<Rightarrow> 'f \<Rightarrow> 'f \<Rightarrow> 'f Bucket \<Rightarrow> 'f Bucket" where
  "swap_volume F price a0 a1 b =
     (let b = b\<lparr>bkVolumeToken0 := fAdd F (bkVolumeToken0 b)
            (if fLt F (fZero F) price then fMul F (fNum F (1 / 2)) (fAdd F a0 (fDiv F a1 price)) else a0)\<rparr>
      in b\<lparr>bkSwaps := bkSwaps b + 1\<rparr>)"

definition mem_ObserveSwap :: "'f MathOps \<Rightarrow> (string list \<Rightarrow> string list) \<Rightarrow> Swap \<Rightarrow> int \<Rightarrow> 'f Memory \<Rightarrow> 'f Memory" where
  "mem_ObserveSwap F ord swap now m =
     (case pairByPoolLocked ord (sPool swap) m of
        (None, m) \<Rightarrow> m
      | (Some k, m) \<Rightarrow>
          (case map_of (mePairs m) k of
             None \<Rightarrow> m
           | Some p \<Rightarrow>
               let a0 = normalizedAbs F (Some (sAmount0 swap)) (decimals_in m (pkToken0 (paKey p)));
                   a1 = normalizedAbs F (Some (sAmount1 swap)) (decimals_in m (pkToken1 (paKey p)));
                   p = bucketLocked F now (swap_volume F (paLastPrice p) a0 a1) p;
                   p = p\<lparr>paSwapCount := paSwapCount p + 1, paLastObserved := now\<rparr>
               in m\<lparr>mePairs := AList.update k (scoreLocked F ord (meCfg m) now p) (mePairs m)\<rparr>))"

definition probed_venue :: "'f MathOps \<Rightarrow> 'f Depth \<Rightarrow> 'f Venue \<Rightarrow> 'f Venue" where
  "probed_venue F d v =
     (let success = boolFloat F (dpSuccessful d); alpha = fNum F (25 / 100)
      in v\<lparr>veQuoteSuccessEMA := (if veQuoteObservations v = 0 then success else ema F (veQuoteSuccessEMA v) success alpha),
           veFailureEMA := ema F (veFailureEMA v) (fSub F (fNum F 1) success) alpha,
           veQuoteObservations := veQuoteObservations v + 1,
           veDepth := AList.update (dpDirection d @ '':'' @ dpBucket d) d (veDepth v)\<rparr>)"

text \<open>The clock is read once for the cooldown and once for the score.\<close>

definition probed_pair :: "'f MathOps \<Rightarrow> (string list \<Rightarrow> string list) \<Rightarrow> 'f PairConfig \<Rightarrow> string \<Rightarrow> 'f Depth \<Rightarrow> int \<Rightarrow> int \<Rightarrow> 'f Pair \<Rightarrow> 'f Pair" where
  "probed_pair F ord cfg pool d now1 now2 p =
     (let v = probed_venue F d (case map_of (paVenues p) (to_lower pool) of Some v \<Rightarrow> v | None \<Rightarrow> no_venue F);
          alpha = fNum F (25 / 100); success = boolFloat F (dpSuccessful d);
          p = p\<lparr>paVenues := AList.update (vePool v) v (paVenues p),
                paFailureEMA := ema F (paFailureEMA p) (fSub F (fNum F 1) success) alpha,
                paIlliquidityEMA := ema F (paIlliquidityEMA p)
                  (boolFloat F (\<not> dpSuccessful d \<or> fLt F (dpScore d) (fNum F (35 / 100)))) alpha\<rparr>;
          p = (if fLt F (fNum F (80 / 100)) (paFailureEMA p) \<or> fLt F (fNum F (80 / 100)) (paIlliquidityEMA p)
               then p\<lparr>paState := Cooled, paCooldownUntil := now1 + pcCooldown cfg\<rparr> else p)
      in scoreLocked F ord cfg now2 p)"

definition RecordDepth :: "'f MathOps \<Rightarrow> (string list \<Rightarrow> string list) \<Rightarrow> string \<Rightarrow> 'f Depth \<Rightarrow> int \<Rightarrow> int \<Rightarrow> 'f Memory \<Rightarrow> 'f Memory" where
  "RecordDepth F ord pool d now1 now2 m =
     (case pairByPoolLocked ord pool m of
        (None, m) \<Rightarrow> m
      | (Some k, m) \<Rightarrow>
          (case map_of (mePairs m) k of
             None \<Rightarrow> m
           | Some p \<Rightarrow> m\<lparr>mePairs := AList.update k (probed_pair F ord (meCfg m) pool d now1 now2 p) (mePairs m)\<rparr>))"

section \<open>Selection\<close>

text \<open>
  \<open>clonePair\<close> goes through JSON, which has no NaN and no infinity: encoding a pair that holds one fails, and the copy
  is the zero pair.
\<close>

definition depth_floats :: "'f Depth \<Rightarrow> 'f list" where
  "depth_floats d = [dpAmountInNormalized d, dpPriceImpactBPS d, dpScore d]"

definition venue_floats :: "'f Venue \<Rightarrow> 'f list" where
  "venue_floats v = [veLastPrice v, veQuoteSuccessEMA v, veFailureEMA v] @ concat (map (depth_floats \<circ> snd) (veDepth v))"

definition bucket_floats :: "'f Bucket \<Rightarrow> 'f list" where
  "bucket_floats b = [bkPriceOpen b, bkPriceHigh b, bkPriceLow b, bkPriceClose b, bkSquaredLogReturns b, bkVolumeToken0 b]"

definition component_floats :: "'f Components \<Rightarrow> 'f list" where
  "component_floats c = [coRV5m c, coRV1h c, coRV4h c, coVolume1h c, coVolume24h c, coTurnover1h c, coTurnover24h c, coRV c,
     coVolume c, coDepth c, coVenueDiversity c, coQuoteSuccess c, coDislocationFrequency c, coFailurePenalty c,
     coIlliquidityPenalty c]"

definition pair_floats :: "'f Pair \<Rightarrow> 'f list" where
  "pair_floats p = [paLastPrice p, paFailureEMA p, paIlliquidityEMA p, paScore p, paConfidence p] @ paRecentScores p
     @ concat (map (venue_floats \<circ> snd) (paVenues p)) @ concat (map bucket_floats (paBuckets p)) @ component_floats (paComponents p)"

definition clonePair :: "'f MathOps \<Rightarrow> 'f Pair \<Rightarrow> 'f Pair" where
  "clonePair F p = (if list_all (fFinite F) (pair_floats p) then p else no_pair F)"

definition rank_before :: "'f MathOps \<Rightarrow> 'f Pair \<Rightarrow> 'f Pair \<Rightarrow> bool" where
  "rank_before F a b \<longleftrightarrow>
     (if \<not> fEq F (paScore a) (paScore b) then fLt F (paScore b) (paScore a)
      else key_string (paKey a) < key_string (paKey b))"

definition pair_tokens :: "PairKey \<Rightarrow> string list" where
  "pair_tokens k = [pkToken0 k, pkToken1 k]"

text \<open>The tokens that a pair adds to the ones outside the core already taken.\<close>

definition added_assets :: "'f Memory \<Rightarrow> string list \<Rightarrow> 'f Pair \<Rightarrow> string list" where
  "added_assets m taken p = filter (\<lambda>a. \<not> core_in m a \<and> a \<notin> set taken) (pair_tokens (paKey p))"

definition set_state :: "string \<Rightarrow> State \<Rightarrow> 'f Memory \<Rightarrow> 'f Memory" where
  "set_state k s m = m\<lparr>mePairs := AList.map_entry k (\<lambda>p. p\<lparr>paState := s\<rparr>) (mePairs m)\<rparr>"

definition map_pairs :: "('f Pair \<Rightarrow> 'f Pair) \<Rightarrow> 'f Memory \<Rightarrow> 'f Memory" where
  "map_pairs f m = m\<lparr>mePairs := map (\<lambda>(k, p). (k, f p)) (mePairs m)\<rparr>"

definition shadow_ready :: "'f MathOps \<Rightarrow> 'f PairConfig \<Rightarrow> int \<Rightarrow> 'f Pair \<Rightarrow> bool" where
  "shadow_ready F cfg now p \<longleftrightarrow> paState p \<noteq> Cooled \<and> pcMinObservation cfg \<le> now - paFirstObserved p
     \<and> fLe F (pcMinScore cfg) (paScore p) \<and> fLe F (pcMinConfidence cfg) (paConfidence p)"

definition shadow_review :: "'f MathOps \<Rightarrow> (string list \<Rightarrow> string list) \<Rightarrow> 'f PairConfig \<Rightarrow> int \<Rightarrow> 'f Pair \<Rightarrow> 'f Pair" where
  "shadow_review F ord cfg now p =
     (let p = scoreLocked F ord cfg now p
      in if paState p = Cooled \<and> \<not> now < paCooldownUntil p then p\<lparr>paState := Observed\<rparr> else p)"

fun shadow_picks :: "'f MathOps \<Rightarrow> int \<Rightarrow> (string \<times> 'f Pair) list \<Rightarrow> 'f Pair list \<Rightarrow> string list \<Rightarrow> 'f Memory \<Rightarrow> 'f Pair list \<times> 'f Memory" where
  "shadow_picks F limit [] out taken m = (out, m)"
| "shadow_picks F limit ((k, p) # cs) out taken m =
     (if int (length out) \<ge> limit then (out, m)
      else let added = added_assets m taken p
           in if int (length taken + length added) > pcMaxDynamicAssets (meCfg m) then shadow_picks F limit cs out taken m
              else shadow_picks F limit cs (out @ [clonePair F (p\<lparr>paState := Shadow\<rparr>)]) (taken @ remdups added) (set_state k Shadow m))"

definition SelectShadow :: "'f MathOps \<Rightarrow> (string list \<Rightarrow> string list) \<Rightarrow> int \<Rightarrow> 'f Memory \<Rightarrow> 'f Pair list \<times> 'f Memory" where
  "SelectShadow F ord now m =
     (let m = map_pairs (shadow_review F ord (meCfg m) now) m;
          cs = sort_slice (\<lambda>a b. rank_before F (snd a) (snd b))
                 (filter (\<lambda>(_, p). shadow_ready F (meCfg m) now p) (range_map ord (mePairs m)));
          m = map_pairs (\<lambda>p. if paState p = Shadow then p\<lparr>paState := Observed\<rparr> else p) m;
          limit = min (pcMaxShadowPairs (meCfg m)) (int (length cs))
      in shadow_picks F limit cs [] [] m)"

definition score_drift :: "'f MathOps \<Rightarrow> 'f list \<Rightarrow> 'f" where
  "score_drift F xs =
     (case xs of
        [] \<Rightarrow> fZero F
      | x # rest \<Rightarrow>
          let least = fold (\<lambda>s lo. if fLt F s lo then s else lo) rest x; greatest = fold (\<lambda>s hi. if fLt F hi s then s else hi) rest x
          in fSub F greatest least)"

definition liveQualifiedLocked :: "'f MathOps \<Rightarrow> int \<Rightarrow> 'f Memory \<Rightarrow> 'f Pair \<Rightarrow> bool" where
  "liveQualifiedLocked F now m p \<longleftrightarrow>
     (let cfg = meCfg m; c = paComponents p
      in \<not> (paState p = Cooled \<and> now < paCooldownUntil p)
       \<and> \<not> (now - paFirstObserved p < pcMinObservation cfg \<or> fLt F (paScore p) (pcMinScore cfg)
            \<or> fLt F (paConfidence p) (pcMinConfidence cfg))
       \<and> \<not> (int (card (set (map (veDEX \<circ> snd) (paVenues p)))) < pcMinVenueDEXes cfg
            \<or> \<not> list_ex (core_in m) (pair_tokens (paKey p)))
       \<and> \<not> (fLt F (coQuoteSuccess c) (pcMinQuoteSuccess cfg) \<or> fLt F (coDepth c) (pcMinDepthScore cfg)
            \<or> fLt F (pcMaxFailurePenalty cfg) (coFailurePenalty c) \<or> fLt F (pcMaxIlliquidityPenalty cfg) (coIlliquidityPenalty c))
       \<and> \<not> length (paRecentScores p) < 3
       \<and> fLe F (score_drift F (paRecentScores p)) (pcMaxScoreDrift cfg))"

text \<open>
  The first loop of \<open>SelectLive\<close>, for one pair: scored, its score remembered, and its verdict. An admitted pair that no
  longer qualifies is kept until it has failed \<open>EjectWindows\<close> times in a row, and cooled then.
\<close>

definition remember_score :: "'f Pair \<Rightarrow> 'f Pair" where
  "remember_score p =
     (let scores = paRecentScores p @ [paScore p]
      in p\<lparr>paRecentScores := (if length scores > 4 then drop (length scores - 4) scores else scores)\<rparr>)"

definition live_review :: "'f MathOps \<Rightarrow> (string list \<Rightarrow> string list) \<Rightarrow> int \<Rightarrow> 'f Memory \<Rightarrow> 'f Pair \<Rightarrow> 'f Pair" where
  "live_review F ord now m p =
     (let cfg = meCfg m; p = remember_score (scoreLocked F ord cfg now p); qualified = liveQualifiedLocked F now m p
      in if paState p = Admitted \<and> \<not> qualified
         then (if paBelowWindows p + 1 \<ge> pcEjectWindows cfg
               then p\<lparr>paBelowWindows := paBelowWindows p + 1, paState := Cooled, paCooldownUntil := now + pcCooldown cfg\<rparr>
               else p\<lparr>paBelowWindows := paBelowWindows p + 1\<rparr>)
         else if qualified then p\<lparr>paBelowWindows := 0\<rparr> else p)"

text \<open>The verdict, read off the reviewed pair: the counter plays no part in the qualification.\<close>

definition live_kept :: "'f MathOps \<Rightarrow> int \<Rightarrow> 'f Memory \<Rightarrow> 'f Pair \<Rightarrow> bool" where
  "live_kept F now m p \<longleftrightarrow> paState p = Admitted \<and> \<not> liveQualifiedLocked F now m p"

definition live_assets :: "'f Memory \<Rightarrow> 'f Pair list \<Rightarrow> string list" where
  "live_assets m ps = fold (\<lambda>p taken. taken @ remdups (added_assets m taken p)) ps []"

fun live_picks :: "(string \<times> 'f Pair) list \<Rightarrow> string list \<Rightarrow> string list \<Rightarrow> 'f Memory \<Rightarrow> string list \<times> string list \<times> 'f Memory" where
  "live_picks [] selected taken m = (selected, taken, m)"
| "live_picks ((k, p) # cs) selected taken m =
     (if int (length selected) \<ge> pcMaxLivePairs (meCfg m) then (selected, taken, m)
      else if key_string (paKey p) \<in> set selected then live_picks cs selected taken m
      else let added = added_assets m taken p
           in if int (length taken + length added) > pcMaxLiveDynamicAssets (meCfg m) then live_picks cs selected taken m
              else live_picks cs (selected @ [key_string (paKey p)]) (taken @ remdups added) (set_state k Admitted m))"

record 'f AdmissionSnapshot =
  adPairs :: "'f Pair list"
  adTokens :: "TokenMeta list"

definition no_token :: TokenMeta where
  "no_token = \<lparr>tmAddress = '''', tmDecimals = 0, tmHasCode = False, tmCore = False, tmSymbol = ''''\<rparr>"

definition live_snapshot :: "'f MathOps \<Rightarrow> string list \<Rightarrow> string list \<Rightarrow> 'f Memory \<Rightarrow> 'f AdmissionSnapshot" where
  "live_snapshot F selected taken m =
     \<lparr>adPairs = sort_slice (\<lambda>a b. key_string (paKey a) < key_string (paKey b))
        (map (\<lambda>k. case map_of (mePairs m) k of Some p \<Rightarrow> clonePair F p | None \<Rightarrow> no_pair F) selected),
      adTokens = sort_slice (\<lambda>a b. tmAddress a < tmAddress b)
        (map (\<lambda>a. case map_of (meTokens m) a of Some t \<Rightarrow> t | None \<Rightarrow> no_token) taken)\<rparr>"

definition SelectLive :: "'f MathOps \<Rightarrow> (string list \<Rightarrow> string list) \<Rightarrow> int \<Rightarrow> 'f Memory \<Rightarrow> 'f AdmissionSnapshot \<times> 'f Memory" where
  "SelectLive F ord now m =
     (let m = map_pairs (live_review F ord now m) m;
          ranged = range_map ord (mePairs m);
          cs = sort_slice (\<lambda>a b. rank_before F (snd a) (snd b)) (filter (\<lambda>(_, p). liveQualifiedLocked F now m p) ranged);
          kept = map snd (filter (\<lambda>(_, p). live_kept F now m p) ranged)
      in case live_picks cs (remdups (map (key_string \<circ> paKey) kept)) (live_assets m kept) m of
           (selected, taken, m) \<Rightarrow>
             let m = map_pairs (\<lambda>p. if paState p = Admitted \<and> key_string (paKey p) \<notin> set selected
                                    then p\<lparr>paState := Observed\<rparr> else p) m
             in (live_snapshot F selected taken m, m))"

section \<open>Reading and storing\<close>

definition PairScore :: "string \<Rightarrow> string \<Rightarrow> 'f Memory \<Rightarrow> 'f option" where
  "PairScore a b m =
     (case CanonicalPair a b of None \<Rightarrow> None | Some k \<Rightarrow> map_option paScore (map_of (mePairs m) (key_string k)))"

definition Tokens :: "'f Memory \<Rightarrow> TokenMeta list" where
  "Tokens m = sort_slice (\<lambda>a b. tmAddress a < tmAddress b) (map snd (meTokens m))"

definition Pairs :: "'f MathOps \<Rightarrow> (string list \<Rightarrow> string list) \<Rightarrow> 'f Memory \<Rightarrow> 'f Pair list" where
  "Pairs F ord m = sort_slice (rank_before F) (map (clonePair F \<circ> snd) (range_map ord (mePairs m)))"

definition round2 :: "'f MathOps \<Rightarrow> 'f \<Rightarrow> 'f" where
  "round2 F v = fDiv F (fRound F (fMul F v (fNum F 100))) (fNum F 100)"

definition Summary :: "'f MathOps \<Rightarrow> (string list \<Rightarrow> string list) \<Rightarrow> 'f Memory \<Rightarrow> string \<times> nat \<times> nat \<times> 'f" where
  "Summary F ord m = (pcMode (meCfg m), length (mePairs m), length (filter (\<lambda>(_, p). paState p = Shadow) (mePairs m)),
     round2 F (fold (\<lambda>(_, p) top1. if fLt F top1 (paScore p) then paScore p else top1) (range_map ord (mePairs m)) (fZero F)))"

definition Checkpoint :: "string \<Rightarrow> 'f Memory \<Rightarrow> u64" where
  "Checkpoint dex m = (case meCheckpoints m dex of Some b \<Rightarrow> b | None \<Rightarrow> 0)"

definition SetCheckpoint :: "string \<Rightarrow> u64 \<Rightarrow> 'f Memory \<Rightarrow> 'f Memory" where
  "SetCheckpoint dex block m =
     (if block > Checkpoint dex m then m\<lparr>meCheckpoints := (meCheckpoints m)(dex \<mapsto> block)\<rparr> else m)"

definition memory_snapshot :: "'f MathOps \<Rightarrow> (string list \<Rightarrow> string list) \<Rightarrow> int \<Rightarrow> 'f Memory \<Rightarrow> 'f Snapshot" where
  "memory_snapshot F ord now m =
     \<lparr>snVersion = 1, snSavedAt = now, snCheckpoints = meCheckpoints m, snTokens = meTokens m,
      snPairs = sort_slice (\<lambda>a b. key_string (paKey a) < key_string (paKey b)) (map (clonePair F \<circ> snd) (range_map ord (mePairs m)))\<rparr>"

text \<open>The files and the JSON encoding that \<open>Save\<close> and \<open>Load\<close> go through.\<close>

record ('f, 'w) FileOps =
  ioEncode :: "'f Snapshot \<Rightarrow> string result"
  ioDecode :: "string \<Rightarrow> 'f Snapshot result"
  ioMkdirAll :: "string \<Rightarrow> ('w, unit) io"
  ioWriteFile :: "string \<Rightarrow> string \<Rightarrow> ('w, unit) io"
  ioRename :: "string \<Rightarrow> string \<Rightarrow> ('w, unit) io"
  ioReadFile :: "string \<Rightarrow> ('w, string) io"
  ioNotExist :: "string \<Rightarrow> bool"
  ioDir :: "string \<Rightarrow> string"

definition Save :: "('f, 'w) FileOps \<Rightarrow> 'f MathOps \<Rightarrow> (string list \<Rightarrow> string list) \<Rightarrow> int \<Rightarrow> string \<Rightarrow> 'f Memory \<Rightarrow> ('w, unit) io" where
  "Save io F ord now path m =
     (if trim_space path = '''' then ret ()
      else bindE (lift_res (ioEncode io (memory_snapshot F ord now m))) (\<lambda>data.
           bindE (ioMkdirAll io (ioDir io path)) (\<lambda>_.
           bindE (ioWriteFile io (path @ ''.tmp'') data) (\<lambda>_.
           ioRename io (path @ ''.tmp'') path))))"

definition load_pair :: "'f Pair \<Rightarrow> 'f Memory \<Rightarrow> 'f Memory" where
  "load_pair p m = m\<lparr>mePairs := AList.update (key_string (paKey p)) p (mePairs m),
     mePoolPairs := fold (\<lambda>a i. i(to_lower a \<mapsto> key_string (paKey p))) (map fst (paVenues p)) (mePoolPairs m)\<rparr>"

definition restore :: "'f MathOps \<Rightarrow> (string list \<Rightarrow> string list) \<Rightarrow> 'f PairConfig \<Rightarrow> 'f Snapshot \<Rightarrow> 'f Memory result" where
  "restore F ord cfg s =
     (if snVersion s \<noteq> 1 then Inl (''unsupported pair memory version '' @ show_int (snVersion s))
      else Inr (pruneLocked F ord (fold load_pair (snPairs s)
             ((NewMemory F cfg)\<lparr>meTokens := snTokens s, meCheckpoints := snCheckpoints s\<rparr>))))"

definition Load :: "('f, 'w) FileOps \<Rightarrow> 'f MathOps \<Rightarrow> (string list \<Rightarrow> string list) \<Rightarrow> string \<Rightarrow> 'f PairConfig \<Rightarrow> ('w, 'f Memory) io" where
  "Load io F ord path cfg w =
     (case ioReadFile io path w of
        (Inl err, w) \<Rightarrow> (if ioNotExist io err then Inr (NewMemory F cfg) else Inl err, w)
      | (Inr data, w) \<Rightarrow>
          (case ioDecode io data of Inl err \<Rightarrow> (Inl err, w) | Inr s \<Rightarrow> (restore F ord cfg s, w)))"

section \<open>Histories\<close>

text \<open>What the service does with the memory, each operation with the order of the ranges it makes.\<close>

datatype 'f pair_op =
    Register TokenMeta
  | Pool_Seen Pool int
  | Swap_Seen Swap int
  | Depth_Probed string "'f Depth" int int
  | Shadow_Tick int
  | Live_Tick int
  | Scanned string u64

fun apply_op :: "'f MathOps \<Rightarrow> (string list \<Rightarrow> string list) \<Rightarrow> 'f pair_op \<Rightarrow> 'f Memory \<Rightarrow> 'f Memory" where
  "apply_op F ord (Register t) m = snd (RegisterToken t m)"
| "apply_op F ord (Pool_Seen pool now) m = mem_ObservePool F ord pool now m"
| "apply_op F ord (Swap_Seen swap now) m = mem_ObserveSwap F ord swap now m"
| "apply_op F ord (Depth_Probed pool d now1 now2) m = RecordDepth F ord pool d now1 now2 m"
| "apply_op F ord (Shadow_Tick now) m = snd (SelectShadow F ord now m)"
| "apply_op F ord (Live_Tick now) m = snd (SelectLive F ord now m)"
| "apply_op F ord (Scanned dex block) m = SetCheckpoint dex block m"

type_synonym 'f history = "((string list \<Rightarrow> string list) \<times> 'f pair_op) list"

definition run_history :: "'f MathOps \<Rightarrow> 'f history \<Rightarrow> 'f Memory \<Rightarrow> 'f Memory" where
  "run_history F = fold (\<lambda>(ord, op). apply_op F ord op)"

definition is_range :: "(string list \<Rightarrow> string list) \<Rightarrow> bool" where
  "is_range ord \<longleftrightarrow> (\<forall>xs. mset (ord xs) = mset xs)"

lemma is_range_id [simp]: "is_range (\<lambda>xs. xs)" "is_range rev"
  by (simp_all add: is_range_def)

lemma range_map_set:
  assumes "is_range ord" "distinct (map fst m)"
  shows "set (range_map ord m) = set m"
proof -
  have "set (ord (map fst m)) = fst ` set m" using assms(1) unfolding is_range_def by (metis image_set set_mset_mset)
  then show ?thesis using assms(2) unfolding range_map_def
    by (force simp: map_filter_def image_iff intro: rev_image_eqI)
qed

lemma range_map_fst:
  assumes "is_range ord" "distinct (map fst m)"
  shows "mset (map fst (range_map ord m)) = mset (map fst m)" "distinct (range_map ord m)"
proof -
  have s: "set (ord (map fst m)) = fst ` set m" using assms(1) unfolding is_range_def by (metis image_set set_mset_mset)
  have "map fst (List.map_filter (\<lambda>k. map_option (Pair k) (map_of m k)) ks) = ks" if "set ks \<subseteq> fst ` set m" for ks
    using that by (induction ks) (auto simp: map_filter_simps split: option.split dest: weak_map_of_SomeI)
  then have e: "map fst (range_map ord m) = ord (map fst m)" by (simp add: range_map_def s)
  then show "mset (map fst (range_map ord m)) = mset (map fst m)" using assms(1) by (simp add: is_range_def)
  then have "distinct (map fst (range_map ord m))" using assms(2) by (metis mset_eq_imp_distinct_iff)
  then show "distinct (range_map ord m)" by (simp add: distinct_map)
qed

section \<open>The invariant of the memory\<close>

definition pair_ok :: "(string \<times> TokenMeta) list \<Rightarrow> string \<times> 'f Pair \<Rightarrow> bool" where
  "pair_ok tokens = (\<lambda>(k, p).
     k = key_string (paKey p) \<and> CanonicalPair (pkToken0 (paKey p)) (pkToken1 (paKey p)) = Some (paKey p)
     \<and> pkToken0 (paKey p) \<in> fst ` set tokens \<and> pkToken1 (paKey p) \<in> fst ` set tokens
     \<and> distinct (map fst (paVenues p)) \<and> (\<forall>(a, v)\<in>set (paVenues p). vePool v = a \<and> to_lower a = a))"

definition token_ok :: "string \<times> TokenMeta \<Rightarrow> bool" where
  "token_ok = (\<lambda>(a, t). tmAddress t = a \<and> validAddress a \<and> tmHasCode t \<and> tmDecimals t \<le> 36)"

definition index_ok :: "'f Memory \<Rightarrow> bool" where
  "index_ok m \<longleftrightarrow> (\<forall>a k. mePoolPairs m a = Some k \<longrightarrow> (\<exists>p. map_of (mePairs m) k = Some p \<and> a \<in> fst ` set (paVenues p)))"

definition mem_wf :: "'f Memory \<Rightarrow> bool" where
  "mem_wf m \<longleftrightarrow> distinct (map fst (mePairs m)) \<and> distinct (map fst (meTokens m))
     \<and> (\<forall>e\<in>set (mePairs m). pair_ok (meTokens m) e) \<and> (\<forall>e\<in>set (meTokens m). token_ok e) \<and> index_ok m"

definition mem_ok :: "'f Memory \<Rightarrow> bool" where
  "mem_ok m \<longleftrightarrow> mem_wf m \<and> 0 < pcMaxTrackedPairs (meCfg m) \<and> int (length (mePairs m)) \<le> pcMaxTrackedPairs (meCfg m)"

lemma mem_wfD:
  assumes "mem_wf m" "map_of (mePairs m) k = Some p"
  shows "pair_ok (meTokens m) (k, p)" "k = key_string (paKey p)" "distinct (map fst (paVenues p))"
  using assms map_of_SomeD [OF assms(2)] by (auto simp: mem_wf_def pair_ok_def)

lemma set_update_subset: "set (AList.update k v xs) \<subseteq> insert (k, v) (set xs)"
  by (induction xs) auto

text \<open>Writing back a pair under its key, whose venues only grow.\<close>

lemma put_pair_wf:
  assumes wf: "mem_wf m" and ok: "pair_ok (meTokens m) (k, p')"
    and grow: "\<And>p. map_of (mePairs m) k = Some p \<Longrightarrow> fst ` set (paVenues p) \<subseteq> fst ` set (paVenues p')"
  shows "mem_wf (m\<lparr>mePairs := AList.update k p' (mePairs m)\<rparr>)"
proof -
  have "set (AList.update k p' (mePairs m)) \<subseteq> insert (k, p') (set (mePairs m))" by (rule set_update_subset)
  moreover have "\<exists>p. map_of (AList.update k p' (mePairs m)) j = Some p \<and> a \<in> fst ` set (paVenues p)"
    if "mePoolPairs m a = Some j" for a j
  proof -
    from wf have "index_ok m" by (simp add: mem_wf_def)
    with that obtain p where "map_of (mePairs m) j = Some p" "a \<in> fst ` set (paVenues p)" unfolding index_ok_def by blast
    then show ?thesis using grow by (cases "j = k") (auto simp: update_conv')
  qed
  ultimately show ?thesis using wf ok by (simp add: mem_wf_def index_ok_def distinct_update) blast
qed

named_theorems pair_frame \<open>which fields of a pair an update leaves alone\<close>

lemma bucketLocked_frame [pair_frame]:
  "paKey (bucketLocked F now f p) = paKey p" "paVenues (bucketLocked F now f p) = paVenues p"
  "paState (bucketLocked F now f p) = paState p" "paBelowWindows (bucketLocked F now f p) = paBelowWindows p"
  by (simp_all add: bucketLocked_def Let_def)

lemma scoreLocked_frame [pair_frame]:
  "paKey (scoreLocked F ord cfg now p) = paKey p" "paVenues (scoreLocked F ord cfg now p) = paVenues p"
  "paState (scoreLocked F ord cfg now p) = paState p" "paBelowWindows (scoreLocked F ord cfg now p) = paBelowWindows p"
  "paBuckets (scoreLocked F ord cfg now p) = paBuckets p"
  by (simp_all add: scoreLocked_def Let_def)

lemma observeDislocationLocked_frame [pair_frame]:
  "paKey (observeDislocationLocked F ord cfg now p) = paKey p" "paVenues (observeDislocationLocked F ord cfg now p) = paVenues p"
  "paState (observeDislocationLocked F ord cfg now p) = paState p"
  "paBelowWindows (observeDislocationLocked F ord cfg now p) = paBelowWindows p"
  by (simp_all add: observeDislocationLocked_def Let_def pair_frame)

lemma observe_venue_frame [pair_frame]:
  "paKey (observe_venue F now price pool p) = paKey p" "paState (observe_venue F now price pool p) = paState p"
  by (simp_all add: observe_venue_def Let_def pair_frame)

lemma observe_venue_venues:
  "\<exists>v. paVenues (observe_venue F now price pool p) = AList.update (to_lower (pAddress pool)) v (paVenues p)
     \<and> vePool v = to_lower (pAddress pool)"
proof -
  have keep: "vePool (v\<lparr>vePool := b, veDEX := x, veFee := y, veLastUpdatedBlock := z\<rparr>) = b"
    "vePool (v\<lparr>vePool := b, veDEX := x, veFee := y, veLastUpdatedBlock := z, veLastPrice := l\<rparr>) = b"
    for b x y z l and v :: "'a Venue"
    by (cases v, simp)+
  show ?thesis
  proof (cases "fLt F (fZero F) price \<and> fFinite F price")
    case True
    then have "paVenues (observe_venue F now price pool p) = AList.update (to_lower (pAddress pool))
      ((case map_of (paVenues p) (to_lower (pAddress pool)) of Some v \<Rightarrow> v | None \<Rightarrow> no_venue F)\<lparr>vePool := to_lower (pAddress pool),
        veDEX := pDEX pool, veFee := pFee pool, veLastUpdatedBlock := pLastUpdatedBlock pool, veLastPrice := price\<rparr>) (paVenues p)"
      by (simp add: observe_venue_def Let_def pair_frame)
    then show ?thesis using keep(2) by blast
  next
    case False
    then have "paVenues (observe_venue F now price pool p) = AList.update (to_lower (pAddress pool))
      ((case map_of (paVenues p) (to_lower (pAddress pool)) of Some v \<Rightarrow> v | None \<Rightarrow> no_venue F)\<lparr>vePool := to_lower (pAddress pool),
        veDEX := pDEX pool, veFee := pFee pool, veLastUpdatedBlock := pLastUpdatedBlock pool\<rparr>) (paVenues p)"
      by (auto simp: observe_venue_def Let_def pair_frame)
    then show ?thesis using keep(1) by blast
  qed
qed

lemma venues_update_ok:
  assumes "\<forall>(a, v)\<in>set vs. vePool v = a \<and> to_lower a = a" "vePool v = a" "to_lower a = a"
  shows "\<forall>(b, v)\<in>set (AList.update a v vs). vePool v = b \<and> to_lower b = b"
  using assms set_update_subset [of a v vs] by auto

lemma CanonicalPair_idem:
  assumes "CanonicalPair a b = Some k"
  shows "CanonicalPair (pkToken0 k) (pkToken1 k) = Some k"
proof -
  have tr: "trim_space s = s" if "validAddress s" for s
  proof (rule trim_space_no_space)
    have "length s = 42" "has_prefix ''0x'' s" and digits: "\<And>c. c \<in> set (drop 2 s) \<Longrightarrow> 48 \<le> (of_char c :: nat)"
      using that by (auto simp: validAddress_def list_all_iff Let_def)
    then obtain t where s: "s = ''0x'' @ t" by (auto simp: has_prefix_iff)
    show "\<forall>c\<in>set s. \<not> is_space c" using digits by (fastforce simp: s is_space_def)
  qed
  have low: "to_lower s = s" if "s = to_lower t" for s t using that by simp
  show ?thesis using assms by (auto simp: CanonicalPair_def Let_def tr low split: if_splits)
qed

lemma fresh_pair_ok:
  assumes "CanonicalPair a b = Some key" "pkToken0 key \<in> fst ` set tokens" "pkToken1 key \<in> fst ` set tokens"
  shows "pair_ok tokens (key_string key, fresh_pair F key now)"
  using assms CanonicalPair_idem [OF assms(1)] by (simp add: pair_ok_def fresh_pair_def no_pair_def)

lemma map_of_fst: "map_of m k = Some v \<Longrightarrow> k \<in> fst ` set m"
  by (metis domI dom_map_of_conv_image_fst)

lemma observed_pair_ok:
  assumes wf: "mem_wf m" and key: "CanonicalPair a b = Some key"
    and toks: "map_of (meTokens m) (pkToken0 key) = Some t0" "map_of (meTokens m) (pkToken1 key) = Some t1"
    and p': "p' = scoreLocked F ord cfg now (observeDislocationLocked F ord cfg now (observe_venue F now price pool (ensurePairLocked F key now m)))"
  shows "pair_ok (meTokens m) (key_string key, p')" "key_string (paKey p') = key_string key"
    "to_lower (pAddress pool) \<in> fst ` set (paVenues p')"
    "map_of (mePairs m) (key_string key) = Some p \<Longrightarrow> fst ` set (paVenues p) \<subseteq> fst ` set (paVenues p')"
proof -
  let ?e = "ensurePairLocked F key now m"
  have e: "pair_ok (meTokens m) (key_string key, ?e)"
    using fresh_pair_ok [OF key map_of_fst [OF toks(1)] map_of_fst [OF toks(2)], of F now] mem_wfD(1) [OF wf]
    by (simp add: ensurePairLocked_def split: option.split)
  obtain v where v: "paVenues (observe_venue F now price pool ?e) = AList.update (to_lower (pAddress pool)) v (paVenues ?e)"
    "vePool v = to_lower (pAddress pool)" using observe_venue_venues [of F now price pool ?e] by blast
  have frame: "paKey p' = paKey ?e" "paVenues p' = AList.update (to_lower (pAddress pool)) v (paVenues ?e)"
    by (simp_all add: p' pair_frame v(1))
  show "pair_ok (meTokens m) (key_string key, p')"
    using e venues_update_ok [of "paVenues ?e" v "to_lower (pAddress pool)"] v(2)
    by (simp add: pair_ok_def frame distinct_update)
  show "key_string (paKey p') = key_string key" using e by (simp add: frame pair_ok_def)
  show "to_lower (pAddress pool) \<in> fst ` set (paVenues p')"
    by (simp add: frame flip: dom_map_of_conv_image_fst) (simp add: update_conv')
  show "fst ` set (paVenues p) \<subseteq> fst ` set (paVenues p')" if "map_of (mePairs m) (key_string key) = Some p"
  proof -
    have "?e = p" using that by (simp add: ensurePairLocked_def)
    then show ?thesis by (simp add: frame flip: dom_map_of_conv_image_fst) (auto simp: update_conv')
  qed
qed

lemma index_put:
  assumes "index_ok m" "map_of (mePairs m) k = Some p" "a \<in> fst ` set (paVenues p)"
  shows "index_ok (m\<lparr>mePoolPairs := (mePoolPairs m)(a \<mapsto> k)\<rparr>)"
  using assms by (simp add: index_ok_def)

lemma mem_wf_index:
  assumes "mem_wf m" "map_of (mePairs m) k = Some p" "a \<in> fst ` set (paVenues p)"
  shows "mem_wf (m\<lparr>mePoolPairs := (mePoolPairs m)(a \<mapsto> k)\<rparr>)"
  using index_put [OF _ assms(2,3)] assms(1) by (simp add: mem_wf_def)

lemma drop_pair_wf:
  assumes wf: "mem_wf m" and p: "map_of (mePairs m) k = Some p"
  shows "mem_wf (drop_pair p m)"
proof -
  have k: "k = key_string (paKey p)" using mem_wfD [OF assms] by simp
  have "index_ok (drop_pair p m)"
    unfolding index_ok_def
  proof (intro allI impI)
    fix a j assume "mePoolPairs (drop_pair p m) a = Some j"
    then have a: "a \<notin> fst ` set (paVenues p)" "mePoolPairs m a = Some j" by (auto simp: drop_pair_def split: if_splits)
    then obtain q where q: "map_of (mePairs m) j = Some q" "a \<in> fst ` set (paVenues q)"
      using wf unfolding mem_wf_def index_ok_def by blast
    then have "j \<noteq> k" using p a(1) by auto
    then show "\<exists>q. map_of (mePairs (drop_pair p m)) j = Some q \<and> a \<in> fst ` set (paVenues q)"
      using q by (simp add: drop_pair_def k delete_conv')
  qed
  moreover have "set (mePairs (drop_pair p m)) \<subseteq> set (mePairs m)" by (auto simp: drop_pair_def AList.delete_eq)
  ultimately show ?thesis using wf by (auto simp: mem_wf_def drop_pair_def distinct_delete)
qed

lemma drop_pair_simps [simp]:
  "meCfg (drop_pair p m) = meCfg m" "meTokens (drop_pair p m) = meTokens m"
  "mePairs (drop_pair p m) = AList.delete (key_string (paKey p)) (mePairs m)"
  by (simp_all add: drop_pair_def)

lemma drop_pairs_wf:
  assumes "mem_wf m" "distinct (map (key_string \<circ> paKey) ps)" "\<And>p. p \<in> set ps \<Longrightarrow> map_of (mePairs m) (key_string (paKey p)) = Some p"
  shows "mem_wf (drop_pairs ps m)"
  using assms
proof (induction ps arbitrary: m)
  case (Cons p ps)
  have "mem_wf (drop_pair p m)" using drop_pair_wf [OF Cons.prems(1) Cons.prems(3)] by simp
  moreover have "map_of (mePairs (drop_pair p m)) (key_string (paKey q)) = Some q" if "q \<in> set ps" for q
  proof -
    have "key_string (paKey q) \<noteq> key_string (paKey p)" using that Cons.prems(2) by (auto simp: image_iff)
    then show ?thesis using that Cons.prems(3) by (simp add: delete_conv')
  qed
  ultimately show ?case using Cons.IH [of "drop_pair p m"] Cons.prems by simp
qed simp

lemma drop_pairs_simps [simp]: "meCfg (drop_pairs ps m) = meCfg m" "meTokens (drop_pairs ps m) = meTokens m"
  by (induction ps m rule: drop_pairs.induct) auto

lemma drop_pairs_sub: "map_of (mePairs (drop_pairs ps m)) k = Some p \<Longrightarrow> map_of (mePairs m) k = Some p"
  by (induction ps m rule: drop_pairs.induct) (auto simp: delete_conv' split: if_splits)

lemma drop_pairs_enough:
  assumes "0 \<le> pcMaxTrackedPairs (meCfg m)" "fst ` set (mePairs m) \<subseteq> (key_string \<circ> paKey) ` set ps"
  shows "int (length (mePairs (drop_pairs ps m))) \<le> pcMaxTrackedPairs (meCfg m)"
  using assms
proof (induction ps arbitrary: m)
  case (Cons p ps)
  have "fst ` set (mePairs (drop_pair p m)) \<subseteq> (key_string \<circ> paKey) ` set ps"
    using Cons.prems(2) by (auto simp: AList.delete_eq)
  then show ?case using Cons.IH [of "drop_pair p m"] Cons.prems(1) by simp
qed simp

lemma pruneLocked_ok:
  assumes "is_range ord" "mem_wf m" "0 < pcMaxTrackedPairs (meCfg m)"
  shows "mem_ok (pruneLocked F ord m)"
proof -
  have d: "distinct (map fst (mePairs m))" using assms(2) by (simp add: mem_wf_def)
  let ?ps = "sort_slice (prune_before F) (map snd (range_map ord (mePairs m)))"
  have s: "set ?ps = snd ` set (mePairs m)" using range_map_set [OF assms(1) d] by simp
  have key: "p \<in> set ?ps \<Longrightarrow> map_of (mePairs m) (key_string (paKey p)) = Some p" for p
    using assms(2) d unfolding s by (force simp: mem_wf_def pair_ok_def)
  have inj: "fst e = (key_string \<circ> paKey) (snd e)" if "e \<in> set (mePairs m)" for e
    using assms(2) that by (auto simp: mem_wf_def pair_ok_def)
  have "map (key_string \<circ> paKey) (map snd (range_map ord (mePairs m))) = map fst (range_map ord (mePairs m))"
    using inj range_map_set [OF assms(1) d] by simp
  moreover have "distinct (map fst (range_map ord (mePairs m)))"
    using range_map_fst(1) [OF assms(1) d] d by (metis mset_eq_imp_distinct_iff)
  ultimately have "distinct (map (key_string \<circ> paKey) ?ps)" by (metis distinct_map_sort_slice)
  then have wf: "mem_wf (drop_pairs ?ps m)" using drop_pairs_wf [OF assms(2)] key by blast
  have "fst ` set (mePairs m) \<subseteq> (key_string \<circ> paKey) ` set ?ps" using inj unfolding s by (force simp: image_iff)
  then have "int (length (mePairs (drop_pairs ?ps m))) \<le> pcMaxTrackedPairs (meCfg m)"
    using drop_pairs_enough assms(3) by (metis less_imp_le)
  then show ?thesis using wf assms by (simp add: mem_ok_def pruneLocked_def)
qed

lemma pruneLocked_sub: "map_of (mePairs (pruneLocked F ord m)) k = Some p \<Longrightarrow> map_of (mePairs m) k = Some p"
  by (auto simp: pruneLocked_def dest: drop_pairs_sub split: if_splits)

lemma pruneLocked_simps [simp]: "meCfg (pruneLocked F ord m) = meCfg m" "meTokens (pruneLocked F ord m) = meTokens m"
  by (simp_all add: pruneLocked_def)

lemma mem_wf_tokens:
  assumes "mem_wf m" "token_ok (a, t)"
  shows "mem_wf (m\<lparr>meTokens := AList.update a t (meTokens m)\<rparr>)"
proof -
  have "fst ` set (meTokens m) \<subseteq> fst ` set (AList.update a t (meTokens m))"
    by (simp flip: dom_map_of_conv_image_fst) (auto simp: update_conv')
  then have "pair_ok (AList.update a t (meTokens m)) e" if "e \<in> set (mePairs m)" for e
    using assms(1) that by (auto simp: mem_wf_def pair_ok_def)
  then show ?thesis using assms set_update_subset [of a t "meTokens m"]
    by (auto simp: mem_wf_def index_ok_def distinct_update)
qed

lemma mem_ObservePool_ok:
  assumes "is_range ord" "mem_ok m"
  shows "mem_ok (mem_ObservePool F ord pool now m)"
proof (cases "CanonicalPair (pToken0 pool) (pToken1 pool)")
  case (Some key)
  show ?thesis
  proof (cases "map_of (meTokens m) (pkToken0 key) = None \<or> map_of (meTokens m) (pkToken1 key) = None")
    case False
    then obtain t0 t1 where t: "map_of (meTokens m) (pkToken0 key) = Some t0" "map_of (meTokens m) (pkToken1 key) = Some t1" by auto
    define p' where "p' = scoreLocked F ord (meCfg m) now (observeDislocationLocked F ord (meCfg m) now
      (observe_venue F now (pool_price F key (tmDecimals t0) (tmDecimals t1) pool) pool (ensurePairLocked F key now m)))"
    have wf: "mem_wf m" and max: "0 < pcMaxTrackedPairs (meCfg m)" using assms(2) by (simp_all add: mem_ok_def)
    note o = observed_pair_ok [OF wf Some t p'_def]
    have "mem_wf (m\<lparr>mePairs := AList.update (key_string key) p' (mePairs m)\<rparr>)" using put_pair_wf [OF wf o(1)] o(4) by blast
    from mem_wf_index [OF this, of "key_string key" p' "to_lower (pAddress pool)"] o(3)
    have "mem_wf (m\<lparr>mePairs := AList.update (key_string key) p' (mePairs m),
        mePoolPairs := (mePoolPairs m)(to_lower (pAddress pool) \<mapsto> key_string (paKey p'))\<rparr>)"
      by (simp add: o(2) update_conv')
    from pruneLocked_ok [OF assms(1) this, of F] max
    show ?thesis by (simp add: mem_ObservePool_def Some t Let_def flip: p'_def)
  qed (use assms in \<open>auto simp: mem_ObservePool_def Some split: option.split\<close>)
qed (simp add: mem_ObservePool_def assms)

lemma pairByPoolLocked_spec:
  assumes "is_range ord" "mem_wf m" "pairByPoolLocked ord pool m = (r, m')"
  shows "mem_wf m'" "mePairs m' = mePairs m" "meTokens m' = meTokens m" "meCfg m' = meCfg m"
    "r = Some k \<Longrightarrow> \<exists>p. map_of (mePairs m) k = Some p \<and> to_lower pool \<in> fst ` set (paVenues p)"
proof -
  let ?a = "to_lower pool" and ?c = "filter (\<lambda>(_, p). map_of (paVenues p) (to_lower pool) \<noteq> None) (range_map ord (mePairs m))"
  have d: "distinct (map fst (mePairs m))" using assms(2) by (simp add: mem_wf_def)
  have found: "\<exists>p. map_of (mePairs m) j = Some p \<and> ?a \<in> fst ` set (paVenues p)" if "?c = (j, q) # rest" for j q rest
  proof -
    have "(j, q) \<in> set ?c" unfolding that by simp
    then show ?thesis using range_map_set [OF assms(1) d] d by (auto dest: map_of_fst)
  qed
  have "index_ok m" using assms(2) by (simp add: mem_wf_def)
  have "mem_wf m' \<and> mePairs m' = mePairs m \<and> meTokens m' = meTokens m \<and> meCfg m' = meCfg m
    \<and> (r = Some k \<longrightarrow> (\<exists>p. map_of (mePairs m) k = Some p \<and> ?a \<in> fst ` set (paVenues p)))"
  proof (cases "(case mePoolPairs m ?a of Some k \<Rightarrow> k | None \<Rightarrow> '''') \<noteq> ''''")
    case True
    then obtain j where j: "mePoolPairs m ?a = Some j" "j \<noteq> ''''" by (auto split: option.splits)
    then obtain p where "map_of (mePairs m) j = Some p" "?a \<in> fst ` set (paVenues p)"
      using \<open>index_ok m\<close> unfolding index_ok_def by blast
    then show ?thesis using assms(2,3) j by (auto simp: pairByPoolLocked_def Let_def)
  next
    case False
    show ?thesis
    proof (cases ?c)
      case Nil
      then show ?thesis using assms(2,3) False by (simp add: pairByPoolLocked_def Let_def)
    next
      case (Cons e rest)
      then obtain j q where e: "?c = (j, q) # rest" by (cases e) auto
      then obtain p where p: "map_of (mePairs m) j = Some p" "?a \<in> fst ` set (paVenues p)" using found by blast
      from assms(3) have "m' = m\<lparr>mePoolPairs := (mePoolPairs m)(?a \<mapsto> j)\<rparr>" "r = Some j"
        using False unfolding pairByPoolLocked_def Let_def e by auto
      then show ?thesis using p mem_wf_index [OF assms(2) p] by auto
    qed
  qed
  then show "mem_wf m'" "mePairs m' = mePairs m" "meTokens m' = meTokens m" "meCfg m' = meCfg m"
    "r = Some k \<Longrightarrow> \<exists>p. map_of (mePairs m) k = Some p \<and> to_lower pool \<in> fst ` set (paVenues p)" by auto
qed

text \<open>Every operation but the selections changes at most one pair in place.\<close>

lemma put_pair_ok:
  assumes "mem_ok m" "map_of (mePairs m) k = Some p" "pair_ok (meTokens m) (k, p')" "fst ` set (paVenues p) \<subseteq> fst ` set (paVenues p')"
  shows "mem_ok (m\<lparr>mePairs := AList.update k p' (mePairs m)\<rparr>)"
proof -
  have "length (AList.update k p' (mePairs m)) = length (mePairs m)"
    using map_of_fst [OF assms(2)] arg_cong [OF update_keys [of k p' "mePairs m"], of length] by simp
  moreover have "mem_wf (m\<lparr>mePairs := AList.update k p' (mePairs m)\<rparr>)"
    using put_pair_wf [OF _ assms(3)] assms(1,2,4) by (simp add: mem_ok_def)
  ultimately show ?thesis using assms(1) by (simp add: mem_ok_def)
qed

lemma swap_pair_ok:
  "pair_ok tokens (k, p) \<Longrightarrow> pair_ok tokens (k, scoreLocked F ord cfg now ((bucketLocked F now f p)\<lparr>paSwapCount := n, paLastObserved := t\<rparr>))"
  by (simp add: pair_ok_def pair_frame)

lemma mem_ObserveSwap_ok:
  assumes "is_range ord" "mem_ok m"
  shows "mem_ok (mem_ObserveSwap F ord swap now m)"
proof -
  obtain r m' where r: "pairByPoolLocked ord (sPool swap) m = (r, m')" by force
  have wf: "mem_wf m" using assms(2) by (simp add: mem_ok_def)
  note s = pairByPoolLocked_spec [OF assms(1) wf r]
  have ok: "mem_ok m'" using s assms(2) by (simp add: mem_ok_def)
  show ?thesis
  proof (cases "\<exists>k p. r = Some k \<and> map_of (mePairs m') k = Some p")
    case True
    then obtain k p where p: "r = Some k" "map_of (mePairs m') k = Some p" by blast
    have "pair_ok (meTokens m') (k, p)" using mem_wfD(1) [OF s(1) p(2)] .
    from put_pair_ok [OF ok p(2) swap_pair_ok [OF this]]
    show ?thesis using p by (simp add: mem_ObserveSwap_def r Let_def pair_frame)
  qed (use ok in \<open>auto simp: mem_ObserveSwap_def r split: option.split\<close>)
qed

lemma probed_pair_frame:
  "paKey (probed_pair F ord cfg pool d now1 now2 p) = paKey p"
  "paVenues (probed_pair F ord cfg pool d now1 now2 p) =
     (let v = probed_venue F d (case map_of (paVenues p) (to_lower pool) of Some v \<Rightarrow> v | None \<Rightarrow> no_venue F)
      in AList.update (vePool v) v (paVenues p))"
  "paState (probed_pair F ord cfg pool d now1 now2 p) \<in> {paState p, Cooled}"
  by (auto simp: probed_pair_def Let_def pair_frame)

lemma probed_pair_ok:
  assumes "pair_ok tokens (k, p)" "to_lower pool \<in> fst ` set (paVenues p)"
  shows "pair_ok tokens (k, probed_pair F ord cfg pool d now1 now2 p)"
    "fst ` set (paVenues p) \<subseteq> fst ` set (paVenues (probed_pair F ord cfg pool d now1 now2 p))"
proof -
  obtain v where v: "map_of (paVenues p) (to_lower pool) = Some v"
    using assms(2) by (metis dom_map_of_conv_image_fst domD)
  have "vePool v = to_lower pool" using assms(1) map_of_SomeD [OF v] by (auto simp: pair_ok_def)
  then have e: "paVenues (probed_pair F ord cfg pool d now1 now2 p) = AList.update (to_lower pool) (probed_venue F d v) (paVenues p)"
    "vePool (probed_venue F d v) = to_lower pool"
    by (simp_all add: probed_pair_frame v Let_def probed_venue_def)
  show "pair_ok tokens (k, probed_pair F ord cfg pool d now1 now2 p)"
    using assms(1) venues_update_ok [of "paVenues p" "probed_venue F d v" "to_lower pool"]
    by (simp add: pair_ok_def probed_pair_frame(1) e distinct_update)
  show "fst ` set (paVenues p) \<subseteq> fst ` set (paVenues (probed_pair F ord cfg pool d now1 now2 p))"
    by (simp add: e(1) flip: dom_map_of_conv_image_fst) (auto simp: update_conv')
qed

lemma RecordDepth_ok:
  assumes "is_range ord" "mem_ok m"
  shows "mem_ok (RecordDepth F ord pool d now1 now2 m)"
proof -
  obtain r m' where r: "pairByPoolLocked ord pool m = (r, m')" by force
  have wf: "mem_wf m" using assms(2) by (simp add: mem_ok_def)
  note s = pairByPoolLocked_spec [OF assms(1) wf r]
  have ok: "mem_ok m'" using s assms(2) by (simp add: mem_ok_def)
  show ?thesis
  proof (cases r)
    case None
    then show ?thesis using ok by (simp add: RecordDepth_def r)
  next
    case (Some k)
    then obtain p where p: "map_of (mePairs m') k = Some p" "to_lower pool \<in> fst ` set (paVenues p)" using s(2,5) by auto
    note pp = probed_pair_ok [OF mem_wfD(1) [OF s(1) p(1)] p(2)]
    show ?thesis using put_pair_ok [OF ok p(1) pp(1) pp(2)] p Some by (simp add: RecordDepth_def r)
  qed
qed

text \<open>The selections rewrite the pairs, but neither their keys nor their venues.\<close>

definition frames :: "(string \<times> 'f Pair) list \<Rightarrow> (string \<times> PairKey \<times> (string \<times> 'f Venue) list) list" where
  "frames xs = map (\<lambda>(k, p). (k, paKey p, paVenues p)) xs"

lemma frames_fst: "map fst (frames xs) = map fst xs"
  by (induction xs) (auto simp: frames_def)

lemma frames_map_of: "map_of (frames xs) k = map_option (\<lambda>p. (paKey p, paVenues p)) (map_of xs k)"
  by (induction xs) (auto simp: frames_def)

definition same_frame :: "'f Memory \<Rightarrow> 'f Memory \<Rightarrow> bool" where
  "same_frame m m' \<longleftrightarrow> frames (mePairs m') = frames (mePairs m)
     \<and> meTokens m' = meTokens m \<and> meCfg m' = meCfg m \<and> mePoolPairs m' = mePoolPairs m"

lemma same_frame_refl [simp]: "same_frame m m"
  by (simp add: same_frame_def)

lemma same_frame_trans: "same_frame m m' \<Longrightarrow> same_frame m' m'' \<Longrightarrow> same_frame m m''"
  by (simp add: same_frame_def)

lemma same_frame_cfg: "same_frame m m' \<Longrightarrow> meCfg m' = meCfg m \<and> meTokens m' = meTokens m"
  by (simp add: same_frame_def)

lemma same_frame_fst: "same_frame m m' \<Longrightarrow> map fst (mePairs m') = map fst (mePairs m)"
  using frames_fst [of "mePairs m"] frames_fst [of "mePairs m'"] by (simp add: same_frame_def)

lemma same_frame_map_of:
  assumes "same_frame m m'"
  shows "map_option (\<lambda>p. (paKey p, paVenues p)) (map_of (mePairs m') k) = map_option (\<lambda>p. (paKey p, paVenues p)) (map_of (mePairs m) k)"
  using assms frames_map_of [of "mePairs m" k] frames_map_of [of "mePairs m'" k] by (simp add: same_frame_def)

lemma same_frame_ok:
  assumes "same_frame m m'" "mem_ok m"
  shows "mem_ok m'"
proof -
  let ?f = "\<lambda>(k, p). (k, paKey p, paVenues p)"
  have sets: "?f ` set (mePairs m') = ?f ` set (mePairs m)"
    using assms(1) unfolding same_frame_def frames_def by (metis (lifting) image_set)
  have "pair_ok (meTokens m) e" if e: "e \<in> set (mePairs m')" for e
  proof -
    have "?f e \<in> ?f ` set (mePairs m)" using imageI [OF e, of ?f] unfolding sets .
    then obtain e' where e': "e' \<in> set (mePairs m)" "?f e = ?f e'" by blast
    then have "pair_ok (meTokens m) e'" using assms(2) by (simp add: mem_ok_def mem_wf_def)
    then show ?thesis using e'(2) by (auto simp: pair_ok_def split: prod.splits)
  qed
  moreover have "index_ok m'"
    unfolding index_ok_def
  proof (intro allI impI)
    fix a k assume "mePoolPairs m' a = Some k"
    then have "mePoolPairs m a = Some k" using assms(1) by (simp add: same_frame_def)
    then obtain p where p: "map_of (mePairs m) k = Some p" "a \<in> fst ` set (paVenues p)"
      using assms(2) unfolding mem_ok_def mem_wf_def index_ok_def by blast
    then obtain p' where "map_of (mePairs m') k = Some p'" "paVenues p' = paVenues p" using same_frame_map_of [OF assms(1), of k] by auto
    then show "\<exists>p. map_of (mePairs m') k = Some p \<and> a \<in> fst ` set (paVenues p)" using p(2) by simp
  qed
  moreover have "length (mePairs m') = length (mePairs m)" using same_frame_fst [OF assms(1)] by (metis length_map)
  ultimately show ?thesis using assms(2) same_frame_fst [OF assms(1)] same_frame_cfg [OF assms(1)]
    by (simp add: mem_ok_def mem_wf_def)
qed

lemma map_pairs_frame:
  assumes "\<And>p. paKey (f p) = paKey p \<and> paVenues (f p) = paVenues p"
  shows "same_frame m (map_pairs f m)"
proof -
  have "frames (map (\<lambda>(k, p). (k, f p)) xs) = frames xs" for xs
    using assms by (induction xs) (auto simp: frames_def)
  then show ?thesis by (simp add: same_frame_def map_pairs_def)
qed

lemma set_state_frame: "same_frame m (set_state k s m)"
proof -
  have "frames (AList.map_entry k (\<lambda>p. p\<lparr>paState := s\<rparr>) xs) = frames xs" for xs :: "(string \<times> 'a Pair) list"
    by (induction xs) (auto simp: frames_def)
  then show ?thesis by (simp add: same_frame_def set_state_def)
qed

lemma shadow_review_frame: "paKey (shadow_review F ord cfg now p) = paKey p" "paVenues (shadow_review F ord cfg now p) = paVenues p"
  by (simp_all add: shadow_review_def Let_def pair_frame)

lemma live_review_frame: "paKey (live_review F ord now m p) = paKey p" "paVenues (live_review F ord now m p) = paVenues p"
  by (simp_all add: live_review_def remember_score_def Let_def pair_frame)

lemma shadow_picks_frame: "same_frame m (snd (shadow_picks F limit cs out taken m))"
  by (induction F limit cs out taken m rule: shadow_picks.induct)
     (auto simp: Let_def intro: same_frame_trans [OF set_state_frame])

lemma live_picks_frame: "live_picks cs sel taken m = (sel', taken', m') \<Longrightarrow> same_frame m m'"
  by (induction cs sel taken m rule: live_picks.induct)
     (auto simp: Let_def intro: same_frame_trans [OF set_state_frame] split: if_splits)

lemma SelectShadow_frame: "same_frame m (snd (SelectShadow F ord now m))"
  unfolding SelectShadow_def Let_def
  by (intro same_frame_trans [OF _ shadow_picks_frame] same_frame_trans [OF map_pairs_frame map_pairs_frame])
     (simp_all add: shadow_review_frame)

lemma SelectLive_frame: "same_frame m (snd (SelectLive F ord now m))"
proof -
  have f: "same_frame m (map_pairs (live_review F ord now m) m)" by (rule map_pairs_frame) (simp add: live_review_frame)
  show ?thesis
    unfolding SelectLive_def Let_def
    by (auto split: prod.split intro!: same_frame_trans [OF f] dest!: live_picks_frame elim!: same_frame_trans intro: map_pairs_frame)
qed

lemma RegisterToken_ok: "mem_ok m \<Longrightarrow> mem_ok (snd (RegisterToken t m))"
proof -
  assume m: "mem_ok m"
  define t' where "t' = t\<lparr>tmAddress := to_lower (trim_space (tmAddress t))\<rparr>"
  have "mem_wf (m\<lparr>meTokens := AList.update (tmAddress t') t' (meTokens m)\<rparr>)"
    if "validAddress (tmAddress t')" "tmHasCode t'" "tmDecimals t' \<le> 36"
    by (rule mem_wf_tokens) (use m that in \<open>simp_all add: mem_ok_def token_ok_def\<close>)
  then show ?thesis using m by (auto simp: RegisterToken_def mem_ok_def not_less simp flip: t'_def simp: Let_def)
qed

lemma SetCheckpoint_ok: "mem_ok m \<Longrightarrow> mem_ok (SetCheckpoint dex block m)"
  by (auto simp: SetCheckpoint_def mem_ok_def mem_wf_def index_ok_def)

lemma apply_op_ok:
  assumes "is_range ord" "mem_ok m"
  shows "mem_ok (apply_op F ord op m)"
  using assms mem_ObservePool_ok mem_ObserveSwap_ok RecordDepth_ok RegisterToken_ok SetCheckpoint_ok
    same_frame_ok [OF SelectShadow_frame] same_frame_ok [OF SelectLive_frame]
  by (cases op) simp_all

lemma NewMemory_ok: "mem_ok (NewMemory F cfg)"
  by (simp add: NewMemory_def mem_ok_def mem_wf_def index_ok_def config_defaults_def Let_def)

lemma run_history_ok: "list_all (is_range \<circ> fst) h \<Longrightarrow> mem_ok m \<Longrightarrow> mem_ok (run_history F h m)"
  by (induction h arbitrary: m) (auto simp: run_history_def apply_op_ok)

section \<open>The live graph stays within its limits\<close>

definition admitted :: "'f Memory \<Rightarrow> string set" where
  "admitted m = {k. \<exists>p. map_of (mePairs m) k = Some p \<and> paState p = Admitted}"

text \<open>The tokens outside the core that a set of pairs brings in.\<close>

definition assets_of :: "'f Memory \<Rightarrow> string set \<Rightarrow> string set" where
  "assets_of m S = {a. \<exists>k\<in>S. \<exists>p. map_of (mePairs m) k = Some p \<and> a \<in> set (pair_tokens (paKey p)) \<and> \<not> core_in m a}"

definition core_fixed :: "(string \<Rightarrow> bool) \<Rightarrow> 'f Memory \<Rightarrow> bool" where
  "core_fixed core m \<longleftrightarrow> (\<forall>a t. map_of (meTokens m) a = Some t \<longrightarrow> tmCore t = core a)"

definition live_ok :: "'f Memory \<Rightarrow> bool" where
  "live_ok m \<longleftrightarrow> int (card (admitted m)) \<le> pcMaxLivePairs (meCfg m)
     \<and> int (card (assets_of m (admitted m))) \<le> pcMaxLiveDynamicAssets (meCfg m)"

lemma finite_admitted: "finite (admitted m)"
proof -
  have "admitted m \<subseteq> dom (map_of (mePairs m))" by (auto simp: admitted_def)
  then show ?thesis using finite_dom_map_of by (rule finite_subset)
qed

lemma finite_assets: "finite S \<Longrightarrow> finite (assets_of m S)"
proof -
  assume "finite S"
  then have "finite (\<Union>k\<in>S. set (case map_of (mePairs m) k of None \<Rightarrow> [] | Some p \<Rightarrow> pair_tokens (paKey p)))" by blast
  moreover have "assets_of m S \<subseteq> (\<Union>k\<in>S. set (case map_of (mePairs m) k of None \<Rightarrow> [] | Some p \<Rightarrow> pair_tokens (paKey p)))"
  proof
    fix a assume "a \<in> assets_of m S"
    then obtain k p where "k \<in> S" "map_of (mePairs m) k = Some p" "a \<in> set (pair_tokens (paKey p))"
      unfolding assets_of_def by blast
    then show "a \<in> (\<Union>k\<in>S. set (case map_of (mePairs m) k of None \<Rightarrow> [] | Some p \<Rightarrow> pair_tokens (paKey p)))"
      by (intro UN_I [of k]) simp_all
  qed
  ultimately show "finite (assets_of m S)" by (rule rev_finite_subset)
qed

lemma assets_of_mono: "S \<subseteq> T \<Longrightarrow> assets_of m S \<subseteq> assets_of m T"
  by (auto simp: assets_of_def)

lemma assets_of_frame: "same_frame m m' \<Longrightarrow> assets_of m' S = assets_of m S"
proof -
  assume f: "same_frame m m'"
  have "(\<exists>p. map_of (mePairs m') k = Some p \<and> P (paKey p)) \<longleftrightarrow> (\<exists>p. map_of (mePairs m) k = Some p \<and> P (paKey p))" for k P
    using same_frame_map_of [OF f, of k] by (cases "map_of (mePairs m') k"; cases "map_of (mePairs m) k") simp_all
  then have "(\<exists>p. map_of (mePairs m') k = Some p \<and> a \<in> set (pair_tokens (paKey p)) \<and> c)
      \<longleftrightarrow> (\<exists>p. map_of (mePairs m) k = Some p \<and> a \<in> set (pair_tokens (paKey p)) \<and> c)" for k a c .
  moreover have "core_in m' = core_in m" using same_frame_cfg [OF f] by (auto simp: core_in_def)
  ultimately show ?thesis unfolding assets_of_def by simp
qed

text \<open>An operation after which no pair is admitted that was not before keeps the limits.\<close>

definition no_new_live :: "'f Memory \<Rightarrow> 'f Memory \<Rightarrow> bool" where
  "no_new_live m m' \<longleftrightarrow> (\<forall>k p'. map_of (mePairs m') k = Some p' \<and> paState p' = Admitted
     \<longrightarrow> (\<exists>p. map_of (mePairs m) k = Some p \<and> paState p = Admitted \<and> paKey p' = paKey p))"

lemma live_ok_shrink:
  assumes "live_ok m" "no_new_live m m'" "meCfg m' = meCfg m" "\<And>a. core_in m a \<Longrightarrow> core_in m' a"
  shows "live_ok m'"
proof -
  have sub: "admitted m' \<subseteq> admitted m" using assms(2) by (fastforce simp: no_new_live_def admitted_def)
  have "assets_of m' (admitted m') \<subseteq> assets_of m (admitted m)"
  proof
    fix a assume "a \<in> assets_of m' (admitted m')"
    then obtain k p' where p': "map_of (mePairs m') k = Some p'" "paState p' = Admitted" "a \<in> set (pair_tokens (paKey p'))" "\<not> core_in m' a"
      by (auto simp: assets_of_def admitted_def)
    then obtain p where "map_of (mePairs m) k = Some p" "paState p = Admitted" "paKey p' = paKey p"
      using assms(2) unfolding no_new_live_def by blast
    then show "a \<in> assets_of m (admitted m)" using p' assms(4) by (auto simp: assets_of_def admitted_def)
  qed
  from card_mono [OF finite_assets [OF finite_admitted] this] card_mono [OF finite_admitted sub]
  show ?thesis using assms(1,3) by (simp add: live_ok_def)
qed

lemma no_new_live_refl: "mePairs m' = mePairs m \<Longrightarrow> no_new_live m m'"
  by (simp add: no_new_live_def)

lemma no_new_live_trans: "no_new_live m m' \<Longrightarrow> no_new_live m' m'' \<Longrightarrow> no_new_live m m''"
  unfolding no_new_live_def by metis

lemma no_new_live_put:
  assumes "paState p' = Admitted \<Longrightarrow> \<exists>p. map_of (mePairs m) k = Some p \<and> paState p = Admitted \<and> paKey p' = paKey p"
    and "mePairs m' = AList.update k p' (mePairs m)"
  shows "no_new_live m m'"
  using assms by (auto simp: no_new_live_def update_conv')

lemma ObservePool_no_new: "no_new_live m (mem_ObservePool F ord pool now m)"
proof -
  have step: "no_new_live m (m\<lparr>mePairs := AList.update (key_string key) p' (mePairs m), mePoolPairs := i\<rparr>)"
    if "p' = scoreLocked F ord (meCfg m) now (observeDislocationLocked F ord (meCfg m) now (observe_venue F now price pool (ensurePairLocked F key now m)))"
    for p' key i price
    by (rule no_new_live_put [where p' = p' and k = "key_string key"])
       (auto simp: that pair_frame ensurePairLocked_def fresh_pair_def split: option.splits)
  have prune: "no_new_live m' (pruneLocked F ord m')" for m' by (auto simp: no_new_live_def dest: pruneLocked_sub)
  show ?thesis
    by (auto simp: mem_ObservePool_def Let_def no_new_live_refl split: option.split intro!: no_new_live_trans [OF step [OF refl] prune])
qed

lemma pairByPoolLocked_pairs: "pairByPoolLocked ord pool m = (r, m') \<Longrightarrow> mePairs m' = mePairs m \<and> meCfg m' = meCfg m \<and> meTokens m' = meTokens m"
  by (auto simp: pairByPoolLocked_def Let_def split: if_splits list.splits)

lemma ObserveSwap_no_new: "no_new_live m (mem_ObserveSwap F ord swap now m)"
proof -
  obtain r m' where r: "pairByPoolLocked ord (sPool swap) m = (r, m')" by force
  note s = pairByPoolLocked_pairs [OF r]
  show ?thesis
  proof (cases "\<exists>k p. r = Some k \<and> map_of (mePairs m') k = Some p")
    case True
    then obtain k p where p: "r = Some k" "map_of (mePairs m') k = Some p" by blast
    show ?thesis
      by (rule no_new_live_put [where k = k]) (use p s in \<open>auto simp: mem_ObserveSwap_def r Let_def pair_frame\<close>)
  qed (use s in \<open>auto simp: mem_ObserveSwap_def r split: option.split intro!: no_new_live_refl\<close>)
qed

lemma RecordDepth_no_new: "no_new_live m (RecordDepth F ord pool d now1 now2 m)"
proof -
  obtain r m' where r: "pairByPoolLocked ord pool m = (r, m')" by force
  note s = pairByPoolLocked_pairs [OF r]
  show ?thesis
  proof (cases "\<exists>k p. r = Some k \<and> map_of (mePairs m') k = Some p")
    case True
    then obtain k p where p: "r = Some k" "map_of (mePairs m') k = Some p" by blast
    have "paState (probed_pair F ord (meCfg m) pool d now1 now2 p) = Admitted \<Longrightarrow> paState p = Admitted"
      using probed_pair_frame(3) [of F ord "meCfg m" pool d now1 now2 p] by auto
    then show ?thesis
      by (rule_tac no_new_live_put [where k = k]) (use p s in \<open>auto simp: RecordDepth_def r probed_pair_frame(1)\<close>)
  qed (use s in \<open>auto simp: RecordDepth_def r split: option.split intro!: no_new_live_refl\<close>)
qed

lemma map_of_map_pairs: "map_of (mePairs (map_pairs f m)) k = map_option f (map_of (mePairs m) k)"
proof -
  have "map_of (map (\<lambda>(k, p). (k, f p)) xs) k = map_option f (map_of xs k)" for xs by (induction xs) auto
  then show ?thesis by (simp add: map_pairs_def)
qed

lemma map_pairs_simps [simp]: "meCfg (map_pairs f m) = meCfg m" "meTokens (map_pairs f m) = meTokens m"
  by (simp_all add: map_pairs_def)

lemma map_of_set_state:
  "map_of (mePairs (set_state k s m)) j = (if j = k then map_option (\<lambda>p. p\<lparr>paState := s\<rparr>) (map_of (mePairs m) k) else map_of (mePairs m) j)"
  by (simp add: set_state_def map_of_map_entry split: option.split)

lemma set_state_simps [simp]: "meCfg (set_state k s m) = meCfg m" "meTokens (set_state k s m) = meTokens m"
  by (simp_all add: set_state_def)

lemma map_pairs_no_new:
  assumes "\<And>p. paState (f p) = Admitted \<Longrightarrow> paState p = Admitted \<and> paKey (f p) = paKey p"
  shows "no_new_live m (map_pairs f m)"
  using assms by (auto simp: no_new_live_def map_of_map_pairs)

lemma set_state_no_new: "s \<noteq> Admitted \<Longrightarrow> no_new_live m (set_state k s m)"
  by (auto simp: no_new_live_def map_of_set_state split: if_splits)

lemma shadow_picks_no_new: "no_new_live m (snd (shadow_picks F limit cs out taken m))"
proof (induction F limit cs out taken m rule: shadow_picks.induct)
  case (2 F limit k p cs out taken m)
  then show ?case by (auto simp: Let_def no_new_live_refl intro: no_new_live_trans [OF set_state_no_new [of Shadow]])
qed (simp add: no_new_live_refl)

lemma SelectShadow_no_new: "no_new_live m (snd (SelectShadow F ord now m))"
proof -
  have 1: "no_new_live m (map_pairs (shadow_review F ord cfg now) m)" for cfg
    by (rule map_pairs_no_new) (auto simp: shadow_review_def Let_def pair_frame split: if_splits)
  have 2: "no_new_live m' (map_pairs (\<lambda>p. if paState p = Shadow then p\<lparr>paState := Observed\<rparr> else p) m')" for m' :: "'a Memory"
    by (rule map_pairs_no_new) (auto split: if_splits)
  show ?thesis unfolding SelectShadow_def Let_def
    by (rule no_new_live_trans [OF no_new_live_trans [OF 1 2] shadow_picks_no_new])
qed

lemma RegisterToken_live:
  assumes "core_fixed core m" "tmCore t = core (to_lower (trim_space (tmAddress t)))"
  shows "core_fixed core (snd (RegisterToken t m))" "no_new_live m (snd (RegisterToken t m))"
    "core_in m a \<Longrightarrow> core_in (snd (RegisterToken t m)) a" "meCfg (snd (RegisterToken t m)) = meCfg m"
  using assms by (auto simp: RegisterToken_def Let_def core_fixed_def core_in_def update_conv' no_new_live_refl split: option.splits)

text \<open>The tokens collected along the way.\<close>

lemma added_assets_set: "set (added_assets m taken p) = {a \<in> set (pair_tokens (paKey p)). \<not> core_in m a} - set taken"
  by (auto simp: added_assets_def)

lemma live_assets_gen:
  assumes "distinct acc"
  shows "distinct (fold (\<lambda>p taken. taken @ remdups (added_assets m taken p)) ps acc)
    \<and> set (fold (\<lambda>p taken. taken @ remdups (added_assets m taken p)) ps acc)
        = set acc \<union> {a. \<exists>p\<in>set ps. a \<in> set (pair_tokens (paKey p)) \<and> \<not> core_in m a}"
  using assms
proof (induction ps arbitrary: acc)
  case (Cons p ps)
  have "distinct (acc @ remdups (added_assets m acc p))" using Cons.prems by (auto simp: added_assets_set)
  from Cons.IH [OF this] show ?case by (auto simp: added_assets_set)
qed simp

definition pick_ok :: "'f Memory \<Rightarrow> string list \<Rightarrow> string list \<Rightarrow> bool" where
  "pick_ok m selected taken \<longleftrightarrow> distinct selected \<and> int (length selected) \<le> pcMaxLivePairs (meCfg m)
     \<and> distinct taken \<and> int (length taken) \<le> pcMaxLiveDynamicAssets (meCfg m)
     \<and> set taken = assets_of m (set selected) \<and> set selected \<subseteq> admitted m"

lemma set_state_admits: "map_of (mePairs m) k = Some p \<Longrightarrow> admitted (set_state k Admitted m) = insert k (admitted m)"
  by (auto simp: admitted_def map_of_set_state)

lemma pick_ok_add:
  assumes "pick_ok m selected taken" "map_of (mePairs m) k = Some q" "paKey q = paKey p" "k \<notin> set selected"
    and "int (length selected) < pcMaxLivePairs (meCfg m)"
    and "int (length taken + length (added_assets m taken p)) \<le> pcMaxLiveDynamicAssets (meCfg m)"
  shows "pick_ok (set_state k Admitted m) (selected @ [k]) (taken @ remdups (added_assets m taken p))"
proof -
  have "assets_of m (insert k (set selected)) = assets_of m (set selected) \<union> {a \<in> set (pair_tokens (paKey p)). \<not> core_in m a}"
    using assms(2,3) by (auto simp: assets_of_def)
  then have "set (taken @ remdups (added_assets m taken p)) = assets_of (set_state k Admitted m) (set (selected @ [k]))"
    using assms(1) unfolding assets_of_frame [OF set_state_frame] by (auto simp: pick_ok_def added_assets_set)
  moreover have "int (length taken) + int (length (remdups (added_assets m taken p))) \<le> pcMaxLiveDynamicAssets (meCfg m)"
    using length_remdups_leq [of "added_assets m taken p"] assms(6) by linarith
  ultimately show ?thesis using assms set_state_admits [OF assms(2)]
    by (auto simp: pick_ok_def added_assets_set)
qed

lemma live_picks_ok:
  assumes "live_picks cs selected taken m = (selected', taken', m')" "pick_ok m selected taken"
    and "\<And>k p. (k, p) \<in> set cs \<Longrightarrow> k = key_string (paKey p) \<and> (\<exists>q. map_of (mePairs m) k = Some q \<and> paKey q = paKey p)"
  shows "pick_ok m' selected' taken' \<and> set selected \<subseteq> set selected' \<and> set selected' - set selected \<subseteq> fst ` set cs
    \<and> (\<forall>k. map_of (mePairs m') k = (if k \<in> set selected' - set selected then map_option (\<lambda>p. p\<lparr>paState := Admitted\<rparr>) (map_of (mePairs m) k)
                                     else map_of (mePairs m) k))"
  using assms
proof (induction cs arbitrary: selected taken m)
  case (Cons e cs)
  obtain k p where e: "e = (k, p)" by (cases e)
  let ?added = "added_assets m taken p"
  obtain q where q: "k = key_string (paKey p)" "map_of (mePairs m) k = Some q" "paKey q = paKey p"
    using Cons.prems(3) [of k p] e by auto
  consider (full) "int (length selected) \<ge> pcMaxLivePairs (meCfg m)"
    | (skip) "int (length selected) < pcMaxLivePairs (meCfg m)"
      "k \<in> set selected \<or> int (length taken + length ?added) > pcMaxLiveDynamicAssets (meCfg m)"
    | (take) "int (length selected) < pcMaxLivePairs (meCfg m)" "k \<notin> set selected"
      "int (length taken + length ?added) \<le> pcMaxLiveDynamicAssets (meCfg m)" by linarith
  then show ?case
  proof cases
    case full
    then show ?thesis using Cons.prems(1,2) by (simp add: e)
  next
    case skip
    then have "live_picks cs selected taken m = (selected', taken', m')"
      using Cons.prems(1) by (simp add: e Let_def flip: q(1) split: if_splits)
    from Cons.IH [OF this Cons.prems(2)] Cons.prems(3) show ?thesis by (simp add: e) blast
  next
    case take
    then have run: "live_picks cs (selected @ [k]) (taken @ remdups ?added) (set_state k Admitted m) = (selected', taken', m')"
      using Cons.prems(1) by (auto simp: e Let_def simp flip: q(1))
    note ok = pick_ok_add [OF Cons.prems(2) q(2,3) take(2,1,3)]
    have keys: "j = key_string (paKey r) \<and> (\<exists>q. map_of (mePairs (set_state k Admitted m)) j = Some q \<and> paKey q = paKey r)"
      if "(j, r) \<in> set cs" for j r
      using Cons.prems(3) [of j r] that by (auto simp: map_of_set_state e)
    show ?thesis using Cons.IH [OF run ok keys] take(2) by (auto simp: e map_of_set_state)
  qed
qed simp

lemma pick_ok_frame_demote:
  assumes "pick_ok m selected taken" "mem_ok m"
    and "m' = map_pairs (\<lambda>p. if paState p = Admitted \<and> key_string (paKey p) \<notin> set selected then p\<lparr>paState := Observed\<rparr> else p) m"
  shows "admitted m' = set selected" "same_frame m m'" "set taken = assets_of m' (admitted m')"
proof -
  have key: "k = key_string (paKey p)" if "map_of (mePairs m) k = Some p" for k p
    using mem_wfD(2) [of m k p] that assms(2) by (simp add: mem_ok_def)
  have sel: "set selected \<subseteq> admitted m" using assms(1) by (simp add: pick_ok_def)
  show a: "admitted m' = set selected"
  proof (intro equalityI subsetI)
    fix k assume "k \<in> admitted m'"
    then obtain p where p: "map_of (mePairs m) k = Some p"
      "paState (if paState p = Admitted \<and> key_string (paKey p) \<notin> set selected then p\<lparr>paState := Observed\<rparr> else p) = Admitted"
      by (auto simp: admitted_def assms(3) map_of_map_pairs)
    then show "k \<in> set selected" using key [OF p(1)] by (simp split: if_splits)
  next
    fix k assume k: "k \<in> set selected"
    then obtain p where "map_of (mePairs m) k = Some p" "paState p = Admitted" using sel by (auto simp: admitted_def)
    moreover then have "key_string (paKey p) = k" using key by metis
    ultimately show "k \<in> admitted m'" using k by (auto simp: admitted_def assms(3) map_of_map_pairs)
  qed
  show f: "same_frame m m'" unfolding assms(3) by (rule map_pairs_frame) simp
  show "set taken = assets_of m' (admitted m')" unfolding a assets_of_frame [OF f] using assms(1) by (simp add: pick_ok_def)
qed

lemma live_review_state: "paState (live_review F ord now m p) = Admitted \<Longrightarrow> paState p = Admitted"
  by (auto simp: live_review_def remember_score_def Let_def pair_frame split: if_splits)

text \<open>What the qualification looks at, apart from the cooldown.\<close>

lemma liveQualified_admitted:
  assumes "liveQualifiedLocked F now m p" "meCfg m' = meCfg m" "meTokens m' = meTokens m"
  shows "liveQualifiedLocked F now m' (p\<lparr>paState := Admitted\<rparr>)"
proof -
  have "core_in m' = core_in m" using assms(3) by (auto simp: core_in_def)
  then show ?thesis using assms(1,2) by (simp add: liveQualifiedLocked_def Let_def)
qed

lemma liveQualified_same: "meCfg m' = meCfg m \<Longrightarrow> meTokens m' = meTokens m \<Longrightarrow> liveQualifiedLocked F now m' p = liveQualifiedLocked F now m p"
  by (simp add: liveQualifiedLocked_def Let_def core_in_def [abs_def])

lemma liveQualified_below: "liveQualifiedLocked F now m (p\<lparr>paBelowWindows := n\<rparr>) = liveQualifiedLocked F now m p"
  by (simp add: liveQualifiedLocked_def Let_def)

lemma live_review_grace:
  assumes "paState (live_review F ord now m p) = Admitted" "\<not> liveQualifiedLocked F now m (live_review F ord now m p)"
  shows "paBelowWindows (live_review F ord now m p) < pcEjectWindows (meCfg m)"
  using assms by (auto simp: live_review_def Let_def liveQualified_below split: if_splits)

definition live_kept_pairs :: "'f MathOps \<Rightarrow> (string list \<Rightarrow> string list) \<Rightarrow> int \<Rightarrow> 'f Memory \<Rightarrow> 'f Pair list" where
  "live_kept_pairs F ord now m = map snd (filter (\<lambda>(_, p). live_kept F now m p) (range_map ord (mePairs m)))"

lemma live_start_ok:
  assumes "is_range ord" "mem_ok m" "live_ok m" "m1 = map_pairs (live_review F ord now m) m"
  shows "pick_ok m1 (remdups (map (key_string \<circ> paKey) (live_kept_pairs F ord now m1))) (live_assets m1 (live_kept_pairs F ord now m1))"
    "set (remdups (map (key_string \<circ> paKey) (live_kept_pairs F ord now m1))) = {k. \<exists>p. map_of (mePairs m1) k = Some p \<and> live_kept F now m1 p}"
proof -
  let ?K = "{k. \<exists>p. map_of (mePairs m1) k = Some p \<and> live_kept F now m1 p}" and ?kept = "live_kept_pairs F ord now m1"
  have f: "same_frame m m1" unfolding assms(4) by (rule map_pairs_frame) (simp add: live_review_frame)
  have ok: "mem_ok m1" by (rule same_frame_ok [OF f assms(2)])
  have d: "distinct (map fst (mePairs m1))" using ok by (simp add: mem_ok_def mem_wf_def)
  have key: "k = key_string (paKey p)" if "(k, p) \<in> set (mePairs m1)" for k p
    using ok that by (auto simp: mem_ok_def mem_wf_def pair_ok_def)
  have kept: "set ?kept = {p. \<exists>k. map_of (mePairs m1) k = Some p \<and> live_kept F now m1 p}"
    using range_map_set [OF assms(1) d] d by (force simp: live_kept_pairs_def)
  have keyK: "map_of (mePairs m1) k = Some p \<Longrightarrow> key_string (paKey p) = k" for k p using key [OF map_of_SomeD] by metis
  show K: "set (remdups (map (key_string \<circ> paKey) ?kept)) = ?K"
    using keyK by (auto simp: kept image_iff)
  have KA: "?K \<subseteq> admitted m"
    using live_review_state unfolding assms(4) by (fastforce simp: admitted_def map_of_map_pairs live_kept_def)
  have "int (length (remdups (map (key_string \<circ> paKey) ?kept))) = int (card ?K)"
    using K by (metis distinct_card distinct_remdups)
  moreover have "card ?K \<le> card (admitted m)" by (rule card_mono [OF finite_admitted KA])
  ultimately have l1: "int (length (remdups (map (key_string \<circ> paKey) ?kept))) \<le> pcMaxLivePairs (meCfg m)"
    using assms(3) unfolding live_ok_def by linarith
  have la: "distinct (live_assets m1 ?kept)" "set (live_assets m1 ?kept) = assets_of m1 ?K"
    using live_assets_gen [of "[]" m1 ?kept] by (auto simp: live_assets_def kept assets_of_def)
  have "int (length (live_assets m1 ?kept)) = int (card (assets_of m ?K))"
    using la assets_of_frame [OF f] by (metis distinct_card)
  moreover have "card (assets_of m ?K) \<le> card (assets_of m (admitted m))"
    by (rule card_mono [OF finite_assets [OF finite_admitted] assets_of_mono [OF KA]])
  ultimately have l2: "int (length (live_assets m1 ?kept)) \<le> pcMaxLiveDynamicAssets (meCfg m)"
    using assms(3) unfolding live_ok_def by linarith
  have "?K \<subseteq> admitted m1" by (auto simp: admitted_def live_kept_def)
  then show "pick_ok m1 (remdups (map (key_string \<circ> paKey) ?kept)) (live_assets m1 ?kept)"
    using K l1 l2 la by (simp add: pick_ok_def same_frame_cfg [OF f])
qed

end
