(* ===== verification/Spec2Isabelle.thy ===== *)
theory Spec2Isabelle
  imports Prelude Dex Pools Routes Graph Config Pricing Fees Quotes Optimizer Opportunity PoolCache Scheduler Wallet Safety Tx Execution RpcClient MarketCycle Economics PairMemory
begin

text \<open>
  TitanArb Go engine: skeleton of the development.
\<close>

end
